(* ===== verification/Prelude.thy ===== *)
theory Prelude
  imports Main "HOL-Library.Word" "HOL-Library.Multiset" "HOL-Library.AList"
begin

text \<open>
  What every component of the development shares: the machine types of the Go code, Go
  errors with their wrapping, the results of fallible calls, instants, \<open>sort.Slice\<close>, and the
  generic lemmas on words, lists and association lists that carry the component proofs.

  \<^item> \<open>uint64\<close>, \<open>uint32\<close> and \<open>uint8\<close> are words and wrap around; \<open>int\<close>, \<open>int64\<close> and
    \<open>*big.Int\<close> are \<^typ>\<open>int\<close>, with the code's own range checks written out.
  \<^item> \<open>common.Hash\<close> and \<open>common.Address\<close>, fixed arrays of 32 and 20 bytes, are words of 256 and
    160 bits, the bytes read as one big-endian number.
  \<^item> A \<open>[]byte\<close> whose \<open>nil\<close> is told apart from the empty slice is a \<open>bytes option\<close>.
  \<^item> An \<open>error\<close> is the tree that \<open>errors.New\<close> and \<open>fmt.Errorf\<close> with \<open>%w\<close> build. The format
    string is kept; the arguments that are not errors are not.
\<close>

section \<open>Machine types\<close>

type_synonym u8 = "8 word"
type_synonym u32 = "32 word"
type_synonym u64 = "64 word"
type_synonym hash = "256 word"
type_synonym address = "160 word"
type_synonym bytes = "u8 list"

definition MaxUint64 :: u64 where
  "MaxUint64 = - 1"

definition MaxUint32 :: int where
  "MaxUint32 = 2 ^ 32 - 1"

definition MaxInt64 :: int where
  "MaxInt64 = 2 ^ 63 - 1"

definition MaxInt32 :: int where
  "MaxInt32 = 2 ^ 31 - 1"

text \<open>\<open>append([]byte(nil), xs...)\<close> is \<open>nil\<close> for an empty \<open>xs\<close>; \<open>append([]byte{}, xs...)\<close> never is.\<close>

definition bytes_of :: "bytes option \<Rightarrow> bytes" where
  "bytes_of b = (case b of None \<Rightarrow> [] | Some xs \<Rightarrow> xs)"

definition append_nil :: "bytes option \<Rightarrow> bytes option" where
  "append_nil b = (if bytes_of b = [] then None else Some (bytes_of b))"

definition append_empty :: "bytes option \<Rightarrow> bytes option" where
  "append_empty b = Some (bytes_of b)"

lemma bytes_of_simps [simp]:
  "bytes_of None = []" "bytes_of (Some xs) = xs"
  by (simp_all add: bytes_of_def)

lemma bytes_of_append_nil [simp]: "bytes_of (append_nil b) = bytes_of b"
  by (simp add: append_nil_def)

lemma append_nil_idem [simp]: "append_nil (append_nil b) = append_nil b"
  by (simp add: append_nil_def)

section \<open>Errors\<close>

datatype sentinel =
    ErrNotFound | ErrInvalidCanonicalUpdate | ErrInvalidQuery | ErrStaleCursor | ErrInconsistentData
  | ErrInconsistentBlockData | ErrInvalidLowFetchRange | ErrInvalidLargeFetchRange
  | ErrInvalidSyncConfig | ErrInvalidSyncDependency | ErrHeadChanged | ErrSyncRetriesExhausted
  | ServiceErrNotFound | ServiceErrInvalidQuery | ServiceErrStaleCursor | ServiceErrNotReady
  | ErrUnexpectedChainID | ContextCanceled | ContextDeadlineExceeded | PgxErrNoRows
  | HTTPErrServerClosed | FlagErrHelp

datatype err = Sentinel sentinel | Foreign string | Errorf string "err list"

fun errors_Is :: "err \<Rightarrow> sentinel \<Rightarrow> bool" where
  "errors_Is (Sentinel t) s = (t = s)"
| "errors_Is (Foreign m) s = False"
| "errors_Is (Errorf m es) s = list_ex (\<lambda>e. errors_Is e s) es"

text \<open>The error of a fallible call that returns no value: \<^const>\<open>None\<close> is \<open>nil\<close>.\<close>

type_synonym error = "err option"

text \<open>A context is read through \<open>ctx.Err()\<close>: \<open>nil\<close>, or one of the two errors of package \<open>context\<close>.\<close>

datatype ctx_error = Canceled | DeadlineExceeded

type_synonym ctx = "ctx_error option"

definition ctx_err :: "ctx_error \<Rightarrow> err" where
  "ctx_err c = Sentinel (case c of Canceled \<Rightarrow> ContextCanceled | DeadlineExceeded \<Rightarrow> ContextDeadlineExceeded)"

lemma ctx_err_Is [simp]:
  "errors_Is (ctx_err c) s \<longleftrightarrow> (c = Canceled \<and> s = ContextCanceled \<or>
     c = DeadlineExceeded \<and> s = ContextDeadlineExceeded)"
  by (cases c) (auto simp: ctx_err_def)

section \<open>Instants\<close>

datatype location = UTC | Local | Zone string

record Time =
  t_unixNano :: int
  t_location :: location

definition zero_Time :: Time where
  "zero_Time = \<lparr>t_unixNano = - 62135596800000000000, t_location = UTC\<rparr>"

definition Time_UTC :: "Time \<Rightarrow> Time" where
  "Time_UTC t = t\<lparr>t_location := UTC\<rparr>"

section \<open>Sorting with a comparison function\<close>

text \<open>
  \<open>sort.Slice(xs, less)\<close> leaves some permutation of \<open>xs\<close> that is sorted by \<open>less\<close>; it is not
  stable. \<open>sort_Slice\<close> computes one. Where no two elements share a sort key there is only one
  (\<open>sort_unique\<close> below), so the choice does not show.
\<close>

fun insert_by :: "('a \<Rightarrow> 'a \<Rightarrow> bool) \<Rightarrow> 'a \<Rightarrow> 'a list \<Rightarrow> 'a list" where
  "insert_by lt x [] = [x]"
| "insert_by lt x (y # ys) = (if lt y x then y # insert_by lt x ys else x # y # ys)"

definition sort_Slice :: "('a \<Rightarrow> 'a \<Rightarrow> bool) \<Rightarrow> 'a list \<Rightarrow> 'a list" where
  "sort_Slice lt xs = foldr (insert_by lt) xs []"

lemma sort_Slice_simps [simp]:
  "sort_Slice lt [] = []"
  "sort_Slice lt (x # xs) = insert_by lt x (sort_Slice lt xs)"
  by (simp_all add: sort_Slice_def)

lemma mset_insert_by [simp]: "mset (insert_by lt x ys) = add_mset x (mset ys)"
  by (induction ys) auto

lemma mset_sort_Slice [simp]: "mset (sort_Slice lt xs) = mset xs"
  by (induction xs) auto

lemma set_sort_Slice [simp]: "set (sort_Slice lt xs) = set xs"
  by (metis mset_sort_Slice set_mset_mset)

lemma length_sort_Slice [simp]: "length (sort_Slice lt xs) = length xs"
  by (metis mset_sort_Slice size_mset)

lemma sort_Slice_Nil_iff [simp]: "sort_Slice lt xs = [] \<longleftrightarrow> xs = []"
  by (metis length_0_conv length_sort_Slice)

lemma set_insert_by [simp]: "set (insert_by lt x ys) = insert x (set ys)"
  by (induction ys) auto

locale slice_order =
  fixes lt :: "'a \<Rightarrow> 'a \<Rightarrow> bool"
    and key :: "'a \<Rightarrow> 'k"
  assumes less_key: "lt a b \<Longrightarrow> key a \<noteq> key b"
    and less_trans: "lt a b \<Longrightarrow> lt b c \<Longrightarrow> lt a c"
    and less_total: "key a \<noteq> key b \<Longrightarrow> lt a b \<or> lt b a"
begin

lemma less_asym: "lt a b \<Longrightarrow> \<not> lt b a"
  using less_key less_trans by blast

lemma sorted_insert_by:
  assumes "sorted_wrt lt ys" and "key x \<notin> key ` set ys"
  shows "sorted_wrt lt (insert_by lt x ys)"
  using assms
proof (induction ys)
  case (Cons y ys)
  then have "lt x y \<or> lt y x" using less_total [of x y] by auto
  with Cons show ?case by (auto intro: less_trans dest: less_asym)
qed simp

lemma sorted_sort: "distinct (map key xs) \<Longrightarrow> sorted_wrt lt (sort_Slice lt xs)"
  by (induction xs) (auto intro!: sorted_insert_by)

lemma sorted_set_unique:
  "sorted_wrt lt xs \<Longrightarrow> sorted_wrt lt ys \<Longrightarrow> set xs = set ys \<Longrightarrow> xs = ys"
proof (induction xs arbitrary: ys)
  case (Cons x xs)
  then obtain y ys' where ys: "ys = y # ys'" by (cases ys) auto
  have "x = y"
  proof (rule ccontr)
    assume "x \<noteq> y"
    with Cons.prems ys have "lt x y" "lt y x" by auto
    then show False using less_asym by blast
  qed
  moreover have "x \<notin> set xs" "y \<notin> set ys'"
    using Cons.prems ys less_key [of x x] less_key [of y y] by auto
  ultimately have "set xs = set ys'" using Cons.prems ys by auto
  with Cons ys \<open>x = y\<close> show ?case by auto
qed simp

lemma sort_unique:
  assumes "distinct (map key xs)" and "mset ys = mset xs" and "sorted_wrt lt ys"
  shows "ys = sort_Slice lt xs"
  using assms sorted_sort sorted_set_unique
  by (metis mset_eq_setD set_sort_Slice)

lemma sort_perm:
  assumes "distinct (map key xs)" and "mset ys = mset xs"
  shows "sort_Slice lt ys = sort_Slice lt xs"
proof (rule sort_unique [OF assms(1)])
  have "distinct (map key ys)"
    using assms by (metis mset_eq_imp_distinct_iff mset_map)
  then show "sorted_wrt lt (sort_Slice lt ys)" by (rule sorted_sort)
qed (simp add: assms(2))

lemma sort_sorted:
  assumes "sorted_wrt lt xs"
  shows "sort_Slice lt xs = xs"
proof -
  from assms have "distinct (map key xs)"
    by (induction xs) (auto dest: less_key)
  then show ?thesis using assms sort_unique by metis
qed

lemma sorted_distinct: "sorted_wrt lt xs \<Longrightarrow> distinct xs"
  by (induction xs) (auto dest: less_key)

lemma sort_filter:
  assumes "distinct (map key xs)"
  shows "sort_Slice lt (filter P xs) = filter P (sort_Slice lt xs)"
proof (rule sort_unique [symmetric])
  show "distinct (map key (filter P xs))" using assms by (simp add: distinct_map_filter)
  show "mset (filter P (sort_Slice lt xs)) = mset (filter P xs)" by simp
  show "sorted_wrt lt (filter P (sort_Slice lt xs))" by (intro sorted_wrt_filter sorted_sort assms)
qed

lemma filter_after:
  assumes "sorted_wrt lt xs" and "i < length xs"
  shows "filter (lt (xs ! i)) xs = drop (Suc i) xs"
proof -
  let ?x = "xs ! i"
  have xs: "xs = take i xs @ ?x # drop (Suc i) xs" using assms(2) by (rule id_take_nth_drop)
  have "sorted_wrt lt (take i xs @ ?x # drop (Suc i) xs)" using assms(1) xs by simp
  then have before: "\<forall>y \<in> set (take i xs). lt y ?x" and after: "\<forall>y \<in> set (drop (Suc i) xs). lt ?x y"
    by (simp_all add: sorted_wrt_append)
  have "filter (lt ?x) (take i xs) = []" using before less_asym by (auto simp: filter_empty_conv)
  moreover have "filter (lt ?x) (drop (Suc i) xs) = drop (Suc i) xs" using after by simp
  moreover have "\<not> lt ?x ?x" using less_key by blast
  ultimately show ?thesis using xs by (metis append_Nil filter.simps(2) filter_append)
qed

end

interpretation u64_less: slice_order "(<) :: u64 \<Rightarrow> u64 \<Rightarrow> bool" "\<lambda>n. n"
  by unfold_locales auto

section \<open>Words\<close>

lemma unat_Suc_u64: "n \<noteq> MaxUint64 \<Longrightarrow> unat (n + 1) = Suc (unat n)"
  by (metis MaxUint64_def add.commute add_eq_0_iff unatSuc)

lemma less_Suc_u64: "n \<noteq> MaxUint64 \<Longrightarrow> n < n + 1"
  by (simp add: word_less_nat_alt unat_Suc_u64)

lemma le_MaxUint64 [simp]: "n \<le> MaxUint64"
  by (simp add: MaxUint64_def)

lemma less_imp_neq_MaxUint64: "n < m \<Longrightarrow> n \<noteq> MaxUint64"
  using le_MaxUint64 [of m] by (metis leD)

lemma between_Suc_u64: "n < m \<Longrightarrow> m \<le> n + 1 \<Longrightarrow> m = n + 1" for n m :: u64
  using unat_Suc_u64 [OF less_imp_neq_MaxUint64, of n m]
  by (simp add: word_less_nat_alt word_le_nat_alt word_unat_eq_iff)

lemma of_nat_inj_u32:
  "i < 2 ^ 32 \<Longrightarrow> j < 2 ^ 32 \<Longrightarrow> (of_nat i :: u32) = of_nat j \<longleftrightarrow> i = j"
  by (simp add: word_unat_eq_iff unat_of_nat)

section \<open>Association lists\<close>

lemma map_of_filter_key:
  "map_of (filter (\<lambda>kv. P (fst kv)) al) k = (if P k then map_of al k else None)"
  by (induction al) auto

lemma distinct_filter_key: "distinct (map fst al) \<Longrightarrow> distinct (map fst (filter P al))"
  by (induction al) auto

end
