(* ===== verification/Domain.thy ===== *)
theory Domain
  imports Prelude
begin

text \<open>
  The storage-independent records of \<open>internal/domain\<close> (\<open>types.go\<close>, \<open>head.go\<close>, \<open>limits.go\<close>), and
  what it means for blocks to form one canonical chain. A field keeps the source's name behind a prefix for its struct. Pointers that may be \<open>nil\<close>
  are options; \<open>Input\<close> and \<open>Data\<close> keep the difference between a \<open>nil\<close> and an empty slice,
  which PostgreSQL tells apart (\<open>NULL\<close> against an empty \<open>bytea\<close>).
\<close>

section \<open>head.go and limits.go\<close>

type_synonym HeadMode = string

definition HeadLatest :: HeadMode where "HeadLatest = ''latest''"
definition HeadSafe :: HeadMode where "HeadSafe = ''safe''"
definition HeadFinalized :: HeadMode where "HeadFinalized = ''finalized''"

definition MaxBlockWindow :: u64 where "MaxBlockWindow = 50"
definition MaxEventPageSize :: u32 where "MaxEventPageSize = 1000"

section \<open>types.go\<close>

record Block =
  b_Number :: u64
  b_Hash :: hash
  b_ParentHash :: hash
  b_Timestamp :: u64
  b_GasLimit :: u64
  b_GasUsed :: u64
  b_BaseFeePerGas :: "int option"
  b_TransactionCount :: int
  b_IndexedAt :: Time

record Transaction =
  t_Hash :: hash
  t_BlockNumber :: u64
  t_BlockHash :: hash
  t_Index :: u32
  t_Type :: u8
  t_Nonce :: u64
  t_Sender :: address
  t_Recipient :: "address option"
  t_Value :: "int option"
  t_GasLimit :: u64
  t_GasPrice :: "int option"
  t_MaxFeePerGas :: "int option"
  t_MaxPriorityFeePerGas :: "int option"
  t_Input :: "bytes option"

record Event =
  e_BlockNumber :: u64
  e_BlockHash :: hash
  e_TransactionHash :: hash
  e_TransactionIndex :: u32
  e_LogIndex :: u32
  e_Address :: address
  e_Topics :: "hash list"
  e_Data :: "bytes option"

record BlockBundle =
  bb_Block :: Block
  bb_Transactions :: "Transaction list"
  bb_Events :: "Event list"

record BlockResult =
  br_Block :: Block
  br_TransactionHashes :: "hash list"

record TransactionResult =
  tr_Transaction :: Transaction
  tr_Events :: "Event list"

record EventCursor =
  ec_BlockNumber :: u64
  ec_BlockHash :: hash
  ec_LogIndex :: u32

record EventQuery =
  q_Address :: address
  q_Limit :: u32
  q_Before :: "EventCursor option"

record EventPage =
  p_Events :: "Event list"
  p_NextCursor :: "EventCursor option"

record ChainTip =
  tip_Number :: u64
  tip_Hash :: hash

record CanonicalUpdate =
  u_ChainID :: u64
  u_ReplaceFrom :: u64
  u_RetainFrom :: u64
  u_Blocks :: "BlockBundle list"
  u_SyncedAt :: Time

text \<open>The zero values Go gives to a freshly made slice of bundles.\<close>

definition zero_Block :: Block where
  "zero_Block = \<lparr>b_Number = 0, b_Hash = 0, b_ParentHash = 0, b_Timestamp = 0, b_GasLimit = 0,
     b_GasUsed = 0, b_BaseFeePerGas = None, b_TransactionCount = 0, b_IndexedAt = zero_Time\<rparr>"

definition zero_BlockBundle :: BlockBundle where
  "zero_BlockBundle = \<lparr>bb_Block = zero_Block, bb_Transactions = [], bb_Events = []\<rparr>"

abbreviation bb_Number :: "BlockBundle \<Rightarrow> u64" where
  "bb_Number b \<equiv> b_Number (bb_Block b)"

abbreviation bb_Hash :: "BlockBundle \<Rightarrow> hash" where
  "bb_Hash b \<equiv> b_Hash (bb_Block b)"

abbreviation bb_ParentHash :: "BlockBundle \<Rightarrow> hash" where
  "bb_ParentHash b \<equiv> b_ParentHash (bb_Block b)"

text \<open>The cursor that names the last event of a page.\<close>

definition cursor_of :: "Event \<Rightarrow> EventCursor" where
  "cursor_of e = \<lparr>ec_BlockNumber = e_BlockNumber e, ec_BlockHash = e_BlockHash e,
     ec_LogIndex = e_LogIndex e\<rparr>"

section \<open>Chains of blocks\<close>

text \<open>
  A chain maps block numbers to blocks. It is linked when its numbers are an interval, every
  block is stored under its own number, and each block's parent hash is the hash of the block
  below it.
\<close>

type_synonym chain = "u64 \<Rightarrow> (hash \<times> hash) option"

definition linked_chain :: "chain \<Rightarrow> bool" where
  "linked_chain C \<longleftrightarrow>
     (\<forall>lo hi n. lo \<in> dom C \<longrightarrow> hi \<in> dom C \<longrightarrow> lo \<le> n \<longrightarrow> n \<le> hi \<longrightarrow> n \<in> dom C) \<and>
     (\<forall>n. n \<noteq> MaxUint64 \<longrightarrow>
        (\<forall>h p h' p'. C n = Some (h, p) \<longrightarrow> C (n + 1) = Some (h', p') \<longrightarrow> p' = h))"

text \<open>
  A bundle is well formed when its transactions carry the block's number and hash and their own
  position, no hash twice, and its events refer to those transactions, no log index twice.
\<close>

definition wf_transactions :: "BlockBundle \<Rightarrow> bool" where
  "wf_transactions b \<longleftrightarrow>
     b_TransactionCount (bb_Block b) = int (length (bb_Transactions b)) \<and>
     int (length (bb_Transactions b)) \<le> MaxUint32 \<and>
     (\<forall>i < length (bb_Transactions b).
        t_BlockNumber (bb_Transactions b ! i) = bb_Number b \<and>
        t_BlockHash (bb_Transactions b ! i) = bb_Hash b \<and>
        t_Index (bb_Transactions b ! i) = of_nat i) \<and>
     distinct (map t_Hash (bb_Transactions b))"

definition wf_events :: "BlockBundle \<Rightarrow> bool" where
  "wf_events b \<longleftrightarrow>
     (\<forall>e \<in> set (bb_Events b).
        (\<exists>t \<in> set (bb_Transactions b).
           t_Hash t = e_TransactionHash e \<and> t_Index t = e_TransactionIndex e) \<and>
        e_BlockNumber e = bb_Number b \<and> e_BlockHash e = bb_Hash b \<and>
        length (e_Topics e) \<le> 4) \<and>
     distinct (map e_LogIndex (bb_Events b))"

definition wf_bundle :: "BlockBundle \<Rightarrow> bool" where
  "wf_bundle b \<longleftrightarrow> wf_transactions b \<and> wf_events b"

definition header :: "BlockBundle \<Rightarrow> hash \<times> hash" where
  "header b = (bb_Hash b, bb_ParentHash b)"

definition canonical_bundles :: "(u64 \<Rightarrow> BlockBundle option) \<Rightarrow> bool" where
  "canonical_bundles M \<longleftrightarrow>
     (\<forall>n b. M n = Some b \<longrightarrow> bb_Number b = n \<and> wf_bundle b) \<and>
     linked_chain (map_option header \<circ> M) \<and>
     (\<forall>n m b c. M n = Some b \<longrightarrow> M m = Some c \<longrightarrow> n \<noteq> m \<longrightarrow>
        t_Hash ` set (bb_Transactions b) \<inter> t_Hash ` set (bb_Transactions c) = {})"

text \<open>
  What \<open>CanonicalUpdate\<close> promises of storage: blocks at and above \<open>ReplaceFrom\<close> and below
  \<open>RetainFrom\<close> go, \<open>Blocks\<close> come in. \<open>f\<close> is what the store keeps of a block.
\<close>

definition updated :: "(BlockBundle \<Rightarrow> 'b) \<Rightarrow> CanonicalUpdate \<Rightarrow> (u64 \<Rightarrow> 'b option) \<Rightarrow> u64 \<Rightarrow> 'b option" where
  "updated f u M =
     (\<lambda>n. if u_RetainFrom u \<le> n \<and> n < u_ReplaceFrom u then M n else None) ++
     map_of (map (\<lambda>b. (bb_Number b, f b)) (u_Blocks u))"

end
