(* ===== verification/Index_Store.thy ===== *)
theory Index_Store
  imports Domain
begin

text \<open>
  The Go interface \<open>IndexStore\<close> of \<open>internal/store/store.go\<close> as a record of its methods, and
  the contract the indexer relies on as a locale. A method's first argument of type \<open>'x\<close> is what
  the call meets in its environment: the context's error for the in-memory store, the outcomes of
  the statements for PostgreSQL. The state \<open>'s\<close> is explicit; \<open>chain\<close> reads the canonical chain
  out of it.
\<close>

record ('x, 's) IndexStore =
  is_CanonicalTip :: "'x \<Rightarrow> 's \<Rightarrow> err + ChainTip option"
  is_CanonicalHash :: "'x \<Rightarrow> u64 \<Rightarrow> 's \<Rightarrow> err + hash"
  is_ApplyCanonicalUpdate :: "'x \<Rightarrow> CanonicalUpdate \<Rightarrow> 's \<Rightarrow> error \<times> 's"

text \<open>The blocks of an update carry consecutive numbers from \<open>n\<close> on, without passing the maximum.\<close>

fun consecutive_from :: "u64 \<Rightarrow> BlockBundle list \<Rightarrow> bool" where
  "consecutive_from n [] = True"
| "consecutive_from n (b # bs) =
     (bb_Number b = n \<and> (bs \<noteq> [] \<longrightarrow> n \<noteq> MaxUint64 \<and> consecutive_from (n + 1) bs))"

lemma consecutive_from_ge:
  "consecutive_from n bs \<Longrightarrow> b \<in> set bs \<Longrightarrow> n \<le> bb_Number b"
proof (induction bs arbitrary: n)
  case (Cons c bs)
  show ?case
  proof (cases "b = c")
    case False
    with Cons.prems have "b \<in> set bs" "n \<noteq> MaxUint64" "consecutive_from (n + 1) bs" by auto
    then have "n + 1 \<le> bb_Number b" using Cons.IH by blast
    then show ?thesis using less_Suc_u64 [OF \<open>n \<noteq> MaxUint64\<close>] by (meson less_imp_le order_trans)
  qed (use Cons.prems in simp)
qed simp

lemma consecutive_from_distinct: "consecutive_from n bs \<Longrightarrow> distinct (map bb_Number bs)"
proof (induction bs arbitrary: n)
  case (Cons c bs)
  have "bb_Number c \<notin> bb_Number ` set bs"
  proof
    assume "bb_Number c \<in> bb_Number ` set bs"
    then obtain b where b: "b \<in> set bs" "bb_Number b = bb_Number c" by auto
    then have "n + 1 \<le> bb_Number c" "n \<noteq> MaxUint64" "bb_Number c = n"
      using Cons.prems consecutive_from_ge [of "n + 1" bs b] by auto
    then show False using less_Suc_u64 by (metis leD)
  qed
  moreover have "distinct (map bb_Number bs)"
    using Cons by (cases bs) auto
  ultimately show ?case by simp
qed simp

lemma consecutive_from_last:
  "consecutive_from n bs \<Longrightarrow> b \<in> set bs \<Longrightarrow> bb_Number b \<le> bb_Number (last bs)"
proof (induction bs arbitrary: n)
  case (Cons c bs)
  show ?case
  proof (cases "bs = []")
    case False
    then have bs: "consecutive_from (n + 1) bs" "n \<noteq> MaxUint64" "bb_Number c = n" using Cons.prems by auto
    show ?thesis
    proof (cases "b \<in> set bs")
      case True
      with Cons.IH bs False show ?thesis by simp
    next
      case b: False
      then have "bb_Number b = n" using Cons.prems bs by simp
      moreover have "n + 1 \<le> bb_Number (last bs)" using consecutive_from_ge [OF bs(1)] False by simp
      ultimately show ?thesis using False less_Suc_u64 [OF bs(2)] by simp
    qed
  qed (use Cons.prems in simp)
qed simp

lemma updated_Some:
  "updated f u M n = Some x \<Longrightarrow>
     (u_RetainFrom u \<le> n \<and> n < u_ReplaceFrom u \<and> M n = Some x) \<or>
     (\<exists>b \<in> set (u_Blocks u). bb_Number b = n \<and> x = f b)"
  by (auto simp: updated_def map_add_Some_iff dest!: map_of_SomeD split: if_splits)

lemma updated_block:
  assumes "consecutive_from n (u_Blocks u)" and "b \<in> set (u_Blocks u)"
  shows "updated f u M (bb_Number b) = Some (f b)"
proof -
  have "distinct (map fst (map (\<lambda>b. (bb_Number b, f b)) (u_Blocks u)))"
    using consecutive_from_distinct [OF assms(1)] by (simp add: comp_def)
  then have "map_of (map (\<lambda>b. (bb_Number b, f b)) (u_Blocks u)) (bb_Number b) = Some (f b)"
    using assms(2) by (intro map_of_is_SomeI) auto
  then show ?thesis by (simp add: updated_def map_add_Some_iff)
qed

locale index_store =
  fixes S :: "('x, 's) IndexStore"
    and chain :: "'s \<Rightarrow> chain"
    and inv :: "'s \<Rightarrow> bool"
  assumes chain_linked: "inv s \<Longrightarrow> linked_chain (chain s)"
    and chain_finite: "inv s \<Longrightarrow> finite (dom (chain s))"
    and tip_None: "inv s \<Longrightarrow> is_CanonicalTip S x s = Inr None \<Longrightarrow> chain s = Map.empty"
    and tip_Some: "inv s \<Longrightarrow> is_CanonicalTip S x s = Inr (Some tip) \<Longrightarrow>
      (\<exists>p. chain s (tip_Number tip) = Some (tip_Hash tip, p)) \<and>
      (\<forall>n \<in> dom (chain s). n \<le> tip_Number tip)"
    and hash_Some: "inv s \<Longrightarrow> is_CanonicalHash S x n s = Inr h \<Longrightarrow> \<exists>p. chain s n = Some (h, p)"
    and hash_missing: "inv s \<Longrightarrow> is_CanonicalHash S x n s = Inl e \<Longrightarrow> errors_Is e ErrNotFound \<Longrightarrow>
      chain s n = None"
    and apply_inv: "inv s \<Longrightarrow> is_ApplyCanonicalUpdate S x u s = (r, s') \<Longrightarrow> inv s'"
    and apply_done: "inv s \<Longrightarrow> is_ApplyCanonicalUpdate S x u s = (None, s') \<Longrightarrow>
      u_RetainFrom u \<le> u_ReplaceFrom u \<and> consecutive_from (u_ReplaceFrom u) (u_Blocks u) \<and>
      chain s' = updated header u (chain s)"
    and apply_failed: "inv s \<Longrightarrow> is_ApplyCanonicalUpdate S x u s = (Some e, s') \<Longrightarrow>
      chain s' = chain s \<or>
      u_RetainFrom u \<le> u_ReplaceFrom u \<and> consecutive_from (u_ReplaceFrom u) (u_Blocks u) \<and>
      chain s' = updated header u (chain s)"

end
