(* ===== verification/Fetcher.thy ===== *)
theory Fetcher
  imports Index_Store
begin

text \<open>
  The block fetcher of \<open>internal/indexer/fetcher.go\<close> and the interface \<open>Reader\<close> of
  \<open>internal/ethereum/client.go\<close> it reads the chain through.

  The Ethereum node is not part of the program: a \<open>Reader\<close> is a record of functions over a world
  \<open>'w\<close> that may answer any call in any way and change with every call. The values of go-ethereum
  (headers, blocks, transactions, logs) are records of what their accessor methods return, and what
  the program uses of the library besides (\<open>types.Sender\<close> under the signer of
  \<open>types.LatestSignerForChainID\<close>, the numbers of transaction types and block tags) are the fields of
  \<open>Geth\<close>, a parameter. A nil pointer that Go would dereference is the error \<open>nil_dereference\<close>.
\<close>

section \<open>The chain reader\<close>

record Header =
  h_Number :: "int option"
  h_Hash :: hash

record EthTransaction =
  x_Protected :: bool
  x_ChainId :: int
  x_Hash :: hash
  x_Type :: u8
  x_Nonce :: u64
  x_To :: "address option"
  x_Value :: "int option"
  x_Gas :: u64
  x_Data :: "bytes option"
  x_GasPrice :: "int option"
  x_GasFeeCap :: "int option"
  x_GasTipCap :: "int option"

record EthBlock =
  eb_Number :: "int option"
  eb_NumberU64 :: u64
  eb_Hash :: hash
  eb_ParentHash :: hash
  eb_Time :: u64
  eb_GasLimit :: u64
  eb_GasUsed :: u64
  eb_BaseFee :: "int option"
  eb_Transactions :: "EthTransaction option list"

record Log =
  l_Removed :: bool
  l_BlockHash :: hash
  l_BlockNumber :: u64
  l_Index :: u64
  l_TxHash :: hash
  l_TxIndex :: u64
  l_Address :: address
  l_Topics :: "hash list"
  l_Data :: "bytes option"

record 'w Reader =
  r_ChainID :: "'w \<Rightarrow> (err + int option) \<times> 'w"
  r_BlockNumber :: "'w \<Rightarrow> (err + u64) \<times> 'w"
  r_BlockByNumber :: "int option \<Rightarrow> 'w \<Rightarrow> (err + EthBlock option) \<times> 'w"
  r_HeaderByNumber :: "int option \<Rightarrow> 'w \<Rightarrow> (err + Header option) \<times> 'w"
  r_LogsByBlockHash :: "hash \<Rightarrow> 'w \<Rightarrow> (err + Log list) \<times> 'w"

definition nil_dereference :: err where
  "nil_dereference = Foreign ''invalid memory address or nil pointer dereference''"

definition inconsistent :: "string \<Rightarrow> err" where
  "inconsistent msg = Errorf msg [Sentinel ErrInconsistentBlockData]"

text \<open>\<open>(*big.Int).IsUint64\<close> and the conversions between \<open>uint64\<close> and \<open>*big.Int\<close>.\<close>

definition IsUint64 :: "int \<Rightarrow> bool" where
  "IsUint64 i \<longleftrightarrow> 0 \<le> i \<and> i < 2 ^ 64"

definition big_Uint64 :: "int \<Rightarrow> u64" where
  "big_Uint64 i = word_of_int i"

definition SetUint64 :: "u64 \<Rightarrow> int" where
  "SetUint64 n = uint n"

text \<open>
  What else the program takes from go-ethereum: \<open>types.Sender\<close> under the signer of a chain ID, and
  the constants \<open>types.LegacyTxType\<close>, \<open>types.AccessListTxType\<close>, \<open>rpc.SafeBlockNumber\<close> and
  \<open>rpc.FinalizedBlockNumber\<close>.
\<close>

record Geth =
  g_Sender :: "int \<Rightarrow> EthTransaction \<Rightarrow> err + address"
  g_LegacyTxType :: u8
  g_AccessListTxType :: u8
  g_SafeBlockNumber :: int
  g_FinalizedBlockNumber :: int

section \<open>The fetcher\<close>

text \<open>The signer is known by the chain ID it was made for.\<close>

record 'w Fetcher =
  f_geth :: Geth
  f_chain :: "'w Reader"
  f_chainID :: "int option"
  f_signer :: int
  f_now :: "'w \<Rightarrow> Time \<times> 'w"

definition NewFetcher :: "Geth \<Rightarrow> ('w \<Rightarrow> Time \<times> 'w) \<Rightarrow> 'w Reader \<Rightarrow> u64 \<Rightarrow> 'w Fetcher" where
  "NewFetcher geth clock chain chainID =
     (let id = SetUint64 chainID in
      \<lparr>f_geth = geth, f_chain = chain, f_chainID = Some id, f_signer = id, f_now = clock\<rparr>)"

definition f_sender :: "'w Fetcher \<Rightarrow> EthTransaction \<Rightarrow> err + address" where
  "f_sender f x = g_Sender (f_geth f) (f_signer f) x"

definition validateBlockNumber :: "EthBlock \<Rightarrow> u64 \<Rightarrow> error" where
  "validateBlockNumber block requested =
     (case eb_Number block of
        None \<Rightarrow> Some (inconsistent ''%w: requested block %d, received block %s'')
      | Some number \<Rightarrow>
          if \<not> IsUint64 number \<or> big_Uint64 number \<noteq> requested
          then Some (inconsistent ''%w: requested block %d, received block %s'')
          else None)"

text \<open>One transaction: the fields of the record literal, then the fee fields of its type.\<close>

definition map_transaction ::
  "Geth \<Rightarrow> u64 \<Rightarrow> hash \<Rightarrow> u32 \<Rightarrow> address \<Rightarrow> EthTransaction \<Rightarrow> Transaction" where
  "map_transaction geth blockNumber blockHash position sender x =
     (let mapped = \<lparr>t_Hash = x_Hash x, t_BlockNumber = blockNumber, t_BlockHash = blockHash,
            t_Index = position, t_Type = x_Type x, t_Nonce = x_Nonce x, t_Sender = sender,
            t_Recipient = x_To x, t_Value = x_Value x, t_GasLimit = x_Gas x, t_GasPrice = None,
            t_MaxFeePerGas = None, t_MaxPriorityFeePerGas = None,
            t_Input = append_empty (x_Data x)\<rparr>
      in if x_Type x = g_LegacyTxType geth \<or> x_Type x = g_AccessListTxType geth
         then mapped\<lparr>t_GasPrice := x_GasPrice x\<rparr>
         else mapped\<lparr>t_MaxFeePerGas := x_GasFeeCap x, t_MaxPriorityFeePerGas := x_GasTipCap x\<rparr>)"

fun map_transactions ::
  "'w Fetcher \<Rightarrow> u64 \<Rightarrow> hash \<Rightarrow> nat \<Rightarrow> EthTransaction option list \<Rightarrow> Transaction list \<Rightarrow> (hash \<rightharpoonup> u32)
   \<Rightarrow> err + (Transaction list \<times> (hash \<rightharpoonup> u32))" where
  "map_transactions f blockNumber blockHash index [] transactions positions =
     Inr (transactions, positions)"
| "map_transactions f blockNumber blockHash index (None # rest) transactions positions =
     Inl (inconsistent ''%w: block %d contains a nil transaction at index %d'')"
| "map_transactions f blockNumber blockHash index (Some x # rest) transactions positions =
     (if x_Protected x \<and> f_chainID f = None then Inl nil_dereference
      else if x_Protected x \<and> x_ChainId x \<noteq> the (f_chainID f)
      then Inl (inconsistent ''%w: transaction %s has chain ID %s, expected %s'')
      else
        (case f_sender f x of
           Inl e \<Rightarrow>
             Inl (Errorf ''%w: derive sender for transaction %s: %w''
                    [Sentinel ErrInconsistentBlockData, e])
         | Inr sender \<Rightarrow>
             (let position = of_nat index; hash = x_Hash x in
              if positions hash \<noteq> None
              then Inl (inconsistent ''%w: duplicate transaction %s'')
              else map_transactions f blockNumber blockHash (Suc index) rest
                     (transactions @ [map_transaction (f_geth f) blockNumber blockHash position sender x])
                     (positions(hash \<mapsto> position)))))"

definition mapTransactions :: "'w Fetcher \<Rightarrow> EthBlock \<Rightarrow> err + (Transaction list \<times> (hash \<rightharpoonup> u32))" where
  "mapTransactions f block =
     (if int (length (eb_Transactions block)) > MaxUint32
      then Inl (inconsistent ''%w: block %d has too many transactions'')
      else map_transactions f (eb_NumberU64 block) (eb_Hash block) 0 (eb_Transactions block) []
             Map.empty)"

fun map_events ::
  "u64 \<Rightarrow> hash \<Rightarrow> Log list \<Rightarrow> (hash \<rightharpoonup> u32) \<Rightarrow> Event list \<Rightarrow> u32 set \<Rightarrow> err + Event list" where
  "map_events blockNumber blockHash [] positions events seenLogIndexes = Inr events"
| "map_events blockNumber blockHash (log # logs) positions events seenLogIndexes =
     (if l_Removed log then Inl (inconsistent ''%w: block %d contains a removed log'')
      else if l_BlockHash log \<noteq> blockHash \<or> l_BlockNumber log \<noteq> blockNumber
      then Inl (inconsistent ''%w: log %d does not belong to block %d (%s)'')
      else if uint (l_Index log) > MaxUint32 \<or> uint (l_TxIndex log) > MaxUint32
      then Inl (inconsistent ''%w: log or transaction index exceeds uint32'')
      else if length (l_Topics log) > 4
      then Inl (inconsistent ''%w: log %d has %d topics, maximum is 4'')
      else
        (case positions (l_TxHash log) of
           None \<Rightarrow> Inl (inconsistent ''%w: log %d references unknown transaction %s'')
         | Some transactionIndex \<Rightarrow>
             if (ucast (l_TxIndex log) :: u32) \<noteq> transactionIndex
             then Inl (inconsistent ''%w: log %d transaction index is %d, expected %d'')
             else
               (let logIndex = (ucast (l_Index log) :: u32) in
                if logIndex \<in> seenLogIndexes
                then Inl (inconsistent ''%w: duplicate log index %d'')
                else map_events blockNumber blockHash logs positions
                  (events @ [\<lparr>e_BlockNumber = blockNumber, e_BlockHash = blockHash,
                     e_TransactionHash = l_TxHash log, e_TransactionIndex = transactionIndex,
                     e_LogIndex = logIndex, e_Address = l_Address log, e_Topics = l_Topics log,
                     e_Data = append_empty (l_Data log)\<rparr>])
                  (insert logIndex seenLogIndexes))))"

definition log_index_less :: "Event \<Rightarrow> Event \<Rightarrow> bool" where
  "log_index_less left right \<longleftrightarrow> e_LogIndex left < e_LogIndex right"

definition mapEvents :: "u64 \<Rightarrow> hash \<Rightarrow> Log list \<Rightarrow> (hash \<rightharpoonup> u32) \<Rightarrow> err + Event list" where
  "mapEvents blockNumber blockHash logs transactionPositions =
     (case map_events blockNumber blockHash logs transactionPositions [] {} of
        Inl e \<Rightarrow> Inl e
      | Inr events \<Rightarrow> Inr (sort_Slice log_index_less events))"

definition FetchBlock :: "'w Fetcher \<Rightarrow> u64 \<Rightarrow> 'w \<Rightarrow> (err + BlockBundle) \<times> 'w" where
  "FetchBlock f number w =
     (case r_BlockByNumber (f_chain f) (Some (SetUint64 number)) w of
        (Inl e, w1) \<Rightarrow> (Inl (Errorf ''fetch block %d: %w'' [e]), w1)
      | (Inr None, w1) \<Rightarrow> (Inl (inconsistent ''%w: block %d response is nil''), w1)
      | (Inr (Some block), w1) \<Rightarrow>
          (case validateBlockNumber block number of
             Some e \<Rightarrow> (Inl e, w1)
           | None \<Rightarrow>
               (let blockHash = eb_Hash block in
                case mapTransactions f block of
                  Inl e \<Rightarrow> (Inl e, w1)
                | Inr (transactions, positions) \<Rightarrow>
                    (case r_LogsByBlockHash (f_chain f) blockHash w1 of
                       (Inl e, w2) \<Rightarrow> (Inl (Errorf ''fetch logs for block %d (%s): %w'' [e]), w2)
                     | (Inr logs, w2) \<Rightarrow>
                         (case mapEvents number blockHash logs positions of
                            Inl e \<Rightarrow> (Inl e, w2)
                          | Inr events \<Rightarrow>
                              (let (t, w3) = f_now f w2 in
                               (Inr \<lparr>bb_Block = \<lparr>b_Number = number, b_Hash = blockHash,
                                       b_ParentHash = eb_ParentHash block, b_Timestamp = eb_Time block,
                                       b_GasLimit = eb_GasLimit block, b_GasUsed = eb_GasUsed block,
                                       b_BaseFeePerGas = eb_BaseFee block,
                                       b_TransactionCount = int (length transactions),
                                       b_IndexedAt = Time_UTC t\<rparr>,
                                     bb_Transactions = transactions, bb_Events = events\<rparr>, w3)))))))"

end
