(* ===== verification/Ranger.thy ===== *)
theory Ranger
  imports Fetcher
begin

text \<open>
  \<open>FetchRange\<close> of \<open>internal/indexer/ranger.go\<close>: one producer goroutine hands jobs to a pool of
  worker goroutines over an unbuffered channel; the first error cancels the rest.

  The goroutines are a state and the events that change it; an event is what happens between two
  points where a goroutine may wait. Which enabled event comes next is not the program's choice:
  it is drawn from the environment, so a theorem about every environment is one about every
  interleaving. A receive and its send are one event, as the channel is unbuffered; a fetch is one
  event, as the node may answer each call in any way whatever came between. A state in which
  goroutines are left and no event is enabled is the deadlock that the Go runtime reports.
\<close>

section \<open>The pool\<close>

record fetchJob =
  j_index :: nat
  j_blockNumber :: u64

text \<open>A worker waits in its \<open>select\<close>, has a job in hand, or has returned.\<close>

datatype worker = Receiving | Fetching fetchJob | Stopped

record Pool =
  pl_next :: nat
  pl_producing :: bool
  pl_workers :: "worker list"
  pl_bundles :: "BlockBundle list"
  pl_errCh :: error
  pl_cancelled :: bool
  pl_parent :: ctx

datatype pool_event =
    Send nat
  | ProducerDone
  | ProducerCancelled
  | WorkerClosed nat
  | WorkerCancelled nat
  | Fetch nat
  | ParentDone ctx_error

text \<open>
  The environment: \<open>env_pick\<close> is the scheduler's choice, \<open>env_ctx\<close> what the caller's context
  answers, and \<open>env_timer\<close> what starting a timer of a duration does to the world.
\<close>

record 'w Env =
  env_pick :: "'w \<Rightarrow> nat \<times> 'w"
  env_ctx :: "'w \<Rightarrow> ctx \<times> 'w"
  env_timer :: "int \<Rightarrow> 'w \<Rightarrow> 'w"

definition worker_is :: "Pool \<Rightarrow> nat \<Rightarrow> worker \<Rightarrow> bool" where
  "worker_is p j x \<longleftrightarrow> j < length (pl_workers p) \<and> pl_workers p ! j = x"

definition worker_job :: "Pool \<Rightarrow> nat \<Rightarrow> fetchJob option" where
  "worker_job p j = (if j < length (pl_workers p)
     then (case pl_workers p ! j of Fetching job \<Rightarrow> Some job | _ \<Rightarrow> None) else None)"

fun pool_can :: "nat \<Rightarrow> Pool \<Rightarrow> pool_event \<Rightarrow> bool" where
  "pool_can blockCount p (Send j) =
     (pl_producing p \<and> pl_next p < blockCount \<and> worker_is p j Receiving)"
| "pool_can blockCount p ProducerDone = (pl_producing p \<and> \<not> pl_next p < blockCount)"
| "pool_can blockCount p ProducerCancelled =
     (pl_producing p \<and> pl_next p < blockCount \<and> pl_cancelled p)"
| "pool_can blockCount p (WorkerClosed j) = (\<not> pl_producing p \<and> worker_is p j Receiving)"
| "pool_can blockCount p (WorkerCancelled j) = (pl_cancelled p \<and> worker_is p j Receiving)"
| "pool_can blockCount p (Fetch j) = (worker_job p j \<noteq> None)"
| "pool_can blockCount p (ParentDone e) = (pl_parent p = None)"

text \<open>The producer closes \<open>jobs\<close> when it returns, on either way out.\<close>

fun pool_step :: "'w Fetcher \<Rightarrow> u64 \<Rightarrow> pool_event \<Rightarrow> Pool \<Rightarrow> 'w \<Rightarrow> Pool \<times> 'w" where
  "pool_step f from (Send j) p w =
     (p\<lparr>pl_next := Suc (pl_next p),
        pl_workers := (pl_workers p)[j := Fetching \<lparr>j_index = pl_next p,
          j_blockNumber = from + of_nat (pl_next p)\<rparr>]\<rparr>, w)"
| "pool_step f from ProducerDone p w = (p\<lparr>pl_producing := False\<rparr>, w)"
| "pool_step f from ProducerCancelled p w = (p\<lparr>pl_producing := False\<rparr>, w)"
| "pool_step f from (WorkerClosed j) p w = (p\<lparr>pl_workers := (pl_workers p)[j := Stopped]\<rparr>, w)"
| "pool_step f from (WorkerCancelled j) p w = (p\<lparr>pl_workers := (pl_workers p)[j := Stopped]\<rparr>, w)"
| "pool_step f from (Fetch j) p w =
     (case worker_job p j of
        None \<Rightarrow> (p, w)
      | Some job \<Rightarrow>
          (case FetchBlock f (j_blockNumber job) w of
             (Inl e, w') \<Rightarrow>
               (p\<lparr>pl_errCh := (case pl_errCh p of
                    None \<Rightarrow> Some (Errorf ''failed to fetch block %d: %w'' [e])
                  | Some first \<Rightarrow> Some first),
                  pl_cancelled := True,
                  pl_workers := (pl_workers p)[j := Stopped]\<rparr>, w')
           | (Inr block, w') \<Rightarrow>
               (p\<lparr>pl_bundles := (pl_bundles p)[j_index job := block],
                  pl_workers := (pl_workers p)[j := Receiving]\<rparr>, w')))"
| "pool_step f from (ParentDone e) p w = (p\<lparr>pl_parent := Some e, pl_cancelled := True\<rparr>, w)"

definition pool_events :: "ctx \<Rightarrow> Pool \<Rightarrow> pool_event list" where
  "pool_events c p =
     [ProducerDone, ProducerCancelled] @
     concat (map (\<lambda>j. [Send j, WorkerClosed j, WorkerCancelled j, Fetch j]) [0..<length (pl_workers p)]) @
     (case c of None \<Rightarrow> [] | Some e \<Rightarrow> [ParentDone e])"

definition pool_enabled :: "nat \<Rightarrow> ctx \<Rightarrow> Pool \<Rightarrow> pool_event list" where
  "pool_enabled blockCount c p = filter (pool_can blockCount p) (pool_events c p)"

text \<open>Both wait groups are down: \<open>pWg.Wait()\<close> and \<open>cWg.Wait()\<close> return.\<close>

definition pool_finished :: "Pool \<Rightarrow> bool" where
  "pool_finished p \<longleftrightarrow> \<not> pl_producing p \<and> list_all (\<lambda>x. x = Stopped) (pl_workers p)"

text \<open>Every event brings the pool closer to its end.\<close>

fun worker_weight :: "worker \<Rightarrow> nat" where
  "worker_weight Receiving = 1"
| "worker_weight (Fetching job) = 2"
| "worker_weight Stopped = 0"

definition pool_weight :: "nat \<Rightarrow> Pool \<Rightarrow> nat" where
  "pool_weight blockCount p =
     2 * (blockCount - pl_next p) + (if pl_producing p then 1 else 0) +
     sum_list (map worker_weight (pl_workers p)) + (if pl_parent p = None then 1 else 0)"

lemma weight_update:
  "j < length ws \<Longrightarrow> sum_list (map worker_weight (ws[j := x])) + worker_weight (ws ! j) =
     sum_list (map worker_weight ws) + worker_weight x"
proof (induction ws arbitrary: j)
  case (Cons y ws)
  then show ?case by (cases j) auto
qed simp

lemma pool_step_weight:
  "pool_can blockCount p ev \<Longrightarrow> pool_weight blockCount (fst (pool_step f from ev p w)) < pool_weight blockCount p"
proof (cases ev)
  case (Send j)
  assume "pool_can blockCount p ev"
  with Send weight_update [of j "pl_workers p" "Fetching \<lparr>j_index = pl_next p, j_blockNumber = from + of_nat (pl_next p)\<rparr>"]
  show ?thesis by (auto simp: pool_weight_def worker_is_def)
next
  case (Fetch j)
  assume "pool_can blockCount p ev"
  with Fetch obtain job where "worker_job p j = Some job" by auto
  moreover from this have "j < length (pl_workers p)" "pl_workers p ! j = Fetching job"
    by (auto simp: worker_job_def split: if_splits worker.splits)
  ultimately show ?thesis
    using Fetch weight_update [of j "pl_workers p" Stopped] weight_update [of j "pl_workers p" Receiving]
    by (auto simp: pool_weight_def split: prod.splits sum.splits)
next
  case (WorkerClosed j)
  assume "pool_can blockCount p ev"
  with WorkerClosed weight_update [of j "pl_workers p" Stopped]
  show ?thesis by (auto simp: pool_weight_def worker_is_def)
next
  case (WorkerCancelled j)
  assume "pool_can blockCount p ev"
  with WorkerCancelled weight_update [of j "pl_workers p" Stopped]
  show ?thesis by (auto simp: pool_weight_def worker_is_def)
qed (auto simp: pool_weight_def)

definition pool_pick :: "nat \<Rightarrow> 'a list \<Rightarrow> 'a" where
  "pool_pick k evs = evs ! (k mod length evs)"

lemma pool_pick_in: "evs \<noteq> [] \<Longrightarrow> pool_pick k evs \<in> set evs"
  by (simp add: pool_pick_def)

lemma pool_pick_can: "pool_enabled blockCount c p \<noteq> [] \<Longrightarrow> pool_can blockCount p (pool_pick k (pool_enabled blockCount c p))"
  using pool_pick_in [of "pool_enabled blockCount c p" k] by (simp add: pool_enabled_def)

lemma pool_pick_weight:
  assumes "evs = pool_enabled blockCount c p" and "evs \<noteq> []"
    and "r = pool_step f from (pool_pick k evs) p w" and "(p', w') = r"
  shows "pool_weight blockCount p' < pool_weight blockCount p"
  using pool_step_weight [OF pool_pick_can [of blockCount c p], of f "from" k w] assms
  by (metis fst_conv)

function run_pool :: "'w Env \<Rightarrow> 'w Fetcher \<Rightarrow> u64 \<Rightarrow> nat \<Rightarrow> Pool \<Rightarrow> 'w \<Rightarrow> Pool \<times> 'w" where
  "run_pool env f from blockCount p w =
     (if pool_finished p then (p, w)
      else
        (let (c, w1) = env_ctx env w; evs = pool_enabled blockCount c p in
         if evs = [] then (p, w1)
         else
           (let (k, w2) = env_pick env w1; (p', w3) = pool_step f from (pool_pick k evs) p w2
            in run_pool env f from blockCount p' w3)))"
  by pat_completeness auto
termination
proof (relation "measure (\<lambda>(env, f, from, blockCount, p, w). pool_weight blockCount p)", goal_cases)
  case (2 env f "from" blockCount p w x c w1 evs y k w2 z p' w3)
  show ?case using pool_pick_weight [OF 2(4,5,8,9)] by (simp only: in_measure case_prod_conv)
qed simp

declare run_pool.simps [simp del]

section \<open>FetchRange\<close>

fun validate_fetched :: "u64 \<Rightarrow> nat \<Rightarrow> BlockBundle option \<Rightarrow> BlockBundle list \<Rightarrow> error" where
  "validate_fetched from i previous [] = None"
| "validate_fetched from i previous (bundle # rest) =
     (let expectedBlockNum = from + of_nat i in
      if bb_Number bundle \<noteq> expectedBlockNum
      then Some (inconsistent ''indexer: %w: range position %d contains block %d, expected %d'')
      else if (case previous of None \<Rightarrow> False | Some p \<Rightarrow> bb_ParentHash bundle \<noteq> bb_Hash p)
      then Some (inconsistent ''%w: block %d parent %s does not match block %d hash %s'')
      else validate_fetched from (Suc i) (Some bundle) rest)"

definition validateFetchedBundles :: "BlockBundle list \<Rightarrow> u64 \<Rightarrow> error" where
  "validateFetchedBundles bundles from = validate_fetched from 0 None bundles"

definition deadlock :: err where
  "deadlock = Foreign ''all goroutines are asleep - deadlock!''"

definition new_pool :: "nat \<Rightarrow> nat \<Rightarrow> Pool" where
  "new_pool blockCount concurrency =
     \<lparr>pl_next = 0, pl_producing = True, pl_workers = replicate concurrency Receiving,
      pl_bundles = replicate blockCount zero_BlockBundle, pl_errCh = None, pl_cancelled = False,
      pl_parent = None\<rparr>"

text \<open>A context that was seen done stays done.\<close>

definition parent_err :: "'w Env \<Rightarrow> Pool \<Rightarrow> 'w \<Rightarrow> ctx \<times> 'w" where
  "parent_err env p w = (case pl_parent p of Some e \<Rightarrow> (Some e, w) | None \<Rightarrow> env_ctx env w)"

text \<open>The end of \<open>FetchRange\<close>, once both wait groups are down.\<close>

definition range_outcome :: "'w Env \<Rightarrow> u64 \<Rightarrow> Pool \<Rightarrow> 'w \<Rightarrow> (err + BlockBundle list) \<times> 'w" where
  "range_outcome env from p w =
     (case pl_errCh p of
        Some e \<Rightarrow> (Inl e, w)
      | None \<Rightarrow>
          (case parent_err env p w of
             (Some e, w') \<Rightarrow> (Inl (ctx_err e), w')
           | (None, w') \<Rightarrow>
               (case validateFetchedBundles (pl_bundles p) from of
                  Some e \<Rightarrow> (Inl e, w')
                | None \<Rightarrow> (Inr (pl_bundles p), w'))))"

definition FetchRange ::
  "'w Env \<Rightarrow> 'w Fetcher \<Rightarrow> u64 \<Rightarrow> u64 \<Rightarrow> int \<Rightarrow> 'w \<Rightarrow> (err + BlockBundle list) \<times> 'w" where
  "FetchRange env f from to concurrency w =
     (if from > to
      then (Inl (Errorf ''%w: from block %d exceeds to block %d'' [Sentinel ErrInvalidLowFetchRange]), w)
      else if uint (to - from) \<ge> MaxInt64
      then (Inl (Errorf ''%w: block range is too large'' [Sentinel ErrInvalidLargeFetchRange]), w)
      else
        (let blockCount = uint (to - from) + 1;
             atLeastOne = (if concurrency < 1 then 1 else concurrency);
             workers = (if atLeastOne > blockCount then blockCount else atLeastOne);
             (p, w1) = run_pool env f from (nat blockCount) (new_pool (nat blockCount) (nat workers)) w
         in if \<not> pool_finished p then (Inl deadlock, w1) else range_outcome env from p w1))"

end
