(* ===== verification/Syncer.thy ===== *)
theory Syncer
  imports Index_Store Ranger
begin

text \<open>
  The synchronizer of \<open>internal/indexer/syncer.go\<close>: one cycle reads the selected head, compares it
  with the stored tip, walks back to the common ancestor, fetches what is missing and applies it.

  The state is the store's, the world \<open>'w\<close> holds the node, the clock and the scheduler. Only
  \<open>ApplyCanonicalUpdate\<close> changes the store. \<open>Context\<close> is what a call meets: the caller's context
  and scheduler, and for each store call the environment it runs in. Dependencies that may be nil
  are options; using a nil one is the error \<open>nil_dereference\<close>.
\<close>

section \<open>Configuration and state\<close>

record Config =
  c_ChainID :: u64
  c_PollInterval :: int
  c_BlockWindow :: u64
  c_HeadMode :: HeadMode
  c_RPCTimeout :: int
  c_RPCConcurrency :: int
  c_RetryAttempts :: int
  c_RetryMinBackoff :: int
  c_RetryMaxBackoff :: int

datatype log_level = DebugLevel | InfoLevel | WarnLevel | ErrorLevel

datatype log_value = LUint64 u64 | LInt int | LStr string | LBool bool | LHash hash | LTime Time | LErr err | LDur int

record LogEntry =
  le_Level :: log_level
  le_Fields :: "(string \<times> log_value) list"
  le_Msg :: string

record ('x, 'w) Context =
  cx_env :: "'w Env"
  cx_call :: "'w \<Rightarrow> 'x \<times> 'w"

record ('x, 's, 'w) Syncer =
  y_geth :: Geth
  y_fetcher :: "'w Fetcher option"
  y_chain :: "'w Reader option"
  y_store :: "('x, 's) IndexStore option"
  y_config :: Config
  y_logger :: "LogEntry \<Rightarrow> 'w \<Rightarrow> 'w"
  y_now :: "'w \<Rightarrow> Time \<times> 'w"
  y_wait :: "('x, 'w) Context \<Rightarrow> int \<Rightarrow> 'w \<Rightarrow> error \<times> 'w"

text \<open>
  \<open>waitFor\<close> of \<open>runner.go\<close>: it starts a timer of the given duration; when the context is done by the
  time the timer fires, \<open>select\<close> may take either case.
\<close>

definition waitFor :: "('x, 'w) Context \<Rightarrow> int \<Rightarrow> 'w \<Rightarrow> error \<times> 'w" where
  "waitFor ctx duration w =
     (case env_ctx (cx_env ctx) (env_timer (cx_env ctx) duration w) of
        (None, w1) \<Rightarrow> (None, w1)
      | (Some e, w1) \<Rightarrow>
          (case env_pick (cx_env ctx) w1 of
             (k, w2) \<Rightarrow> (if even k then Some (ctx_err e) else None, w2)))"

definition NewSyncer ::
  "Geth \<Rightarrow> ('w \<Rightarrow> Time \<times> 'w) \<Rightarrow> 'w Fetcher option \<Rightarrow> 'w Reader option \<Rightarrow> ('x, 's) IndexStore option
   \<Rightarrow> Config \<Rightarrow> (LogEntry \<Rightarrow> 'w \<Rightarrow> 'w) \<Rightarrow> ('x, 's, 'w) Syncer" where
  "NewSyncer geth clock fetcher chain indexStore config logger =
     \<lparr>y_geth = geth, y_fetcher = fetcher, y_chain = chain, y_store = indexStore, y_config = config,
      y_logger = logger, y_now = clock, y_wait = waitFor\<rparr>"

section \<open>Results and plans\<close>

type_synonym SyncMode = string

definition SyncModeInitialLoad :: SyncMode where "SyncModeInitialLoad = ''initial_load''"
definition SyncModeCurrent :: SyncMode where "SyncModeCurrent = ''current''"
definition SyncModeAppend :: SyncMode where "SyncModeAppend = ''append''"
definition SyncModeFullReload :: SyncMode where "SyncModeFullReload = ''full_reload''"
definition SyncModeReorg :: SyncMode where "SyncModeReorg = ''reorg''"

record ReorgResult =
  rr_CommonAncestor :: "ChainTip option"
  rr_ReplacedFrom :: u64
  rr_ReplacedTo :: u64
  rr_ReplacedBlockCount :: u64

record SyncResult =
  sr_Head :: ChainTip
  sr_StoredTip :: "ChainTip option"
  sr_Mode :: SyncMode
  sr_FromBlock :: u64
  sr_ReplaceFrom :: u64
  sr_BlockCount :: int
  sr_TransactionCount :: int
  sr_EventCount :: int
  sr_SyncedAt :: Time
  sr_Reorg :: "ReorgResult option"

record replacementPlan =
  rp_From :: u64
  rp_Mode :: SyncMode
  rp_Reorg :: "ReorgResult option"

section \<open>Reading the chain and the store\<close>

definition windowStart :: "u64 \<Rightarrow> u64 \<Rightarrow> u64" where
  "windowStart head blockWindow = (if blockWindow - 1 > head then 0 else head - (blockWindow - 1))"

definition validHeaderNumber :: "Header \<Rightarrow> err + u64" where
  "validHeaderNumber head =
     (case h_Number head of
        None \<Rightarrow> Inl (inconsistent ''%w: selected head has invalid block number %s'')
      | Some number \<Rightarrow>
          if \<not> IsUint64 number
          then Inl (inconsistent ''%w: selected head has invalid block number %s'')
          else Inr (big_Uint64 number))"

definition head_selector :: "('x, 's, 'w) Syncer \<Rightarrow> int option" where
  "head_selector sy =
     (let mode = c_HeadMode (y_config sy) in
      if mode = HeadLatest then None
      else if mode = HeadSafe then Some (g_SafeBlockNumber (y_geth sy))
      else if mode = HeadFinalized then Some (g_FinalizedBlockNumber (y_geth sy))
      else None)"

definition selectedHead :: "('x, 's, 'w) Syncer \<Rightarrow> 'w \<Rightarrow> (err + Header) \<times> 'w" where
  "selectedHead sy w =
     (case y_chain sy of
        None \<Rightarrow> (Inl nil_dereference, w)
      | Some chain \<Rightarrow>
          (case r_HeaderByNumber chain (head_selector sy) w of
             (Inl e, w1) \<Rightarrow> (Inl (Errorf ''read %s head: %w'' [e]), w1)
           | (Inr None, w1) \<Rightarrow> (Inl (inconsistent ''%w: %s head is nil''), w1)
           | (Inr (Some head), w1) \<Rightarrow> (Inr head, w1)))"

definition chainHash :: "('x, 's, 'w) Syncer \<Rightarrow> u64 \<Rightarrow> u64 \<Rightarrow> hash \<Rightarrow> 'w \<Rightarrow> (err + hash) \<times> 'w" where
  "chainHash sy number headNumber headHash w =
     (if number = headNumber then (Inr headHash, w)
      else
        (case y_chain sy of
           None \<Rightarrow> (Inl nil_dereference, w)
         | Some chain \<Rightarrow>
             (case r_HeaderByNumber chain (Some (SetUint64 number)) w of
                (Inl e, w1) \<Rightarrow> (Inl (Errorf ''read canonical header %d: %w'' [e]), w1)
              | (Inr None, w1) \<Rightarrow> (Inl (inconsistent ''%w: canonical header %d is nil''), w1)
              | (Inr (Some head), w1) \<Rightarrow>
                  (case validHeaderNumber head of
                     Inl e \<Rightarrow> (Inl e, w1)
                   | Inr actualNumber \<Rightarrow>
                       if actualNumber \<noteq> number
                       then (Inl (inconsistent ''%w: requested header %d, received header %d''), w1)
                       else (Inr (h_Hash head), w1)))))"

definition storedHash ::
  "('x, 'w) Context \<Rightarrow> ('x, 's, 'w) Syncer \<Rightarrow> ChainTip \<Rightarrow> u64 \<Rightarrow> 's \<Rightarrow> 'w \<Rightarrow> (err + hash) \<times> 'w" where
  "storedHash ctx sy storedTip number s w =
     (if number = tip_Number storedTip then (Inr (tip_Hash storedTip), w)
      else
        (case y_store sy of
           None \<Rightarrow> (Inl nil_dereference, w)
         | Some st \<Rightarrow>
             (case cx_call ctx w of (x, w1) \<Rightarrow> (is_CanonicalHash st x number s, w1))))"

definition cloneChainTip :: "ChainTip option \<Rightarrow> ChainTip option" where
  "cloneChainTip tip = (case tip of None \<Rightarrow> None | Some t \<Rightarrow> Some t)"

section \<open>The common ancestor\<close>

text \<open>\<open>Inr None\<close> stands for \<open>found = false\<close>. The loop counts \<open>number\<close> down to \<open>retainFrom\<close>.\<close>

lemma countdown: "unat (n - 1 - lo) < unat (n - lo)" if "n \<noteq> lo" for n lo :: u64
proof -
  have "n - lo \<noteq> 0" using that by simp
  then have "unat (n - lo - 1) = unat (n - lo) - 1" "0 < unat (n - lo)"
    by (auto simp: unat_minus_one unat_gt_0)
  moreover have "n - 1 - lo = n - lo - 1" by simp
  ultimately show ?thesis by (metis diff_less zero_less_one)
qed

function commonAncestor_loop ::
  "('x, 'w) Context \<Rightarrow> ('x, 's, 'w) Syncer \<Rightarrow> ChainTip \<Rightarrow> u64 \<Rightarrow> hash \<Rightarrow> u64 \<Rightarrow> u64 \<Rightarrow> 's \<Rightarrow> 'w
   \<Rightarrow> (err + ChainTip option) \<times> 'w" where
  "commonAncestor_loop ctx sy storedTip headNumber headHash retainFrom number s w =
     (case storedHash ctx sy storedTip number s w of
        (Inl e, w1) \<Rightarrow>
          if errors_Is e ErrNotFound then (Inr None, w1)
          else (Inl (Errorf ''read stored canonical hash for block %d: %w'' [e]), w1)
      | (Inr stored, w1) \<Rightarrow>
          (case chainHash sy number headNumber headHash w1 of
             (Inl e, w2) \<Rightarrow> (Inl e, w2)
           | (Inr canonical, w2) \<Rightarrow>
               if stored = canonical then (Inr (Some \<lparr>tip_Number = number, tip_Hash = stored\<rparr>), w2)
               else if number = retainFrom then (Inr None, w2)
               else commonAncestor_loop ctx sy storedTip headNumber headHash retainFrom (number - 1) s w2))"
  by pat_completeness auto
termination
  by (relation "measure (\<lambda>(ctx, sy, storedTip, headNumber, headHash, retainFrom, number, s, w).
        unat (number - retainFrom))") (simp_all add: countdown)

declare commonAncestor_loop.simps [simp del]

definition commonAncestor ::
  "('x, 'w) Context \<Rightarrow> ('x, 's, 'w) Syncer \<Rightarrow> ChainTip \<Rightarrow> u64 \<Rightarrow> hash \<Rightarrow> u64 \<Rightarrow> 's \<Rightarrow> 'w
   \<Rightarrow> (err + ChainTip option) \<times> 'w" where
  "commonAncestor ctx sy storedTip headNumber headHash retainFrom s w =
     (let start = min (tip_Number storedTip) headNumber
      in commonAncestor_loop ctx sy storedTip headNumber headHash retainFrom start s w)"

definition past_maximum :: err where
  "past_maximum = inconsistent ''%w: cannot advance past maximum block number''"

definition replacementStart ::
  "('x, 'w) Context \<Rightarrow> ('x, 's, 'w) Syncer \<Rightarrow> ChainTip option \<Rightarrow> u64 \<Rightarrow> hash \<Rightarrow> u64 \<Rightarrow> 's \<Rightarrow> 'w
   \<Rightarrow> (err + replacementPlan) \<times> 'w" where
  "replacementStart ctx sy storedTip headNumber headHash retainFrom s w =
     (case storedTip of
        None \<Rightarrow> (Inr \<lparr>rp_From = retainFrom, rp_Mode = SyncModeInitialLoad, rp_Reorg = None\<rparr>, w)
      | Some tip \<Rightarrow>
          if tip_Number tip > headNumber \<or> tip_Number tip < retainFrom
          then (Inr \<lparr>rp_From = retainFrom, rp_Mode = SyncModeFullReload, rp_Reorg = None\<rparr>, w)
          else if tip_Number tip = headNumber \<and> tip_Hash tip = headHash
          then
            if headNumber = MaxUint64 then (Inl past_maximum, w)
            else (Inr \<lparr>rp_From = headNumber + 1, rp_Mode = SyncModeCurrent, rp_Reorg = None\<rparr>, w)
          else
            (case commonAncestor ctx sy tip headNumber headHash retainFrom s w of
               (Inl e, w1) \<Rightarrow> (Inl e, w1)
             | (Inr None, w1) \<Rightarrow>
                 (Inr \<lparr>rp_From = retainFrom, rp_Mode = SyncModeReorg,
                       rp_Reorg = Some \<lparr>rr_CommonAncestor = None, rr_ReplacedFrom = retainFrom,
                         rr_ReplacedTo = tip_Number tip,
                         rr_ReplacedBlockCount = tip_Number tip - retainFrom + 1\<rparr>\<rparr>, w1)
             | (Inr (Some ancestor), w1) \<Rightarrow>
                 if tip_Number ancestor = MaxUint64 then (Inl past_maximum, w1)
                 else if tip_Number ancestor = tip_Number tip
                 then (Inr \<lparr>rp_From = tip_Number ancestor + 1, rp_Mode = SyncModeAppend, rp_Reorg = None\<rparr>, w1)
                 else
                   (let replaceFrom = tip_Number ancestor + 1 in
                    (Inr \<lparr>rp_From = replaceFrom, rp_Mode = SyncModeReorg,
                          rp_Reorg = Some \<lparr>rr_CommonAncestor = cloneChainTip (Some ancestor),
                            rr_ReplacedFrom = replaceFrom, rr_ReplacedTo = tip_Number tip,
                            rr_ReplacedBlockCount = tip_Number tip - replaceFrom + 1\<rparr>\<rparr>, w1))))"

section \<open>One cycle\<close>

definition sync_config :: "string \<Rightarrow> err" where
  "sync_config msg = Errorf msg [Sentinel ErrInvalidSyncConfig]"

definition sync_dependency :: "string \<Rightarrow> err" where
  "sync_dependency msg = Errorf msg [Sentinel ErrInvalidSyncDependency]"

definition validateSyncOnceConfig :: "('x, 's, 'w) Syncer \<Rightarrow> error" where
  "validateSyncOnceConfig sy =
     (let config = y_config sy in
      case y_fetcher sy of
        None \<Rightarrow> Some (sync_dependency ''%w: fetcher is required'')
      | Some fetcher \<Rightarrow>
          if Option.is_none (y_chain sy) then Some (sync_dependency ''%w: chain reader is required'')
          else if Option.is_none (y_store sy) then Some (sync_dependency ''%w: index store is required'')
          else if c_ChainID config = 0
          then Some (sync_config ''%w: chain ID must be greater than zero'')
          else if (case f_chainID fetcher of
                     None \<Rightarrow> True
                   | Some i \<Rightarrow> \<not> IsUint64 i \<or> big_Uint64 i \<noteq> c_ChainID config)
          then Some (sync_dependency ''%w: fetcher chain ID does not match sync config'')
          else if c_BlockWindow config = 0 \<or> c_BlockWindow config > MaxBlockWindow
          then Some (sync_config ''%w: block window must be between 1 and %d'')
          else if c_RPCConcurrency config < 1
          then Some (sync_config ''%w: RPC concurrency must be greater than zero'')
          else if c_HeadMode config = HeadLatest \<or> c_HeadMode config = HeadSafe \<or>
                  c_HeadMode config = HeadFinalized
          then None
          else Some (sync_config ''%w: unsupported head mode %q''))"

definition storedTip_read ::
  "('x, 'w) Context \<Rightarrow> ('x, 's, 'w) Syncer \<Rightarrow> 's \<Rightarrow> 'w \<Rightarrow> (err + ChainTip option) \<times> 'w" where
  "storedTip_read ctx sy s w =
     (case y_store sy of
        None \<Rightarrow> (Inl nil_dereference, w)
      | Some st \<Rightarrow>
          (case cx_call ctx w of (x, w1) \<Rightarrow>
             (case is_CanonicalTip st x s of
                Inl e \<Rightarrow> (Inl (Errorf ''read stored canonical tip: %w'' [e]), w1)
              | Inr tip \<Rightarrow> (Inr tip, w1))))"

text \<open>The bundles to apply: none when nothing is missing, else the range, which must end in the head.\<close>

definition fetch_missing ::
  "('x, 'w) Context \<Rightarrow> ('x, 's, 'w) Syncer \<Rightarrow> u64 \<Rightarrow> u64 \<Rightarrow> hash \<Rightarrow> 'w \<Rightarrow> (err + BlockBundle list) \<times> 'w" where
  "fetch_missing ctx sy replaceFrom headNumber selectedHash w =
     (if replaceFrom \<le> headNumber
      then
        (case y_fetcher sy of
           None \<Rightarrow> (Inl nil_dereference, w)
         | Some fetcher \<Rightarrow>
             (case FetchRange (cx_env ctx) fetcher replaceFrom headNumber
                     (c_RPCConcurrency (y_config sy)) w of
                (Inl e, w1) \<Rightarrow> (Inl (Errorf ''fetch canonical range [%d,%d]: %w'' [e]), w1)
              | (Inr bundles, w1) \<Rightarrow>
                  if bundles = [] then (Inl (Foreign ''index out of range [-1]''), w1)
                  else if bb_Hash (last bundles) \<noteq> selectedHash
                  then (Inl (Errorf ''%w: block %d was %s and became %s'' [Sentinel ErrHeadChanged]), w1)
                  else (Inr bundles, w1)))
      else (Inr [], w))"

definition apply_update ::
  "('x, 'w) Context \<Rightarrow> ('x, 's, 'w) Syncer \<Rightarrow> CanonicalUpdate \<Rightarrow> 's \<Rightarrow> 'w \<Rightarrow> error \<times> 's \<times> 'w" where
  "apply_update ctx sy update s w =
     (case y_store sy of
        None \<Rightarrow> (Some nil_dereference, s, w)
      | Some st \<Rightarrow>
          (case cx_call ctx w of (x, w1) \<Rightarrow>
             (case is_ApplyCanonicalUpdate st x update s of
                (Some e, s') \<Rightarrow> (Some (Errorf ''apply canonical update from block %d: %w'' [e]), s', w1)
              | (None, s') \<Rightarrow> (None, s', w1))))"

definition sync_result ::
  "u64 \<Rightarrow> hash \<Rightarrow> ChainTip option \<Rightarrow> replacementPlan \<Rightarrow> u64 \<Rightarrow> BlockBundle list \<Rightarrow> Time \<Rightarrow> SyncResult" where
  "sync_result headNumber selectedHash storedTip plan retainFrom bundles syncedAt =
     \<lparr>sr_Head = \<lparr>tip_Number = headNumber, tip_Hash = selectedHash\<rparr>,
      sr_StoredTip = cloneChainTip storedTip, sr_Mode = rp_Mode plan, sr_FromBlock = retainFrom,
      sr_ReplaceFrom = rp_From plan, sr_BlockCount = int (length bundles),
      sr_TransactionCount = sum_list (map (\<lambda>b. int (length (bb_Transactions b))) bundles),
      sr_EventCount = sum_list (map (\<lambda>b. int (length (bb_Events b))) bundles),
      sr_SyncedAt = syncedAt, sr_Reorg = rp_Reorg plan\<rparr>"

definition SyncOnce ::
  "('x, 'w) Context \<Rightarrow> ('x, 's, 'w) Syncer \<Rightarrow> 's \<Rightarrow> 'w \<Rightarrow> (err + SyncResult) \<times> 's \<times> 'w" where
  "SyncOnce ctx sy s w =
     (case validateSyncOnceConfig sy of
        Some e \<Rightarrow> (Inl e, s, w)
      | None \<Rightarrow>
     (case selectedHead sy w of
        (Inl e, w1) \<Rightarrow> (Inl e, s, w1)
      | (Inr head, w1) \<Rightarrow>
     (case validHeaderNumber head of
        Inl e \<Rightarrow> (Inl e, s, w1)
      | Inr headNumber \<Rightarrow>
     (let retainFrom = windowStart headNumber (c_BlockWindow (y_config sy));
          selectedHash = h_Hash head in
      case storedTip_read ctx sy s w1 of
        (Inl e, w2) \<Rightarrow> (Inl e, s, w2)
      | (Inr storedTip, w2) \<Rightarrow>
     (case replacementStart ctx sy storedTip headNumber selectedHash retainFrom s w2 of
        (Inl e, w3) \<Rightarrow> (Inl e, s, w3)
      | (Inr plan, w3) \<Rightarrow>
     (case fetch_missing ctx sy (rp_From plan) headNumber selectedHash w3 of
        (Inl e, w4) \<Rightarrow> (Inl e, s, w4)
      | (Inr bundles, w4) \<Rightarrow>
     (case y_now sy w4 of
        (t, w5) \<Rightarrow>
     (let syncedAt = Time_UTC t in
      case apply_update ctx sy \<lparr>u_ChainID = c_ChainID (y_config sy), u_ReplaceFrom = rp_From plan,
             u_RetainFrom = retainFrom, u_Blocks = bundles, u_SyncedAt = syncedAt\<rparr> s w5 of
        (Some e, s', w6) \<Rightarrow> (Inl e, s', w6)
      | (None, s', w6) \<Rightarrow>
          (Inr (sync_result headNumber selectedHash storedTip plan retainFrom bundles syncedAt), s', w6)))))))))"

end
