(* ===== verification/Encoding.thy ===== *)
theory Encoding
  imports Prelude
begin

text \<open>
  The parts of Go's standard library that the HTTP layer and the PostgreSQL store encode values
  with: \<open>strconv.ParseUint\<close> and the decimal strings of \<open>math/big\<close>, \<open>encoding/binary.BigEndian\<close>, and
  \<open>base64.RawURLEncoding\<close>, with their round trips.
\<close>

section \<open>Decimal strings\<close>

definition is_digit :: "char \<Rightarrow> bool" where
  "is_digit c \<longleftrightarrow> 48 \<le> (of_char c :: nat) \<and> (of_char c :: nat) \<le> 57"

definition digit_value :: "char \<Rightarrow> nat" where
  "digit_value c = of_char c - 48"

definition digit_char :: "nat \<Rightarrow> char" where
  "digit_char d = char_of (48 + d)"

fun show_nat :: "nat \<Rightarrow> string" where
  "show_nat n = (if n < 10 then [digit_char n] else show_nat (n div 10) @ [digit_char (n mod 10)])"

declare show_nat.simps [simp del]

definition show_int :: "int \<Rightarrow> string" where
  "show_int i = (if i < 0 then CHR ''-'' # show_nat (nat (- i)) else show_nat (nat i))"

definition value_of :: "string \<Rightarrow> nat" where
  "value_of s = foldl (\<lambda>n c. n * 10 + digit_value c) 0 s"

definition ErrSyntax :: err where "ErrSyntax = Foreign ''invalid syntax''"
definition ErrRange :: err where "ErrRange = Foreign ''value out of range''"

text \<open>
  The loop of \<open>strconv.ParseUint(s, 10, 64)\<close>: \<open>cutoff\<close> is the smallest number whose product with
  the base overflows, and a sum that wraps around is smaller than its summand.
\<close>

definition cutoff :: u64 where
  "cutoff = MaxUint64 div 10 + 1"

fun parse_digits :: "u64 \<Rightarrow> string \<Rightarrow> err + u64" where
  "parse_digits n [] = Inr n"
| "parse_digits n (c # cs) =
     (if \<not> is_digit c then Inl ErrSyntax
      else if n \<ge> cutoff then Inl ErrRange
      else
        (let n1 = n * 10 + of_nat (digit_value c) in
         if n1 < n * 10 then Inl ErrRange else parse_digits n1 cs))"

definition ParseUint :: "string \<Rightarrow> err + u64" where
  "ParseUint s = (if s = [] then Inl ErrSyntax else parse_digits 0 s)"

lemma digit_char [simp]: "d < 10 \<Longrightarrow> is_digit (digit_char d)" "d < 10 \<Longrightarrow> digit_value (digit_char d) = d"
  by (simp_all add: is_digit_def digit_value_def digit_char_def)

lemma digit_value_less: "is_digit c \<Longrightarrow> digit_value c < 10"
  unfolding is_digit_def digit_value_def by linarith

lemma unat_byte: "unat (b :: u8) < 256"
  using unsigned_less [of b, where 'a = nat] by simp

lemma value_of_simps [simp]:
  "value_of [] = 0" "value_of (s @ [c]) = value_of s * 10 + digit_value c"
  by (simp_all add: value_of_def)

lemma show_nat_digits: "c \<in> set (show_nat n) \<Longrightarrow> is_digit c"
  by (induction n rule: show_nat.induct) (subst (asm) (2) show_nat.simps, auto split: if_splits)

lemma show_nat_nonempty [simp]: "show_nat n \<noteq> []"
  by (subst show_nat.simps) simp

lemma value_of_show_nat [simp]: "value_of (show_nat n) = n"
proof (induction n rule: show_nat.induct)
  case (1 n)
  show ?case
  proof (cases "n < 10")
    case True
    then show ?thesis using value_of_simps(2) [of "[]"] by (subst show_nat.simps) simp
  next
    case False
    with 1 show ?thesis by (subst show_nat.simps) simp
  qed
qed

lemma foldl_value:
  "foldl (\<lambda>n c. n * 10 + digit_value c) k s = k * 10 ^ length s + value_of s"
proof (induction s rule: rev_induct)
  case (snoc c s)
  then show ?case by (simp add: algebra_simps)
qed simp

lemma value_of_Cons: "value_of (c # cs) = digit_value c * 10 ^ length cs + value_of cs"
  using foldl_value [of "digit_value c" cs] by (simp add: value_of_def)

lemma unat_cutoff: "unat cutoff = 1844674407370955162"
proof -
  have d: "unat (MaxUint64 div 10) = 1844674407370955161"
    by (simp add: unat_div MaxUint64_def unsigned_minus_1_eq_mask mask_eq_exp_minus_1)
  moreover have "unat MaxUint64 = 18446744073709551615"
    by (simp add: MaxUint64_def unsigned_minus_1_eq_mask mask_eq_exp_minus_1)
  ultimately have "MaxUint64 div 10 \<noteq> MaxUint64" by auto
  then show ?thesis by (simp add: cutoff_def unat_Suc_u64 d)
qed

lemma cutoff_code [code]: "cutoff = 1844674407370955162"
  by (simp add: word_unat_eq_iff unat_cutoff)

text \<open>The loop in wrapping arithmetic finds the value, or that it does not fit.\<close>

lemma parse_digits_step:
  assumes "d < 10" and "n < cutoff"
  shows "unat (n * 10) = unat n * 10"
    and "n * 10 + of_nat d < n * 10 \<longleftrightarrow> 2 ^ 64 \<le> unat n * 10 + d"
    and "unat n * 10 + d < 2 ^ 64 \<Longrightarrow> unat (n * 10 + of_nat d) = unat n * 10 + d"
proof -
  have n: "unat n < 1844674407370955162" using assms(2) unat_cutoff by (simp add: word_less_nat_alt)
  then have "unat n * unat (10 :: u64) < 2 ^ LENGTH(64)" by simp
  then show ten: "unat (n * 10) = unat n * 10" by (subst unat_mult_lem [THEN iffD1]) simp_all
  have d: "unat (of_nat d :: u64) = d" using assms(1) by (simp add: unat_of_nat)
  show "n * 10 + of_nat d < n * 10 \<longleftrightarrow> 2 ^ 64 \<le> unat n * 10 + d"
    using no_olen_add_nat [of "n * 10" "of_nat d"] by (simp add: ten d) (metis not_le)
  show "unat n * 10 + d < 2 ^ 64 \<Longrightarrow> unat (n * 10 + of_nat d) = unat n * 10 + d"
    using unat_add_lem [of "n * 10" "of_nat d"] by (simp add: ten d)
qed

lemma parse_digits_iff:
  "parse_digits n s = Inr k \<longleftrightarrow> list_all is_digit s \<and> unat k = unat n * 10 ^ length s + value_of s"
proof (induction n s rule: parse_digits.induct)
  case (1 n)
  then show ?case by (auto simp: word_unat_eq_iff)
next
  case (2 n c cs)
  show ?case
  proof (cases "is_digit c")
    case digit: True
    let ?d = "digit_value c"
    have d: "?d < 10" by (rule digit_value_less [OF digit])
    have big: "2 ^ 64 \<le> unat n * 10 + ?d \<Longrightarrow> unat k \<noteq> unat n * 10 ^ length (c # cs) + value_of (c # cs)"
    proof -
      assume "2 ^ 64 \<le> unat n * 10 + ?d"
      moreover have "unat n * 10 + ?d \<le> (unat n * 10 + ?d) * 10 ^ length cs" by simp
      ultimately have "2 ^ 64 \<le> (unat n * 10 + ?d) * 10 ^ length cs" by (rule order.trans)
      moreover have "unat n * 10 ^ length (c # cs) + value_of (c # cs) = (unat n * 10 + ?d) * 10 ^ length cs + value_of cs"
        by (simp add: value_of_Cons algebra_simps)
      moreover have "unat k < 2 ^ 64" using unsigned_less [of k, where 'a = nat] by simp
      ultimately show ?thesis by (metis leD trans_le_add1)
    qed
    show ?thesis
    proof (cases "n < cutoff")
      case True
      note step = parse_digits_step [OF d True]
      show ?thesis
      proof (cases "2 ^ 64 \<le> unat n * 10 + ?d")
        case False
        with step 2 digit True show ?thesis by (auto simp: Let_def not_le value_of_Cons algebra_simps)
      next
        case over: True
        with step digit True big show ?thesis by (simp add: Let_def)
      qed
    next
      case False
      then have "2 ^ 64 \<le> unat n * 10 + ?d" using unat_cutoff by (simp add: word_less_nat_alt)
      with big digit False show ?thesis by auto
    qed
  qed simp
qed

lemma ParseUint_iff:
  "ParseUint s = Inr k \<longleftrightarrow> s \<noteq> [] \<and> list_all is_digit s \<and> value_of s = unat k"
  by (auto simp: ParseUint_def parse_digits_iff)

lemma ParseUint_show: "ParseUint (show_nat (unat k)) = Inr k"
  by (simp add: ParseUint_iff list_all_iff show_nat_digits)

section \<open>Big-endian bytes\<close>

fun nat_bytes :: "nat \<Rightarrow> nat \<Rightarrow> bytes" where
  "nat_bytes 0 n = []"
| "nat_bytes (Suc k) n = nat_bytes k (n div 256) @ [of_nat n]"

definition be_nat :: "bytes \<Rightarrow> nat" where
  "be_nat bs = foldl (\<lambda>n b. n * 256 + unat b) 0 bs"

definition be_bytes :: "nat \<Rightarrow> 'a::len word \<Rightarrow> bytes" where
  "be_bytes k w = nat_bytes k (unat w)"

definition be_word :: "bytes \<Rightarrow> 'a::len word" where
  "be_word bs = of_nat (be_nat bs)"

lemma length_nat_bytes [simp]: "length (nat_bytes k n) = k"
  by (induction k arbitrary: n) auto

lemma length_be_bytes [simp]: "length (be_bytes k w) = k"
  by (simp add: be_bytes_def)

lemma be_nat_snoc [simp]: "be_nat [] = 0" "be_nat (bs @ [b]) = be_nat bs * 256 + unat b"
  by (simp_all add: be_nat_def)

lemma be_nat_less: "be_nat bs < 256 ^ length bs"
proof (induction bs rule: rev_induct)
  case (snoc b bs)
  with unat_byte [of b] show ?case by simp
qed simp

lemma be_nat_bytes: "be_nat (nat_bytes k n) = n mod 256 ^ k"
proof (induction k arbitrary: n)
  case (Suc k)
  have "unat (of_nat n :: u8) = n mod 256" by (simp add: unat_of_nat)
  moreover have "n mod (256 * 256 ^ k) = 256 * (n div 256 mod 256 ^ k) + n mod 256" by (rule mod_mult2_eq)
  ultimately show ?case using Suc by simp
qed simp

lemma nat_bytes_be: "nat_bytes (length bs) (be_nat bs) = bs"
proof (induction bs rule: rev_induct)
  case (snoc b bs)
  have "(be_nat bs * 256 + unat b) div 256 = be_nat bs" using unat_byte [of b] by simp
  moreover have "of_nat (be_nat bs * 256 + unat b) = b"
  proof -
    have "(of_nat (be_nat bs * 256 + unat b) :: u8) = of_nat (be_nat bs) * 256 + b" by simp
    also have "(256 :: u8) = 0" by simp
    finally show ?thesis by simp
  qed
  ultimately show ?case using snoc by simp
qed simp

lemma be_word_bytes: "LENGTH('a::len) \<le> 8 * k \<Longrightarrow> be_word (be_bytes k w) = (w :: 'a word)"
proof -
  assume "LENGTH('a) \<le> 8 * k"
  then have "(2 :: nat) ^ LENGTH('a) \<le> 2 ^ (8 * k)" by (rule power_increasing) simp
  then have "(2 :: nat) ^ LENGTH('a) \<le> 256 ^ k" by (simp add: power_mult)
  then have "unat w < 256 ^ k" by (rule order.strict_trans2 [OF unsigned_less])
  then show ?thesis by (simp add: be_word_def be_bytes_def be_nat_bytes)
qed

lemma be_bytes_word: "8 * length bs \<le> LENGTH('a::len) \<Longrightarrow> be_bytes (length bs) (be_word bs :: 'a word) = bs"
proof -
  assume "8 * length bs \<le> LENGTH('a)"
  then have "(2 :: nat) ^ (8 * length bs) \<le> 2 ^ LENGTH('a)" by (rule power_increasing) simp
  then have "be_nat bs < 2 ^ LENGTH('a)" using be_nat_less [of bs] by (simp add: power_mult)
  then have "unat (be_word bs :: 'a word) = be_nat bs" by (simp add: be_word_def unat_of_nat)
  then show ?thesis by (simp add: be_bytes_def nat_bytes_be)
qed

section \<open>base64.RawURLEncoding\<close>

definition alphabet :: string where
  "alphabet = ''ABCDEFGHIJKLMNOPQRSTUVWXYZabcdefghijklmnopqrstuvwxyz0123456789-_''"

definition b64_char :: "nat \<Rightarrow> char" where
  "b64_char i = alphabet ! i"

fun b64_index :: "string \<Rightarrow> char \<Rightarrow> nat option" where
  "b64_index [] c = None"
| "b64_index (x # xs) c = (if x = c then Some 0 else map_option Suc (b64_index xs c))"

text \<open>\<open>EncodeToString\<close>: three bytes become four characters; there is no padding.\<close>

fun b64_encode :: "bytes \<Rightarrow> string" where
  "b64_encode [] = []"
| "b64_encode [a] = [b64_char (unat a div 4), b64_char (unat a mod 4 * 16)]"
| "b64_encode [a, b] =
     [b64_char (unat a div 4), b64_char (unat a mod 4 * 16 + unat b div 16), b64_char (unat b mod 16 * 4)]"
| "b64_encode (a # b # c # rest) =
     b64_char (unat a div 4) # b64_char (unat a mod 4 * 16 + unat b div 16) #
     b64_char (unat b mod 16 * 4 + unat c div 64) # b64_char (unat c mod 64) # b64_encode rest"

text \<open>
  \<open>DecodeString\<close>: newlines are skipped, a group of one character is an error, and the bits that
  do not fill a byte are dropped.
\<close>

fun b64_groups :: "nat list \<Rightarrow> bytes option" where
  "b64_groups [] = Some []"
| "b64_groups [i] = None"
| "b64_groups [i, j] = Some [of_nat (i * 4 + j div 16)]"
| "b64_groups [i, j, k] = Some [of_nat (i * 4 + j div 16), of_nat (j mod 16 * 16 + k div 4)]"
| "b64_groups (i # j # k # l # rest) =
     map_option (\<lambda>bs. of_nat (i * 4 + j div 16) # of_nat (j mod 16 * 16 + k div 4) # of_nat (k mod 4 * 64 + l) # bs)
       (b64_groups rest)"

definition b64_decode :: "string \<Rightarrow> bytes option" where
  "b64_decode s =
     Option.bind (those (map (b64_index alphabet) (filter (\<lambda>c. c \<noteq> CHR 0x0A \<and> c \<noteq> CHR 0x0D) s))) b64_groups"

lemma b64_index_nth: "distinct xs \<Longrightarrow> i < length xs \<Longrightarrow> b64_index xs (xs ! i) = Some i"
proof (induction xs arbitrary: i)
  case (Cons x xs)
  then show ?case by (cases i) (auto simp: nth_mem)
qed simp

lemma alphabet_facts: "distinct alphabet" "length alphabet = 64" "CHR 0x0A \<notin> set alphabet" "CHR 0x0D \<notin> set alphabet"
  by code_simp+

lemma b64_char_index: "i < 64 \<Longrightarrow> b64_index alphabet (b64_char i) = Some i"
  using b64_index_nth [OF alphabet_facts(1)] by (simp add: b64_char_def alphabet_facts(2))

lemma b64_char_printable: "i < 64 \<Longrightarrow> b64_char i \<noteq> CHR 0x0A \<and> b64_char i \<noteq> CHR 0x0D"
  unfolding b64_char_def using alphabet_facts by (metis nth_mem)

fun b64_sextets :: "bytes \<Rightarrow> nat list" where
  "b64_sextets [] = []"
| "b64_sextets [a] = [unat a div 4, unat a mod 4 * 16]"
| "b64_sextets [a, b] = [unat a div 4, unat a mod 4 * 16 + unat b div 16, unat b mod 16 * 4]"
| "b64_sextets (a # b # c # rest) =
     unat a div 4 # (unat a mod 4 * 16 + unat b div 16) # (unat b mod 16 * 4 + unat c div 64) # unat c mod 64 #
     b64_sextets rest"

lemma b64_encode_sextets: "b64_encode bs = map b64_char (b64_sextets bs)"
  by (induction bs rule: b64_encode.induct) simp_all

lemma sextet_bounds:
  fixes a b c :: u8
  shows "unat a div 4 < 64" "unat a mod 4 * 16 < 64" "unat a mod 4 * 16 + unat b div 16 < 64"
    "unat b mod 16 * 4 < 64" "unat b mod 16 * 4 + unat c div 64 < 64" "unat c mod 64 < 64"
  using unat_byte [of a] unat_byte [of b] unat_byte [of c] by linarith+

lemma b64_sextets_less: "i \<in> set (b64_sextets bs) \<Longrightarrow> i < 64"
  by (induction bs rule: b64_sextets.induct) (auto simp: sextet_bounds)

lemma byte_parts:
  fixes a b c :: u8
  shows "of_nat (unat a div 4 * 4 + unat a mod 4 * 16 div 16) = a"
    and "of_nat (unat a div 4 * 4 + (unat a mod 4 * 16 + unat b div 16) div 16) = a"
    and "of_nat ((unat a mod 4 * 16 + unat b div 16) mod 16 * 16 + unat b mod 16 * 4 div 4) = b"
    and "of_nat ((unat a mod 4 * 16 + unat b div 16) mod 16 * 16 + (unat b mod 16 * 4 + unat c div 64) div 4) = b"
    and "of_nat ((unat b mod 16 * 4 + unat c div 64) mod 4 * 64 + unat c mod 64) = c"
proof -
  have digits: "(m * 16 + unat b div 16) div 16 = m" "(m * 16 + unat b div 16) mod 16 = unat b div 16"
    "(m * 4 + unat c div 64) div 4 = m" "(m * 4 + unat c div 64) mod 4 = unat c div 64" for m
    using unat_byte [of b] unat_byte [of c] by (simp_all add: less_mult_imp_div_less)
  have "unat a div 4 * 4 + unat a mod 4 * 16 div 16 = unat a"
    "unat a div 4 * 4 + (unat a mod 4 * 16 + unat b div 16) div 16 = unat a"
    "(unat a mod 4 * 16 + unat b div 16) mod 16 * 16 + unat b mod 16 * 4 div 4 = unat b"
    "(unat a mod 4 * 16 + unat b div 16) mod 16 * 16 + (unat b mod 16 * 4 + unat c div 64) div 4 = unat b"
    "(unat b mod 16 * 4 + unat c div 64) mod 4 * 64 + unat c mod 64 = unat c"
    using unat_byte [of b] unat_byte [of c] by (simp_all add: digits less_mult_imp_div_less)
  then show "of_nat (unat a div 4 * 4 + unat a mod 4 * 16 div 16) = a"
    and "of_nat (unat a div 4 * 4 + (unat a mod 4 * 16 + unat b div 16) div 16) = a"
    and "of_nat ((unat a mod 4 * 16 + unat b div 16) mod 16 * 16 + unat b mod 16 * 4 div 4) = b"
    and "of_nat ((unat a mod 4 * 16 + unat b div 16) mod 16 * 16 + (unat b mod 16 * 4 + unat c div 64) div 4) = b"
    and "of_nat ((unat b mod 16 * 4 + unat c div 64) mod 4 * 64 + unat c mod 64) = c"
    by (simp_all only: of_nat_unat ucast_id)
qed

lemma b64_groups_sextets: "b64_groups (b64_sextets bs) = Some bs"
  by (induction bs rule: b64_sextets.induct) (simp_all only: b64_sextets.simps b64_groups.simps byte_parts option.map)

lemma those_map_Some: "(\<And>x. x \<in> set xs \<Longrightarrow> f x = Some (g x)) \<Longrightarrow> those (map f xs) = Some (map g xs)"
  by (induction xs) auto

lemma b64_roundtrip: "b64_decode (b64_encode bs) = Some bs"
proof -
  let ?is = "b64_sextets bs"
  have "filter (\<lambda>c. c \<noteq> CHR 0x0A \<and> c \<noteq> CHR 0x0D) (map b64_char ?is) = map b64_char ?is"
    using b64_char_printable b64_sextets_less by (auto simp: filter_id_conv)
  moreover have "those (map (b64_index alphabet) (map b64_char ?is)) = Some ?is"
    using those_map_Some [of ?is "b64_index alphabet \<circ> b64_char" id] b64_char_index b64_sextets_less by simp
  ultimately show ?thesis by (simp add: b64_decode_def b64_encode_sextets b64_groups_sextets)
qed

end
