(* ===== verification/Client.thy ===== *)
theory Client
  imports Syncer Encoding
begin

text \<open>
  The Ethereum adapter of \<open>internal/ethereum\<close>: a client that puts a timeout on every JSON-RPC call,
  checks the chain ID and is what the indexer sees as \<open>Reader\<close>. The go-ethereum client behind it is a
  parameter, the record \<open>rpcClient\<close>; the first argument of its methods is the timeout of the
  context the call runs in. \<open>strings.TrimSpace\<close> is modelled on the bytes of UTF-8 text.
\<close>

section \<open>strings.TrimSpace\<close>

text \<open>The UTF-8 encodings of the white space of \<open>unicode.IsSpace\<close>.\<close>

definition white_space :: "string list" where
  "white_space =
     [[CHR 0x09], [CHR 0x0A], [CHR 0x0B], [CHR 0x0C], [CHR 0x0D], [CHR 0x20], [CHR 0xC2, CHR 0x85],
      [CHR 0xC2, CHR 0xA0], [CHR 0xE1, CHR 0x9A, CHR 0x80], [CHR 0xE2, CHR 0x80, CHR 0x80],
      [CHR 0xE2, CHR 0x80, CHR 0x81], [CHR 0xE2, CHR 0x80, CHR 0x82],
      [CHR 0xE2, CHR 0x80, CHR 0x83], [CHR 0xE2, CHR 0x80, CHR 0x84],
      [CHR 0xE2, CHR 0x80, CHR 0x85], [CHR 0xE2, CHR 0x80, CHR 0x86],
      [CHR 0xE2, CHR 0x80, CHR 0x87], [CHR 0xE2, CHR 0x80, CHR 0x88],
      [CHR 0xE2, CHR 0x80, CHR 0x89], [CHR 0xE2, CHR 0x80, CHR 0x8A],
      [CHR 0xE2, CHR 0x80, CHR 0xA8], [CHR 0xE2, CHR 0x80, CHR 0xA9],
      [CHR 0xE2, CHR 0x80, CHR 0xAF], [CHR 0xE2, CHR 0x81, CHR 0x9F],
      [CHR 0xE3, CHR 0x80, CHR 0x80]]"

definition starting_space :: "string list \<Rightarrow> string \<Rightarrow> nat" where
  "starting_space spaces s = (case find (\<lambda>p. p \<noteq> [] \<and> take (length p) s = p) spaces of None \<Rightarrow> 0 | Some p \<Rightarrow> length p)"

function trim_left :: "string list \<Rightarrow> string \<Rightarrow> string" where
  "trim_left spaces s =
     (if starting_space spaces s = 0 \<or> s = [] then s else trim_left spaces (drop (starting_space spaces s) s))"
  by pat_completeness auto
termination
  by (relation "measure (\<lambda>(spaces, s). length s)") auto

declare trim_left.simps [simp del]

definition TrimSpace :: "string \<Rightarrow> string" where
  "TrimSpace s = rev (trim_left (map rev white_space) (rev (trim_left white_space s)))"

section \<open>client.go\<close>

record FilterQuery =
  fq_BlockHash :: "hash option"
  fq_FromBlock :: "int option"
  fq_ToBlock :: "int option"
  fq_Addresses :: "address list"
  fq_Topics :: "hash list list"

record 'w rpcClient =
  rpc_ChainID :: "int \<Rightarrow> 'w \<Rightarrow> (err + int option) \<times> 'w"
  rpc_BlockNumber :: "int \<Rightarrow> 'w \<Rightarrow> (err + u64) \<times> 'w"
  rpc_BlockByNumber :: "int \<Rightarrow> int option \<Rightarrow> 'w \<Rightarrow> (err + EthBlock option) \<times> 'w"
  rpc_HeaderByNumber :: "int \<Rightarrow> int option \<Rightarrow> 'w \<Rightarrow> (err + Header option) \<times> 'w"
  rpc_FilterLogs :: "int \<Rightarrow> FilterQuery \<Rightarrow> 'w \<Rightarrow> (err + Log list) \<times> 'w"
  rpc_Close :: "'w \<Rightarrow> 'w"

record 'w Client =
  cl_rpc :: "'w rpcClient"
  cl_timeout :: int

definition newClient :: "'w rpcClient \<Rightarrow> int \<Rightarrow> 'w Client" where
  "newClient rpc timeout = \<lparr>cl_rpc = rpc, cl_timeout = timeout\<rparr>"

definition callContext :: "'w Client \<Rightarrow> int" where
  "callContext c = cl_timeout c"

definition Client_ChainID :: "'w Client \<Rightarrow> 'w \<Rightarrow> (err + int option) \<times> 'w" where
  "Client_ChainID c w = rpc_ChainID (cl_rpc c) (callContext c) w"

definition ValidateChainID :: "'w Client \<Rightarrow> u64 \<Rightarrow> 'w \<Rightarrow> error \<times> 'w" where
  "ValidateChainID c expected w =
     (case Client_ChainID c w of
        (Inl e, w1) \<Rightarrow> (Some (Errorf ''read chain ID: %w'' [e]), w1)
      | (Inr actual, w1) \<Rightarrow>
          if (case actual of None \<Rightarrow> True | Some i \<Rightarrow> \<not> IsUint64 i \<or> big_Uint64 i \<noteq> expected)
          then (Some (Errorf ''%w: expected %d, got %s'' [Sentinel ErrUnexpectedChainID]), w1)
          else (None, w1))"

definition Client_BlockNumber :: "'w Client \<Rightarrow> 'w \<Rightarrow> (err + u64) \<times> 'w" where
  "Client_BlockNumber c w = rpc_BlockNumber (cl_rpc c) (callContext c) w"

definition Client_BlockByNumber :: "'w Client \<Rightarrow> int option \<Rightarrow> 'w \<Rightarrow> (err + EthBlock option) \<times> 'w" where
  "Client_BlockByNumber c number w = rpc_BlockByNumber (cl_rpc c) (callContext c) number w"

definition Client_HeaderByNumber :: "'w Client \<Rightarrow> int option \<Rightarrow> 'w \<Rightarrow> (err + Header option) \<times> 'w" where
  "Client_HeaderByNumber c number w = rpc_HeaderByNumber (cl_rpc c) (callContext c) number w"

definition Client_LogsByBlockHash :: "'w Client \<Rightarrow> hash \<Rightarrow> 'w \<Rightarrow> (err + Log list) \<times> 'w" where
  "Client_LogsByBlockHash c h w =
     rpc_FilterLogs (cl_rpc c) (callContext c)
       \<lparr>fq_BlockHash = Some h, fq_FromBlock = None, fq_ToBlock = None, fq_Addresses = [], fq_Topics = []\<rparr> w"

definition Client_Close :: "'w Client \<Rightarrow> 'w \<Rightarrow> 'w" where
  "Client_Close c w = rpc_Close (cl_rpc c) w"

text \<open>The client as the \<open>Reader\<close> the indexer is given.\<close>

definition client_reader :: "'w Client \<Rightarrow> 'w Reader" where
  "client_reader c = \<lparr>r_ChainID = Client_ChainID c, r_BlockNumber = Client_BlockNumber c,
     r_BlockByNumber = Client_BlockByNumber c, r_HeaderByNumber = Client_HeaderByNumber c,
     r_LogsByBlockHash = Client_LogsByBlockHash c\<rparr>"

section \<open>geth.go\<close>

text \<open>\<open>dial\<close> is \<open>ethclient.DialContext\<close> under a timeout.\<close>

definition Dial :: "(int \<Rightarrow> string \<Rightarrow> 'w \<Rightarrow> (err + 'w rpcClient) \<times> 'w) \<Rightarrow> string \<Rightarrow> int \<Rightarrow> 'w \<Rightarrow> (err + 'w Client) \<times> 'w" where
  "Dial dial rpcURL rpcTimeout w =
     (if TrimSpace rpcURL = '''' then (Inl (Foreign ''ethereum: RPC URL is required''), w)
      else if rpcTimeout \<le> 0 then (Inl (Foreign ''ethereum: RPC timeout must be greater than zero''), w)
      else
        (case dial rpcTimeout rpcURL w of
           (Inl e, w1) \<Rightarrow> (Inl (Errorf ''dial ethereum RPC: %w'' [e]), w1)
         | (Inr rpc, w1) \<Rightarrow> (Inr (newClient rpc rpcTimeout), w1)))"

section \<open>Properties\<close>

text \<open>
  The chain ID is checked as an integer, not after a conversion. When the node answers,
  \<open>ValidateChainID\<close> accepts exactly the expected ID; every other answer, also none and one that
  agrees only modulo 2^64, is reported as \<open>ErrUnexpectedChainID\<close>.
\<close>

lemma chain_id_exact:
  assumes "rpc_ChainID (cl_rpc c) (cl_timeout c) w = (Inr actual, w')"
  shows "(ValidateChainID c expected w = (None, w') \<longleftrightarrow> actual = Some (uint expected)) \<and>
    (\<forall>e w''. ValidateChainID c expected w = (Some e, w'') \<longrightarrow> errors_Is e ErrUnexpectedChainID)"
proof -
  have "big_Uint64 i = expected \<longleftrightarrow> i = uint expected" if "IsUint64 i" for i
    using that by (auto simp: IsUint64_def big_Uint64_def) (simp add: uint_word_of_int take_bit_int_eq_self)
  moreover have "IsUint64 (uint expected)" using unsigned_less [of expected, where 'a = int] by (simp add: IsUint64_def)
  ultimately show ?thesis
    using assms by (auto simp: ValidateChainID_def Client_ChainID_def callContext_def split: option.splits)
qed

end
