(* ===== verification/App_Config.thy ===== *)
theory App_Config
  imports Client
begin

text \<open>
  The configuration of \<open>internal/config\<close>: defaults, the overrides from the environment, validation and
  loading. A \<open>Duration\<close> is its number of nanoseconds. Reading the file and decoding YAML, and
  \<open>url.ParseRequestURI\<close>, are parameters: the decoder is given the defaults and returns one
  configuration and what follows the first document; the URL parser returns scheme and host.
\<close>

section \<open>Records\<close>

record App =
  ap_Environment :: string
  ap_LogLevel :: string

record HTTP =
  ht_Address :: string
  ht_RequestTimeout :: int
  ht_ReadHeaderTimeout :: int
  ht_IdleTimeout :: int
  ht_ShutdownTimeout :: int

record Ethereum =
  et_RPCURL :: string
  et_ChainID :: u64
  et_RPCTimeout :: int
  et_RPCConcurrency :: int

record Indexer =
  ix_PollInterval :: int
  ix_BlockWindow :: u64
  ix_HeadMode :: HeadMode
  ix_RetryAttempts :: int
  ix_RetryMinBackoff :: int
  ix_RetryMaxBackoff :: int

record Database =
  db_URL :: string
  db_MaxConnections :: int
  db_MinConnections :: int
  db_ConnectTimeout :: int

record AppConfig =
  cfg_App :: App
  cfg_HTTP :: HTTP
  cfg_Ethereum :: Ethereum
  cfg_Indexer :: Indexer
  cfg_Database :: Database

abbreviation Second :: int where "Second \<equiv> 1000000000"

text \<open>A scalar node holds a duration's text; \<open>parse\<close> is \<open>time.ParseDuration\<close>, \<open>print\<close> its \<open>String\<close>.\<close>

datatype yaml_node = ScalarNode string | OtherNode

definition UnmarshalYAML :: "(string \<Rightarrow> err + int) \<Rightarrow> yaml_node \<Rightarrow> err + int" where
  "UnmarshalYAML parse node =
     (case node of
        OtherNode \<Rightarrow> Inl (Foreign ''duration must be a string'')
      | ScalarNode v \<Rightarrow>
          (case parse v of
             Inl e \<Rightarrow> Inl (Errorf ''parse duration %q: %w'' [e])
           | Inr parsed \<Rightarrow> Inr parsed))"

definition MarshalYAML :: "(int \<Rightarrow> string) \<Rightarrow> int \<Rightarrow> string" where
  "MarshalYAML print d = print d"

definition Default :: AppConfig where
  "Default =
     \<lparr>cfg_App = \<lparr>ap_Environment = ''development'', ap_LogLevel = ''info''\<rparr>,
      cfg_HTTP = \<lparr>ht_Address = '':8080'', ht_RequestTimeout = 5 * Second, ht_ReadHeaderTimeout = 5 * Second,
        ht_IdleTimeout = 60 * Second, ht_ShutdownTimeout = 15 * Second\<rparr>,
      cfg_Ethereum = \<lparr>et_RPCURL = '''', et_ChainID = 1, et_RPCTimeout = 30 * Second, et_RPCConcurrency = 4\<rparr>,
      cfg_Indexer = \<lparr>ix_PollInterval = 4 * Second, ix_BlockWindow = 50, ix_HeadMode = HeadLatest,
        ix_RetryAttempts = 3, ix_RetryMinBackoff = Second, ix_RetryMaxBackoff = 10 * Second\<rparr>,
      cfg_Database = \<lparr>db_URL = '''', db_MaxConnections = 12, db_MinConnections = 2,
        db_ConnectTimeout = 10 * Second\<rparr>\<rparr>"

section \<open>Validation\<close>

record URL =
  url_Scheme :: string
  url_Host :: string

definition positiveDuration :: "string \<Rightarrow> int \<Rightarrow> error" where
  "positiveDuration name d = (if d \<le> 0 then Some (Foreign (name @ '' must be greater than zero'')) else None)"

definition validateURL :: "(string \<Rightarrow> err + URL) \<Rightarrow> string \<Rightarrow> string \<Rightarrow> string list \<Rightarrow> error" where
  "validateURL parseURI name raw allowedSchemes =
     (if TrimSpace raw = '''' then Some (Foreign (name @ '' is required''))
      else
        (case parseURI raw of
           Inl e \<Rightarrow> Some (Foreign (name @ '' must be a valid URL''))
         | Inr parsed \<Rightarrow>
             if url_Host parsed = '''' then Some (Foreign (name @ '' must be a valid URL''))
             else if list_ex (\<lambda>scheme. url_Scheme parsed = scheme) allowedSchemes then None
             else Some (Foreign (name @ '' uses unsupported scheme %q''))))"

definition compact :: "error list \<Rightarrow> err list" where
  "compact values = List.map_filter id values"

text \<open>\<open>errors.Join\<close> of no error is nil; otherwise the result wraps them all.\<close>

definition errors_Join :: "err list \<Rightarrow> error" where
  "errors_Join es = (if es = [] then None else Some (Errorf ''errors.Join'' es))"

definition append_if :: "bool \<Rightarrow> string \<Rightarrow> error list" where
  "append_if b msg = (if b then [Some (Foreign msg)] else [])"

definition problems :: "(string \<Rightarrow> err + URL) \<Rightarrow> AppConfig \<Rightarrow> error list" where
  "problems parseURI cfg =
     (let app = cfg_App cfg; http = cfg_HTTP cfg; eth = cfg_Ethereum cfg; ix = cfg_Indexer cfg; db = cfg_Database cfg in
      append_if (TrimSpace (ap_Environment app) = '''') ''app.environment is required'' @
      append_if (TrimSpace (ap_LogLevel app) = '''') ''app.log_level is required'' @
      append_if (TrimSpace (ht_Address http) = '''') ''http.address is required'' @
      [positiveDuration ''http.request_timeout'' (ht_RequestTimeout http),
       positiveDuration ''http.read_header_timeout'' (ht_ReadHeaderTimeout http),
       positiveDuration ''http.idle_timeout'' (ht_IdleTimeout http),
       positiveDuration ''http.shutdown_timeout'' (ht_ShutdownTimeout http)] @
      [validateURL parseURI ''ethereum.rpc_url'' (et_RPCURL eth) [''http'', ''https'']] @
      append_if (et_ChainID eth \<noteq> 1) ''ethereum.chain_id must be 1 for mainnet, got %d'' @
      [positiveDuration ''ethereum.rpc_timeout'' (et_RPCTimeout eth)] @
      append_if (et_RPCConcurrency eth < 1 \<or> et_RPCConcurrency eth > 64)
        ''ethereum.rpc_concurrency must be between 1 and 64'' @
      [positiveDuration ''indexer.poll_interval'' (ix_PollInterval ix)] @
      append_if (ix_BlockWindow ix = 0 \<or> ix_BlockWindow ix > MaxBlockWindow)
        ''indexer.block_window must be between 1 and %d'' @
      append_if (\<not> (ix_HeadMode ix = HeadLatest \<or> ix_HeadMode ix = HeadSafe \<or> ix_HeadMode ix = HeadFinalized))
        ''indexer.head_mode must be latest, safe, or finalized'' @
      append_if (ix_RetryAttempts ix < 0) ''indexer.retry_attempts cannot be negative'' @
      [positiveDuration ''indexer.retry_min_backoff'' (ix_RetryMinBackoff ix),
       positiveDuration ''indexer.retry_max_backoff'' (ix_RetryMaxBackoff ix)] @
      append_if (ix_RetryMinBackoff ix > ix_RetryMaxBackoff ix)
        ''indexer.retry_min_backoff cannot exceed retry_max_backoff'' @
      [validateURL parseURI ''database.url'' (db_URL db) [''postgres'', ''postgresql'']] @
      append_if (db_MaxConnections db < 1) ''database.max_connections must be greater than zero'' @
      append_if (db_MinConnections db < 0 \<or> db_MinConnections db > db_MaxConnections db)
        ''database.min_connections must be between zero and max_connections'' @
      [positiveDuration ''database.connect_timeout'' (db_ConnectTimeout db)])"

definition Validate :: "(string \<Rightarrow> err + URL) \<Rightarrow> AppConfig \<Rightarrow> error" where
  "Validate parseURI cfg = errors_Join (compact (problems parseURI cfg))"

section \<open>Loading\<close>

definition applyEnvironment :: "(string \<Rightarrow> string) \<Rightarrow> AppConfig \<Rightarrow> AppConfig" where
  "applyEnvironment getenv cfg =
     (let rpc = TrimSpace (getenv ''ETH_RPC_URL''); db = TrimSpace (getenv ''DATABASE_URL''); lvl = TrimSpace (getenv ''LOG_LEVEL'');
          cfg1 = (if rpc \<noteq> '''' then cfg\<lparr>cfg_Ethereum := (cfg_Ethereum cfg)\<lparr>et_RPCURL := rpc\<rparr>\<rparr> else cfg);
          cfg2 = (if db \<noteq> '''' then cfg1\<lparr>cfg_Database := (cfg_Database cfg1)\<lparr>db_URL := db\<rparr>\<rparr> else cfg1)
      in if lvl \<noteq> '''' then cfg2\<lparr>cfg_App := (cfg_App cfg2)\<lparr>ap_LogLevel := lvl\<rparr>\<rparr> else cfg2)"

text \<open>What the decoder finds after the first document: the end, another document, or an error.\<close>

datatype trailing = EndOfFile | AnotherDocument | TrailingError err

definition Load ::
  "(string \<Rightarrow> err + 'f) \<Rightarrow> ('f \<Rightarrow> AppConfig \<Rightarrow> err + AppConfig \<times> trailing) \<Rightarrow> (string \<Rightarrow> string) \<Rightarrow> (string \<Rightarrow> err + URL) \<Rightarrow>
   string \<Rightarrow> err + AppConfig" where
  "Load open decode getenv parseURI path =
     (case open path of
        Inl e \<Rightarrow> Inl (Errorf ''open config: %w'' [e])
      | Inr file \<Rightarrow>
     (case decode file Default of
        Inl e \<Rightarrow> Inl (Errorf ''decode config: %w'' [e])
      | Inr (cfg, AnotherDocument) \<Rightarrow> Inl (Foreign ''decode config: multiple YAML documents are not supported'')
      | Inr (cfg, TrailingError e) \<Rightarrow> Inl (Errorf ''decode trailing config: %w'' [e])
      | Inr (cfg, EndOfFile) \<Rightarrow>
          (let cfg' = applyEnvironment getenv cfg in
           case Validate parseURI cfg' of Some e \<Rightarrow> Inl e | None \<Rightarrow> Inr cfg')))"

section \<open>Properties\<close>

lemma compact_append [simp]:
  "compact (xs @ ys) = compact xs @ compact ys" "compact [] = []"
  "compact (x # xs) = (case x of None \<Rightarrow> compact xs | Some e \<Rightarrow> e # compact xs)"
  by (simp_all add: compact_def List.map_filter_def split: option.splits)

lemma compact_append_if: "compact (append_if b msg) = [] \<longleftrightarrow> \<not> b"
  by (simp add: append_if_def)

lemma positiveDuration_None [simp]: "positiveDuration name d = None \<longleftrightarrow> 0 < d"
  by (simp add: positiveDuration_def)

definition acceptable_url :: "(string \<Rightarrow> err + URL) \<Rightarrow> string \<Rightarrow> string list \<Rightarrow> bool" where
  "acceptable_url parseURI raw schemes \<longleftrightarrow> TrimSpace raw \<noteq> '''' \<and>
     (\<exists>u. parseURI raw = Inr u \<and> url_Host u \<noteq> '''' \<and> url_Scheme u \<in> set schemes)"

lemma validateURL_None: "validateURL parseURI name raw schemes = None \<longleftrightarrow> acceptable_url parseURI raw schemes"
  by (auto simp: validateURL_def acceptable_url_def list_ex_iff split: sum.splits)

text \<open>
  \<open>Validate\<close> accepts exactly the configurations whose every field is in range; nothing else, and
  in particular no combination of fields, is checked or missed.
\<close>

lemma validate_exact:
  "Validate parseURI cfg = None \<longleftrightarrow>
     TrimSpace (ap_Environment (cfg_App cfg)) \<noteq> '''' \<and> TrimSpace (ap_LogLevel (cfg_App cfg)) \<noteq> '''' \<and>
     TrimSpace (ht_Address (cfg_HTTP cfg)) \<noteq> '''' \<and>
     0 < ht_RequestTimeout (cfg_HTTP cfg) \<and> 0 < ht_ReadHeaderTimeout (cfg_HTTP cfg) \<and>
     0 < ht_IdleTimeout (cfg_HTTP cfg) \<and> 0 < ht_ShutdownTimeout (cfg_HTTP cfg) \<and>
     acceptable_url parseURI (et_RPCURL (cfg_Ethereum cfg)) [''http'', ''https''] \<and>
     et_ChainID (cfg_Ethereum cfg) = 1 \<and> 0 < et_RPCTimeout (cfg_Ethereum cfg) \<and>
     1 \<le> et_RPCConcurrency (cfg_Ethereum cfg) \<and> et_RPCConcurrency (cfg_Ethereum cfg) \<le> 64 \<and>
     0 < ix_PollInterval (cfg_Indexer cfg) \<and>
     0 < ix_BlockWindow (cfg_Indexer cfg) \<and> ix_BlockWindow (cfg_Indexer cfg) \<le> MaxBlockWindow \<and>
     ix_HeadMode (cfg_Indexer cfg) \<in> {HeadLatest, HeadSafe, HeadFinalized} \<and>
     0 \<le> ix_RetryAttempts (cfg_Indexer cfg) \<and> 0 < ix_RetryMinBackoff (cfg_Indexer cfg) \<and>
     ix_RetryMinBackoff (cfg_Indexer cfg) \<le> ix_RetryMaxBackoff (cfg_Indexer cfg) \<and>
     acceptable_url parseURI (db_URL (cfg_Database cfg)) [''postgres'', ''postgresql''] \<and>
     1 \<le> db_MaxConnections (cfg_Database cfg) \<and> 0 \<le> db_MinConnections (cfg_Database cfg) \<and>
     db_MinConnections (cfg_Database cfg) \<le> db_MaxConnections (cfg_Database cfg) \<and>
     0 < db_ConnectTimeout (cfg_Database cfg)"
proof -
  have *: "errors_Join es = None \<longleftrightarrow> es = []" for es by (simp add: errors_Join_def)
  have none: "(case x of None \<Rightarrow> es | Some e \<Rightarrow> e # es) = [] \<longleftrightarrow> x = None \<and> es = []" for x :: error and es
    by (simp split: option.splits)
  show ?thesis
    unfolding Validate_def problems_def Let_def *
    by (simp add: none compact_append_if validateURL_None word_gt_0 not_less) auto
qed

text \<open>
  A configuration that \<open>Load\<close> returns is valid, came from a file with one document, and every
  override set in the environment is in it, with its surrounding white space removed; all other
  fields are the file's.
\<close>

lemma load_sound:
  assumes "Load open decode getenv parseURI path = Inr cfg"
  shows "\<exists>file fromFile. open path = Inr file \<and> decode file Default = Inr (fromFile, EndOfFile) \<and>
    Validate parseURI cfg = None \<and>
    et_RPCURL (cfg_Ethereum cfg) = (if TrimSpace (getenv ''ETH_RPC_URL'') \<noteq> '''' then TrimSpace (getenv ''ETH_RPC_URL'')
      else et_RPCURL (cfg_Ethereum fromFile)) \<and>
    db_URL (cfg_Database cfg) = (if TrimSpace (getenv ''DATABASE_URL'') \<noteq> '''' then TrimSpace (getenv ''DATABASE_URL'')
      else db_URL (cfg_Database fromFile)) \<and>
    ap_LogLevel (cfg_App cfg) = (if TrimSpace (getenv ''LOG_LEVEL'') \<noteq> '''' then TrimSpace (getenv ''LOG_LEVEL'')
      else ap_LogLevel (cfg_App fromFile)) \<and>
    cfg = fromFile\<lparr>cfg_Ethereum := (cfg_Ethereum fromFile)\<lparr>et_RPCURL := et_RPCURL (cfg_Ethereum cfg)\<rparr>,
      cfg_Database := (cfg_Database fromFile)\<lparr>db_URL := db_URL (cfg_Database cfg)\<rparr>,
      cfg_App := (cfg_App fromFile)\<lparr>ap_LogLevel := ap_LogLevel (cfg_App cfg)\<rparr>\<rparr>"
proof -
  obtain fd fromFile where f: "open path = Inr fd" "decode fd Default = Inr (fromFile, EndOfFile)"
    "cfg = applyEnvironment getenv fromFile" "Validate parseURI cfg = None"
    using assms by (auto simp: Load_def Let_def split: sum.splits trailing.splits option.splits)
  then show ?thesis
    by (intro exI [of _ fd] exI [of _ fromFile]) (simp add: applyEnvironment_def Let_def)
qed

definition sample_parseURI :: "string \<Rightarrow> err + URL" where
  "sample_parseURI raw =
     (if take 8 raw = ''https://'' then Inr \<lparr>url_Scheme = ''https'', url_Host = drop 8 raw\<rparr>
      else if take 11 raw = ''postgres://'' then Inr \<lparr>url_Scheme = ''postgres'', url_Host = drop 11 raw\<rparr>
      else Inl (Foreign ''parse''))"

definition sample_getenv :: "string \<Rightarrow> string" where
  "sample_getenv k = (if k = ''ETH_RPC_URL'' then '' https://node '' else if k = ''DATABASE_URL'' then ''postgres://db'' else '''')"

definition sample_app_config :: AppConfig where
  "sample_app_config = applyEnvironment sample_getenv Default"

lemma sample_app_valid: "Validate sample_parseURI sample_app_config = None"
  by code_simp

end
