(* ===== verification/Memory_Store.thy ===== *)
theory Memory_Store
  imports Domain
begin

text \<open>
  The in-memory store of \<open>internal/store/memory.go\<close>. A Go map is an association list: the list
  order stands for the iteration order that Go leaves open, so a lemma about every list with the
  same entries says that the order does not matter. The mutex makes each method atomic: a method
  is one function on the state. The argument of type \<^typ>\<open>ctx\<close> is what \<open>ctx.Err()\<close>
  answers when the method is entered. The clone functions copy what a pointer refers to; on
  values they only turn an empty slice into \<open>nil\<close>.
\<close>

section \<open>State and cloning\<close>

record Memory =
  m_chainID :: u64
  m_bundles :: "(u64 \<times> BlockBundle) list"
  m_lastSyncedAt :: Time

definition NewMemory :: Memory where
  "NewMemory = \<lparr>m_chainID = 0, m_bundles = [], m_lastSyncedAt = zero_Time\<rparr>"

definition cloneBigInt :: "int option \<Rightarrow> int option" where
  "cloneBigInt v = (case v of None \<Rightarrow> None | Some i \<Rightarrow> Some i)"

definition cloneAddress :: "address option \<Rightarrow> address option" where
  "cloneAddress v = (case v of None \<Rightarrow> None | Some a \<Rightarrow> Some a)"

definition cloneBlock :: "Block \<Rightarrow> Block" where
  "cloneBlock b = b\<lparr>b_BaseFeePerGas := cloneBigInt (b_BaseFeePerGas b)\<rparr>"

definition cloneTransaction :: "Transaction \<Rightarrow> Transaction" where
  "cloneTransaction t = t\<lparr>
     t_Recipient := cloneAddress (t_Recipient t),
     t_Value := cloneBigInt (t_Value t),
     t_GasPrice := cloneBigInt (t_GasPrice t),
     t_MaxFeePerGas := cloneBigInt (t_MaxFeePerGas t),
     t_MaxPriorityFeePerGas := cloneBigInt (t_MaxPriorityFeePerGas t),
     t_Input := append_nil (t_Input t)\<rparr>"

definition cloneEvent :: "Event \<Rightarrow> Event" where
  "cloneEvent e = e\<lparr>e_Data := append_nil (e_Data e)\<rparr>"

definition cloneBundle :: "BlockBundle \<Rightarrow> BlockBundle" where
  "cloneBundle b = \<lparr>
     bb_Block = cloneBlock (bb_Block b),
     bb_Transactions = map cloneTransaction (bb_Transactions b),
     bb_Events = map cloneEvent (bb_Events b)\<rparr>"

definition cloneBundles :: "(u64 \<times> BlockBundle) list \<Rightarrow> (u64 \<times> BlockBundle) list" where
  "cloneBundles source = map (\<lambda>(number, bundle). (number, cloneBundle bundle)) source"

section \<open>Helpers over the map\<close>

text \<open>Indexing a Go map with a missing key gives the zero value.\<close>

definition bundle_at :: "(u64 \<times> BlockBundle) list \<Rightarrow> u64 \<Rightarrow> BlockBundle" where
  "bundle_at bundles number =
     (case map_of bundles number of None \<Rightarrow> zero_BlockBundle | Some b \<Rightarrow> b)"

fun highest_loop :: "u64 list \<Rightarrow> u64 \<Rightarrow> bool \<Rightarrow> u64 \<times> bool" where
  "highest_loop [] highest found = (highest, found)"
| "highest_loop (number # ns) highest found =
     (if \<not> found \<or> number > highest then highest_loop ns number True
      else highest_loop ns highest found)"

definition highestBundle :: "(u64 \<times> BlockBundle) list \<Rightarrow> u64 \<times> BlockBundle \<times> bool" where
  "highestBundle bundles =
     (let (highest, found) = highest_loop (map fst bundles) 0 False
      in (highest, bundle_at bundles highest, found))"

definition sortedBlockNumbers :: "(u64 \<times> BlockBundle) list \<Rightarrow> u64 list" where
  "sortedBlockNumbers bundles = sort_Slice (<) (map fst bundles)"

definition eventBeforeCursor :: "Event \<Rightarrow> EventCursor option \<Rightarrow> bool" where
  "eventBeforeCursor event cursor =
     (case cursor of
        None \<Rightarrow> True
      | Some c \<Rightarrow>
          if e_BlockNumber event \<noteq> ec_BlockNumber c then e_BlockNumber event < ec_BlockNumber c
          else e_LogIndex event < ec_LogIndex c)"

section \<open>Validation\<close>

definition invalid_update :: "string \<Rightarrow> err" where
  "invalid_update msg = Errorf msg [Sentinel ErrInvalidCanonicalUpdate]"

fun contiguous_blocks :: "BlockBundle list \<Rightarrow> error" where
  "contiguous_blocks (previous # current # rest) =
     (if bb_Number previous = MaxUint64 \<or> bb_Number current \<noteq> bb_Number previous + 1
      then Some (invalid_update ''%w: replacement blocks are not contiguous'')
      else contiguous_blocks (current # rest))"
| "contiguous_blocks _ = None"

definition validateReplacement :: "CanonicalUpdate \<Rightarrow> error" where
  "validateReplacement update =
     (case u_Blocks update of
        [] \<Rightarrow> None
      | first # _ \<Rightarrow>
          if bb_Number first \<noteq> u_ReplaceFrom update
          then Some (invalid_update ''%w: first replacement block is %d, expected %d'')
          else contiguous_blocks (u_Blocks update))"

text \<open>
  The loop over one block's transactions: \<open>index\<close> counts up, \<open>seen\<close> is \<open>seenTransactions\<close> and
  \<open>positions\<close> is \<open>blockTransactions\<close>.
\<close>

fun validate_transactions ::
  "u64 \<Rightarrow> hash \<Rightarrow> nat \<Rightarrow> Transaction list \<Rightarrow> hash set \<Rightarrow> (hash \<rightharpoonup> u32)
   \<Rightarrow> err + (hash set \<times> (hash \<rightharpoonup> u32))" where
  "validate_transactions number blockHash index [] seen positions = Inr (seen, positions)"
| "validate_transactions number blockHash index (t # ts) seen positions =
     (if t_BlockNumber t \<noteq> number \<or> t_BlockHash t \<noteq> blockHash \<or> t_Index t \<noteq> of_nat index
      then Inl (invalid_update ''%w: transaction %s has inconsistent block metadata'')
      else if t_Hash t \<in> seen
      then Inl (invalid_update ''%w: duplicate transaction %s'')
      else validate_transactions number blockHash (Suc index) ts
             (insert (t_Hash t) seen) (positions(t_Hash t \<mapsto> t_Index t)))"

fun validate_events ::
  "u64 \<Rightarrow> hash \<Rightarrow> (hash \<rightharpoonup> u32) \<Rightarrow> Event list \<Rightarrow> u32 set \<Rightarrow> error" where
  "validate_events number blockHash positions [] seenLogs = None"
| "validate_events number blockHash positions (e # es) seenLogs =
     (if positions (e_TransactionHash e) \<noteq> Some (e_TransactionIndex e)
      then Some (invalid_update ''%w: event references an unknown transaction'')
      else if e_BlockNumber e \<noteq> number \<or> e_BlockHash e \<noteq> blockHash
      then Some (invalid_update ''%w: event has inconsistent block metadata'')
      else if length (e_Topics e) > 4
      then Some (invalid_update ''%w: event has more than four topics'')
      else if e_LogIndex e \<in> seenLogs
      then Some (invalid_update ''%w: block %d has duplicate log index %d'')
      else validate_events number blockHash positions es (insert (e_LogIndex e) seenLogs))"

text \<open>
  The loop over the sorted block numbers; \<open>previous\<close> is the block of the position before, absent
  at position 0.
\<close>

fun validate_blocks ::
  "(u64 \<times> BlockBundle) list \<Rightarrow> Block option \<Rightarrow> u64 list \<Rightarrow> hash set \<Rightarrow> error" where
  "validate_blocks bundles previous [] seen = None"
| "validate_blocks bundles previous (number # ns) seen =
     (let bundle = bundle_at bundles number in
      if bb_Number bundle \<noteq> number
      then Some (invalid_update ''%w: block map key and block number differ'')
      else if (case previous of
                 None \<Rightarrow> False
               | Some p \<Rightarrow> number \<noteq> b_Number p + 1 \<or> bb_ParentHash bundle \<noteq> b_Hash p)
      then Some (invalid_update ''%w: retained blocks do not form one canonical chain'')
      else if b_TransactionCount (bb_Block bundle) \<noteq> int (length (bb_Transactions bundle))
      then Some (invalid_update ''%w: block %d transaction count does not match'')
      else if int (length (bb_Transactions bundle)) > MaxUint32
      then Some (invalid_update ''%w: block %d has too many transactions'')
      else
        (case validate_transactions number (bb_Hash bundle) 0 (bb_Transactions bundle) seen
                Map.empty of
           Inl e \<Rightarrow> Some e
         | Inr (seen', positions) \<Rightarrow>
             (case validate_events number (bb_Hash bundle) positions (bb_Events bundle) {} of
                Some e \<Rightarrow> Some e
              | None \<Rightarrow> validate_blocks bundles (Some (bb_Block bundle)) ns seen')))"

definition validateCanonicalBundles :: "(u64 \<times> BlockBundle) list \<Rightarrow> error" where
  "validateCanonicalBundles bundles =
     validate_blocks bundles None (sortedBlockNumbers bundles) {}"

section \<open>Operations\<close>

definition Memory_Ping :: "ctx \<Rightarrow> Memory \<Rightarrow> error" where
  "Memory_Ping ctx m = map_option ctx_err ctx"

definition Memory_CanonicalTip :: "ctx \<Rightarrow> Memory \<Rightarrow> err + ChainTip option" where
  "Memory_CanonicalTip ctx m =
     (case ctx of
        Some e \<Rightarrow> Inl (ctx_err e)
      | None \<Rightarrow>
          (case highestBundle (m_bundles m) of
             (number, bundle, found) \<Rightarrow>
               if \<not> found then Inr None
               else Inr (Some \<lparr>tip_Number = number, tip_Hash = bb_Hash bundle\<rparr>)))"

definition Memory_CanonicalHash :: "ctx \<Rightarrow> u64 \<Rightarrow> Memory \<Rightarrow> err + hash" where
  "Memory_CanonicalHash ctx number m =
     (case ctx of
        Some e \<Rightarrow> Inl (ctx_err e)
      | None \<Rightarrow>
          (case map_of (m_bundles m) number of
             None \<Rightarrow> Inl (Sentinel ErrNotFound)
           | Some bundle \<Rightarrow> Inr (bb_Hash bundle)))"

text \<open>The map the update would leave: the cloned survivors, then the cloned new blocks.\<close>

definition candidate_bundles ::
  "(u64 \<times> BlockBundle) list \<Rightarrow> CanonicalUpdate \<Rightarrow> (u64 \<times> BlockBundle) list" where
  "candidate_bundles bundles update =
     fold (\<lambda>bundle. AList.update (bb_Number bundle) (cloneBundle bundle)) (u_Blocks update)
       (filter (\<lambda>kv. \<not> (fst kv \<ge> u_ReplaceFrom update \<or> fst kv < u_RetainFrom update))
          (cloneBundles bundles))"

definition Memory_ApplyCanonicalUpdate ::
  "ctx \<Rightarrow> CanonicalUpdate \<Rightarrow> Memory \<Rightarrow> error \<times> Memory" where
  "Memory_ApplyCanonicalUpdate ctx update m =
     (case ctx of
        Some e \<Rightarrow> (Some (ctx_err e), m)
      | None \<Rightarrow>
          if u_ChainID update = 0
          then (Some (invalid_update ''%w: chain ID must be greater than zero''), m)
          else if u_RetainFrom update > u_ReplaceFrom update
          then (Some (invalid_update ''%w: retain-from block cannot exceed replace-from block''), m)
          else
            (case validateReplacement update of
               Some e \<Rightarrow> (Some e, m)
             | None \<Rightarrow>
                 if m_chainID m \<noteq> 0 \<and> m_chainID m \<noteq> u_ChainID update
                 then (Some (invalid_update ''%w: store chain ID is %d, update chain ID is %d''), m)
                 else
                   (let candidate = candidate_bundles (m_bundles m) update in
                    case validateCanonicalBundles candidate of
                      Some e \<Rightarrow> (Some e, m)
                    | None \<Rightarrow>
                        (None, m\<lparr>m_chainID := u_ChainID update, m_bundles := candidate,
                                 m_lastSyncedAt := u_SyncedAt update\<rparr>))))"

definition Memory_BlockByNumber :: "ctx \<Rightarrow> u64 \<Rightarrow> Memory \<Rightarrow> err + BlockResult" where
  "Memory_BlockByNumber ctx number m =
     (case ctx of
        Some e \<Rightarrow> Inl (ctx_err e)
      | None \<Rightarrow>
          (case map_of (m_bundles m) number of
             None \<Rightarrow> Inl (Sentinel ErrNotFound)
           | Some bundle \<Rightarrow>
               Inr \<lparr>br_Block = cloneBlock (bb_Block bundle),
                    br_TransactionHashes = map t_Hash (bb_Transactions bundle)\<rparr>))"

definition log_less :: "Event \<Rightarrow> Event \<Rightarrow> bool" where
  "log_less left right \<longleftrightarrow> e_LogIndex left < e_LogIndex right"

fun transaction_loop :: "hash \<Rightarrow> BlockBundle list \<Rightarrow> err + TransactionResult" where
  "transaction_loop hash [] = Inl (Sentinel ErrNotFound)"
| "transaction_loop hash (bundle # rest) =
     (case find (\<lambda>t. t_Hash t = hash) (bb_Transactions bundle) of
        None \<Rightarrow> transaction_loop hash rest
      | Some t \<Rightarrow>
          Inr \<lparr>tr_Transaction = cloneTransaction t,
               tr_Events = sort_Slice log_less
                 (map cloneEvent (filter (\<lambda>e. e_TransactionHash e = hash) (bb_Events bundle)))\<rparr>)"

definition Memory_TransactionByHash :: "ctx \<Rightarrow> hash \<Rightarrow> Memory \<Rightarrow> err + TransactionResult" where
  "Memory_TransactionByHash ctx hash m =
     (case ctx of
        Some e \<Rightarrow> Inl (ctx_err e)
      | None \<Rightarrow> transaction_loop hash (map snd (m_bundles m)))"

definition newest_first :: "Event \<Rightarrow> Event \<Rightarrow> bool" where
  "newest_first left right \<longleftrightarrow>
     (if e_BlockNumber left \<noteq> e_BlockNumber right then e_BlockNumber left > e_BlockNumber right
      else e_LogIndex left > e_LogIndex right)"

text \<open>The matching events, sorted newest first.\<close>

definition address_events :: "EventQuery \<Rightarrow> (u64 \<times> BlockBundle) list \<Rightarrow> Event list" where
  "address_events query bundles =
     sort_Slice newest_first
       (concat (map (\<lambda>(number, bundle).
          map cloneEvent
            (filter (\<lambda>e. \<not> (e_Address e \<noteq> q_Address query \<or> \<not> eventBeforeCursor e (q_Before query)))
               (bb_Events bundle)))
          bundles))"

definition Memory_EventsByAddress :: "ctx \<Rightarrow> EventQuery \<Rightarrow> Memory \<Rightarrow> err + EventPage" where
  "Memory_EventsByAddress ctx query m =
     (case ctx of
        Some e \<Rightarrow> Inl (ctx_err e)
      | None \<Rightarrow>
          if q_Limit query > MaxEventPageSize
          then Inl (Errorf ''%w: event page limit %d exceeds maximum %d'' [Sentinel ErrInvalidQuery])
          else if (case q_Before query of
                     None \<Rightarrow> False
                   | Some c \<Rightarrow>
                       (case map_of (m_bundles m) (ec_BlockNumber c) of
                          None \<Rightarrow> True
                        | Some bundle \<Rightarrow> bb_Hash bundle \<noteq> ec_BlockHash c))
          then Inl (Sentinel ErrStaleCursor)
          else
            (let events = address_events query (m_bundles m) in
             if q_Limit query = 0 \<or> length events = 0
             then Inr \<lparr>p_Events = [], p_NextCursor = None\<rparr>
             else if length events \<le> unat (q_Limit query)
             then Inr \<lparr>p_Events = events, p_NextCursor = None\<rparr>
             else
               (let pageEvents = take (unat (q_Limit query)) events in
                Inr \<lparr>p_Events = pageEvents, p_NextCursor = Some (cursor_of (last pageEvents))\<rparr>)))"

end
