(* ===== verification/Service.thy ===== *)
theory Service
  imports Memory_Store
begin

text \<open>
  The use cases of \<open>internal/service\<close>: queries over a \<open>QueryStore\<close> with the store's errors translated
  into the service's own, and readiness. An interface is a record of its methods; a method's
  argument of type \<open>'x\<close> is what the store call meets in its environment.
\<close>

record ('x, 's) QueryStore =
  qs_BlockByNumber :: "'x \<Rightarrow> u64 \<Rightarrow> 's \<Rightarrow> err + BlockResult"
  qs_TransactionByHash :: "'x \<Rightarrow> hash \<Rightarrow> 's \<Rightarrow> err + TransactionResult"
  qs_EventsByAddress :: "'x \<Rightarrow> EventQuery \<Rightarrow> 's \<Rightarrow> err + EventPage"

definition MemoryQueryStore :: "(ctx, Memory) QueryStore" where
  "MemoryQueryStore = \<lparr>qs_BlockByNumber = Memory_BlockByNumber, qs_TransactionByHash = Memory_TransactionByHash,
     qs_EventsByAddress = Memory_EventsByAddress\<rparr>"

section \<open>errors.go\<close>

definition translateStoreError :: "err \<Rightarrow> err" where
  "translateStoreError e =
     (if errors_Is e ErrNotFound then Errorf ''%w: %w'' [Sentinel ServiceErrNotFound, e]
      else if errors_Is e ErrInvalidQuery then Errorf ''%w: %w'' [Sentinel ServiceErrInvalidQuery, e]
      else if errors_Is e ErrStaleCursor then Errorf ''%w: %w'' [Sentinel ServiceErrStaleCursor, e]
      else e)"

text \<open>A nil error stays nil: only the error of a failed call is translated.\<close>

definition translated :: "err + 'a \<Rightarrow> err + 'a" where
  "translated r = map_sum translateStoreError id r"

section \<open>query.go\<close>

record ('x, 's) Queries =
  qu_Block :: "'x \<Rightarrow> u64 \<Rightarrow> 's \<Rightarrow> err + BlockResult"
  qu_Transaction :: "'x \<Rightarrow> hash \<Rightarrow> 's \<Rightarrow> err + TransactionResult"
  qu_Events :: "'x \<Rightarrow> EventQuery \<Rightarrow> 's \<Rightarrow> err + EventPage"

definition QueryService_Block :: "('x, 's) QueryStore \<Rightarrow> 'x \<Rightarrow> u64 \<Rightarrow> 's \<Rightarrow> err + BlockResult" where
  "QueryService_Block st x number s = translated (qs_BlockByNumber st x number s)"

definition QueryService_Transaction :: "('x, 's) QueryStore \<Rightarrow> 'x \<Rightarrow> hash \<Rightarrow> 's \<Rightarrow> err + TransactionResult" where
  "QueryService_Transaction st x h s = translated (qs_TransactionByHash st x h s)"

definition QueryService_Events :: "('x, 's) QueryStore \<Rightarrow> 'x \<Rightarrow> EventQuery \<Rightarrow> 's \<Rightarrow> err + EventPage" where
  "QueryService_Events st x query s = translated (qs_EventsByAddress st x query s)"

definition NewQueryService :: "('x, 's) QueryStore \<Rightarrow> ('x, 's) Queries" where
  "NewQueryService queryStore = \<lparr>qu_Block = QueryService_Block queryStore,
     qu_Transaction = QueryService_Transaction queryStore, qu_Events = QueryService_Events queryStore\<rparr>"

section \<open>health.go\<close>

record ('x, 's) readinessStore =
  rd_Ping :: "'x \<Rightarrow> 's \<Rightarrow> error"
  rd_CanonicalTip :: "'x \<Rightarrow> 's \<Rightarrow> err + ChainTip option"

record ('x, 's) Health =
  he_Ready :: "'x \<Rightarrow> 'x \<Rightarrow> 's \<Rightarrow> err + ChainTip"

definition MemoryReadiness :: "(ctx, Memory) readinessStore" where
  "MemoryReadiness = \<lparr>rd_Ping = Memory_Ping, rd_CanonicalTip = Memory_CanonicalTip\<rparr>"

text \<open>\<open>x1\<close> is what the ping meets, \<open>x2\<close> what the read of the tip meets.\<close>

definition Ready :: "('x, 's) readinessStore \<Rightarrow> 'x \<Rightarrow> 'x \<Rightarrow> 's \<Rightarrow> err + ChainTip" where
  "Ready st x1 x2 s =
     (case rd_Ping st x1 s of
        Some e \<Rightarrow> Inl (Errorf ''check PostgreSQL connection: %w'' [e])
      | None \<Rightarrow>
          (case rd_CanonicalTip st x2 s of
             Inl e \<Rightarrow> Inl (Errorf ''read canonical tip: %w'' [e])
           | Inr None \<Rightarrow> Inl (Sentinel ServiceErrNotReady)
           | Inr (Some tip) \<Rightarrow> Inr tip))"

definition NewHealthService :: "('x, 's) readinessStore \<Rightarrow> ('x, 's) Health" where
  "NewHealthService st = \<lparr>he_Ready = Ready st\<rparr>"

lemma translateStoreError_Is:
  "errors_Is (translateStoreError e) t \<longleftrightarrow> errors_Is e t \<or>
     t = ServiceErrNotFound \<and> errors_Is e ErrNotFound \<or>
     t = ServiceErrInvalidQuery \<and> errors_Is e ErrInvalidQuery \<and> \<not> errors_Is e ErrNotFound \<or>
     t = ServiceErrStaleCursor \<and> errors_Is e ErrStaleCursor \<and> \<not> errors_Is e ErrNotFound \<and>
       \<not> errors_Is e ErrInvalidQuery"
  by (auto simp: translateStoreError_def)

lemma translated_simps [simp]:
  "translated (Inr a) = Inr a" "translated (Inl e) = Inl (translateStoreError e)"
  "translated r = Inr a \<longleftrightarrow> r = Inr a"
  by (cases r; auto simp: translated_def)+

end
