(* ===== verification/Server.thy ===== *)
theory Server
  imports Service Syncer Encoding
begin

text \<open>
  The HTTP layer of \<open>internal/server\<close>: the parsers of path and query parameters, the responses and
  the handlers. What the router and the middleware of \<open>chi\<close> give a handler (URL parameters, request
  ID) is part of the request. Text forms of hashes, addresses and byte strings are go-ethereum's
  and a parameter, the record \<open>GethText\<close>. A response body is the JSON value the struct tags
  describe.
\<close>

record GethText =
  gt_HashHex :: "hash \<Rightarrow> string"
  gt_AddressHex :: "address \<Rightarrow> string"
  gt_HexEncode :: "bytes \<Rightarrow> string"
  gt_IsHexHash :: "string \<Rightarrow> bool"
  gt_HexToHash :: "string \<Rightarrow> hash"
  gt_IsHexAddress :: "string \<Rightarrow> bool"
  gt_HexToAddress :: "string \<Rightarrow> address"
  gt_BytesToHash :: "bytes \<Rightarrow> hash"

datatype json = JNull | JString string | JNumber int | JTime Time | JArray "json list" | JObject "(string \<times> json) list"

section \<open>Requests and responses\<close>

record ('x) Request =
  rq_URLParam :: "string \<Rightarrow> string"
  rq_Query :: "string \<rightharpoonup> string list"
  rq_ReqID :: string
  rq_Context :: "'x \<times> 'x"
  rq_WriteError :: error

record ResponseWriter =
  rw_ContentType :: "string option"
  rw_Status :: "int option"
  rw_Body :: "json list"
  rw_Log :: "LogEntry list"

definition fresh_writer :: ResponseWriter where
  "fresh_writer = \<lparr>rw_ContentType = None, rw_Status = None, rw_Body = [], rw_Log = []\<rparr>"

record ('x, 's) Server =
  sv_QueryService :: "('x, 's) Queries"
  sv_HealthService :: "('x, 's) Health"
  sv_Text :: GethText

definition log_error :: "(string \<times> log_value) list \<Rightarrow> string \<Rightarrow> ResponseWriter \<Rightarrow> ResponseWriter" where
  "log_error fs msg writer =
     writer\<lparr>rw_Log := rw_Log writer @ [\<lparr>le_Level = ErrorLevel, le_Fields = fs, le_Msg = msg\<rparr>]\<rparr>"

text \<open>The first \<open>WriteHeader\<close> of a response counts.\<close>

definition WriteHeader :: "int \<Rightarrow> ResponseWriter \<Rightarrow> ResponseWriter" where
  "WriteHeader status writer =
     writer\<lparr>rw_Status := (case rw_Status writer of None \<Rightarrow> Some status | Some st \<Rightarrow> Some st)\<rparr>"

definition writeJSON :: "'x Request \<Rightarrow> int \<Rightarrow> json \<Rightarrow> ResponseWriter \<Rightarrow> ResponseWriter" where
  "writeJSON request status response writer =
     (let writer1 = WriteHeader status (writer\<lparr>rw_ContentType := Some ''application/json''\<rparr>) in
      case rq_WriteError request of
        None \<Rightarrow> writer1\<lparr>rw_Body := rw_Body writer1 @ [response]\<rparr>
      | Some e \<Rightarrow>
          log_error [(''error'', LErr e), (''request_id'', LStr (rq_ReqID request))] ''encode HTTP response'' writer1)"

definition errorResponse :: "string \<Rightarrow> string \<Rightarrow> string \<Rightarrow> json" where
  "errorResponse code message requestID =
     JObject [(''error'', JObject ([(''code'', JString code), (''message'', JString message)] @
       (if requestID = '''' then [] else [(''request_id'', JString requestID)])))]"

definition writeError :: "'x Request \<Rightarrow> int \<Rightarrow> string \<Rightarrow> string \<Rightarrow> ResponseWriter \<Rightarrow> ResponseWriter" where
  "writeError request status code message writer =
     writeJSON request status (errorResponse code message (rq_ReqID request)) writer"

definition internal_error :: "'x Request \<Rightarrow> ResponseWriter \<Rightarrow> ResponseWriter" where
  "internal_error request writer = writeError request 500 ''internal_error'' ''internal server error'' writer"

definition optionalString :: "string option \<Rightarrow> json" where
  "optionalString v = (case v of None \<Rightarrow> JNull | Some s \<Rightarrow> JString s)"

definition optionalBigIntString :: "int option \<Rightarrow> string option" where
  "optionalBigIntString value = (case value of None \<Rightarrow> None | Some i \<Rightarrow> Some (show_int i))"

definition optionalAddressString :: "GethText \<Rightarrow> address option \<Rightarrow> string option" where
  "optionalAddressString g a = (case a of None \<Rightarrow> None | Some x \<Rightarrow> Some (gt_AddressHex g x))"

definition json_word :: "'a::len word \<Rightarrow> json" where
  "json_word w = JNumber (uint w)"

section \<open>blocks.go\<close>

definition parseBlockNumber :: "string \<Rightarrow> err + u64" where
  "parseBlockNumber v =
     (if v = '''' then Inl ErrSyntax
      else if list_ex (\<lambda>c. \<not> is_digit c) v then Inl ErrSyntax
      else ParseUint v)"

record blockResponse =
  brs_Number :: u64
  brs_Hash :: string
  brs_ParentHash :: string
  brs_Timestamp :: u64
  brs_GasLimit :: u64
  brs_GasUsed :: u64
  brs_BaseFeePerGasWei :: "string option"
  brs_TransactionCount :: int
  brs_TransactionHashes :: "string list"
  brs_IndexedAt :: Time

definition newBlockResponse :: "GethText \<Rightarrow> BlockResult \<Rightarrow> blockResponse" where
  "newBlockResponse g result =
     (let block = br_Block result in
      \<lparr>brs_Number = b_Number block, brs_Hash = gt_HashHex g (b_Hash block),
       brs_ParentHash = gt_HashHex g (b_ParentHash block), brs_Timestamp = b_Timestamp block,
       brs_GasLimit = b_GasLimit block, brs_GasUsed = b_GasUsed block,
       brs_BaseFeePerGasWei = optionalBigIntString (b_BaseFeePerGas block),
       brs_TransactionCount = b_TransactionCount block,
       brs_TransactionHashes = map (gt_HashHex g) (br_TransactionHashes result),
       brs_IndexedAt = Time_UTC (b_IndexedAt block)\<rparr>)"

definition json_block :: "blockResponse \<Rightarrow> json" where
  "json_block r = JObject
     [(''number'', json_word (brs_Number r)), (''hash'', JString (brs_Hash r)),
      (''parent_hash'', JString (brs_ParentHash r)), (''timestamp'', json_word (brs_Timestamp r)),
      (''gas_limit'', json_word (brs_GasLimit r)), (''gas_used'', json_word (brs_GasUsed r)),
      (''base_fee_per_gas_wei'', optionalString (brs_BaseFeePerGasWei r)),
      (''transaction_count'', JNumber (brs_TransactionCount r)),
      (''transaction_hashes'', JArray (map JString (brs_TransactionHashes r))),
      (''indexed_at'', JTime (brs_IndexedAt r))]"

definition blockByNumber :: "('x, 's) Server \<Rightarrow> 'x Request \<Rightarrow> 's \<Rightarrow> ResponseWriter \<Rightarrow> ResponseWriter" where
  "blockByNumber sv request s writer =
     (case parseBlockNumber (rq_URLParam request ''number'') of
        Inl e \<Rightarrow> writeError request 400 ''invalid_block_number'' ''block number must be an unsigned decimal integer'' writer
      | Inr number \<Rightarrow>
          (case qu_Block (sv_QueryService sv) (fst (rq_Context request)) number s of
             Inl e \<Rightarrow>
               if errors_Is e ServiceErrNotFound
               then writeError request 404 ''block_not_found'' ''block was not found'' writer
               else internal_error request
                 (log_error [(''error'', LErr e), (''request_id'', LStr (rq_ReqID request)),
                    (''block_number'', LUint64 number)] ''query block'' writer)
           | Inr result \<Rightarrow> writeJSON request 200 (json_block (newBlockResponse (sv_Text sv) result)) writer))"

section \<open>events.go\<close>

definition defaultEventPageSize :: u32 where "defaultEventPageSize = 100"
definition eventCursorEncodedSize :: nat where "eventCursorEncodedSize = 8 + 32 + 4"

definition errInvalidEventAddress :: err where "errInvalidEventAddress = Foreign ''invalid event address''"
definition errInvalidEventLimit :: err where "errInvalidEventLimit = Foreign ''invalid event page limit''"
definition errInvalidEventCursor :: err where "errInvalidEventCursor = Foreign ''invalid event cursor''"

record eventResponse =
  ers_BlockNumber :: u64
  ers_BlockHash :: string
  ers_TransactionHash :: string
  ers_TransactionIndex :: u32
  ers_LogIndex :: u32
  ers_Address :: string
  ers_Topics :: "string list"
  ers_Data :: string

record eventPageResponse =
  eprs_Events :: "eventResponse list"
  eprs_NextCursor :: "string option"

definition newEventResponse :: "GethText \<Rightarrow> Event \<Rightarrow> eventResponse" where
  "newEventResponse g event =
     \<lparr>ers_BlockNumber = e_BlockNumber event, ers_BlockHash = gt_HashHex g (e_BlockHash event),
      ers_TransactionHash = gt_HashHex g (e_TransactionHash event),
      ers_TransactionIndex = e_TransactionIndex event, ers_LogIndex = e_LogIndex event,
      ers_Address = gt_AddressHex g (e_Address event), ers_Topics = map (gt_HashHex g) (e_Topics event),
      ers_Data = gt_HexEncode g (bytes_of (e_Data event))\<rparr>"

definition encodeEventCursor :: "EventCursor \<Rightarrow> string" where
  "encodeEventCursor cursor =
     b64_encode (be_bytes 8 (ec_BlockNumber cursor) @ be_bytes 32 (ec_BlockHash cursor) @
       be_bytes 4 (ec_LogIndex cursor))"

definition newEventPageResponse :: "GethText \<Rightarrow> EventPage \<Rightarrow> eventPageResponse" where
  "newEventPageResponse g page =
     \<lparr>eprs_Events = map (newEventResponse g) (p_Events page),
      eprs_NextCursor = map_option encodeEventCursor (p_NextCursor page)\<rparr>"

definition json_event :: "eventResponse \<Rightarrow> json" where
  "json_event r = JObject
     [(''block_number'', json_word (ers_BlockNumber r)), (''block_hash'', JString (ers_BlockHash r)),
      (''transaction_hash'', JString (ers_TransactionHash r)),
      (''transaction_index'', json_word (ers_TransactionIndex r)), (''log_index'', json_word (ers_LogIndex r)),
      (''address'', JString (ers_Address r)), (''topics'', JArray (map JString (ers_Topics r))),
      (''data'', JString (ers_Data r))]"

definition json_event_page :: "eventPageResponse \<Rightarrow> json" where
  "json_event_page r = JObject
     [(''events'', JArray (map json_event (eprs_Events r))), (''next_cursor'', optionalString (eprs_NextCursor r))]"

definition has_0x :: "string \<Rightarrow> bool" where
  "has_0x v \<longleftrightarrow> take 2 v = ''0x''"

definition parseEventAddress :: "GethText \<Rightarrow> string \<Rightarrow> err + address" where
  "parseEventAddress g v =
     (if length v \<noteq> 2 + 2 * 20 \<or> \<not> has_0x v \<or> \<not> gt_IsHexAddress g v then Inl errInvalidEventAddress
      else Inr (gt_HexToAddress g v))"

definition parseEventLimit :: "(string \<rightharpoonup> string list) \<Rightarrow> err + u32" where
  "parseEventLimit parameters =
     (case parameters ''limit'' of
        None \<Rightarrow> Inr defaultEventPageSize
      | Some vs \<Rightarrow>
          if length vs \<noteq> 1 then Inl errInvalidEventLimit
          else
            (case parseBlockNumber (vs ! 0) of
               Inl e \<Rightarrow> Inl errInvalidEventLimit
             | Inr limit \<Rightarrow>
                 if limit = 0 \<or> limit > ucast MaxEventPageSize then Inl errInvalidEventLimit
                 else Inr (ucast limit)))"

definition parseEventCursor :: "GethText \<Rightarrow> (string \<rightharpoonup> string list) \<Rightarrow> err + EventCursor option" where
  "parseEventCursor g parameters =
     (case parameters ''cursor'' of
        None \<Rightarrow> Inr None
      | Some vs \<Rightarrow>
          if length vs \<noteq> 1 then Inl errInvalidEventCursor
          else if vs ! 0 = '''' then Inl errInvalidEventCursor
          else
            (case b64_decode (vs ! 0) of
               None \<Rightarrow> Inl errInvalidEventCursor
             | Some decoded \<Rightarrow>
                 if length decoded \<noteq> eventCursorEncodedSize \<or> b64_encode decoded \<noteq> vs ! 0
                 then Inl errInvalidEventCursor
                 else Inr (Some \<lparr>ec_BlockNumber = be_word (take 8 decoded),
                        ec_BlockHash = gt_BytesToHash g (take 32 (drop 8 decoded)),
                        ec_LogIndex = be_word (drop (8 + 32) decoded)\<rparr>)))"

definition eventsByAddress :: "('x, 's) Server \<Rightarrow> 'x Request \<Rightarrow> 's \<Rightarrow> ResponseWriter \<Rightarrow> ResponseWriter" where
  "eventsByAddress sv request s writer =
     (case parseEventAddress (sv_Text sv) (rq_URLParam request ''address'') of
        Inl e \<Rightarrow> writeError request 400 ''invalid_address'' ''address must be a 0x-prefixed 20-byte hexadecimal value'' writer
      | Inr a \<Rightarrow>
     (case parseEventLimit (rq_Query request) of
        Inl e \<Rightarrow> writeError request 400 ''invalid_limit'' ''limit must be an integer from 1 to 1000'' writer
      | Inr limit \<Rightarrow>
     (case parseEventCursor (sv_Text sv) (rq_Query request) of
        Inl e \<Rightarrow> writeError request 400 ''invalid_cursor'' ''cursor is invalid'' writer
      | Inr cursor \<Rightarrow>
     (case qu_Events (sv_QueryService sv) (fst (rq_Context request))
             \<lparr>q_Address = a, q_Limit = limit, q_Before = cursor\<rparr> s of
        Inr page \<Rightarrow> writeJSON request 200 (json_event_page (newEventPageResponse (sv_Text sv) page)) writer
      | Inl e \<Rightarrow>
          if errors_Is e ServiceErrInvalidQuery
          then writeError request 400 ''invalid_event_query'' ''event query is invalid'' writer
          else if errors_Is e ServiceErrStaleCursor
          then writeError request 409 ''stale_cursor'' ''cursor is no longer canonical; restart pagination'' writer
          else internal_error request
            (log_error [(''error'', LErr e), (''request_id'', LStr (rq_ReqID request)),
               (''address'', LStr (gt_AddressHex (sv_Text sv) a))] ''query events by address'' writer)))))"

section \<open>transactions.go\<close>

definition errInvalidTransactionHash :: err where "errInvalidTransactionHash = Foreign ''invalid transaction hash''"
definition errMissingTransactionValue :: err where "errMissingTransactionValue = Foreign ''transaction value is missing''"

record transactionResponse =
  trs_Hash :: string
  trs_BlockNumber :: u64
  trs_BlockHash :: string
  trs_Index :: u32
  trs_Type :: u8
  trs_Nonce :: u64
  trs_Sender :: string
  trs_Recipient :: "string option"
  trs_ValueWei :: string
  trs_GasLimit :: u64
  trs_GasPriceWei :: "string option"
  trs_MaxFeePerGasWei :: "string option"
  trs_MaxPriorityFeePerGasWei :: "string option"
  trs_Input :: string
  trs_Events :: "eventResponse list"

definition parseTransactionHash :: "GethText \<Rightarrow> string \<Rightarrow> err + hash" where
  "parseTransactionHash g v =
     (if length v \<noteq> 2 + 2 * 32 \<or> \<not> has_0x v \<or> \<not> gt_IsHexHash g v then Inl errInvalidTransactionHash
      else Inr (gt_HexToHash g v))"

definition newTransactionResponse :: "GethText \<Rightarrow> TransactionResult \<Rightarrow> err + transactionResponse" where
  "newTransactionResponse g result =
     (let t = tr_Transaction result in
      case t_Value t of
        None \<Rightarrow> Inl errMissingTransactionValue
      | Some amount \<Rightarrow>
          Inr \<lparr>trs_Hash = gt_HashHex g (t_Hash t), trs_BlockNumber = t_BlockNumber t,
               trs_BlockHash = gt_HashHex g (t_BlockHash t), trs_Index = t_Index t, trs_Type = t_Type t,
               trs_Nonce = t_Nonce t, trs_Sender = gt_AddressHex g (t_Sender t),
               trs_Recipient = optionalAddressString g (t_Recipient t), trs_ValueWei = show_int amount,
               trs_GasLimit = t_GasLimit t, trs_GasPriceWei = optionalBigIntString (t_GasPrice t),
               trs_MaxFeePerGasWei = optionalBigIntString (t_MaxFeePerGas t),
               trs_MaxPriorityFeePerGasWei = optionalBigIntString (t_MaxPriorityFeePerGas t),
               trs_Input = gt_HexEncode g (bytes_of (t_Input t)),
               trs_Events = map (newEventResponse g) (tr_Events result)\<rparr>)"

definition json_transaction :: "transactionResponse \<Rightarrow> json" where
  "json_transaction r = JObject
     [(''hash'', JString (trs_Hash r)), (''block_number'', json_word (trs_BlockNumber r)),
      (''block_hash'', JString (trs_BlockHash r)), (''index'', json_word (trs_Index r)),
      (''type'', json_word (trs_Type r)), (''nonce'', json_word (trs_Nonce r)),
      (''sender'', JString (trs_Sender r)), (''recipient'', optionalString (trs_Recipient r)),
      (''value_wei'', JString (trs_ValueWei r)), (''gas_limit'', json_word (trs_GasLimit r)),
      (''gas_price_wei'', optionalString (trs_GasPriceWei r)),
      (''max_fee_per_gas_wei'', optionalString (trs_MaxFeePerGasWei r)),
      (''max_priority_fee_per_gas_wei'', optionalString (trs_MaxPriorityFeePerGasWei r)),
      (''input'', JString (trs_Input r)), (''events'', JArray (map json_event (trs_Events r)))]"

definition logTransactionError :: "('x, 's) Server \<Rightarrow> 'x Request \<Rightarrow> hash \<Rightarrow> err \<Rightarrow> ResponseWriter \<Rightarrow> ResponseWriter" where
  "logTransactionError sv request h e writer =
     log_error [(''error'', LErr e), (''request_id'', LStr (rq_ReqID request)),
       (''transaction_hash'', LStr (gt_HashHex (sv_Text sv) h))] ''query transaction'' writer"

definition transactionByHash :: "('x, 's) Server \<Rightarrow> 'x Request \<Rightarrow> 's \<Rightarrow> ResponseWriter \<Rightarrow> ResponseWriter" where
  "transactionByHash sv request s writer =
     (case parseTransactionHash (sv_Text sv) (rq_URLParam request ''hash'') of
        Inl e \<Rightarrow> writeError request 400 ''invalid_transaction_hash''
          ''transaction hash must be a 0x-prefixed 32-byte hexadecimal value'' writer
      | Inr h \<Rightarrow>
          (case qu_Transaction (sv_QueryService sv) (fst (rq_Context request)) h s of
             Inl e \<Rightarrow>
               if errors_Is e ServiceErrNotFound
               then writeError request 404 ''transaction_not_found'' ''transaction was not found'' writer
               else internal_error request (logTransactionError sv request h e writer)
           | Inr result \<Rightarrow>
               (case newTransactionResponse (sv_Text sv) result of
                  Inl e \<Rightarrow> internal_error request (logTransactionError sv request h e writer)
                | Inr response \<Rightarrow> writeJSON request 200 (json_transaction response) writer)))"

section \<open>health.go\<close>

definition healthResponse :: "string \<Rightarrow> json" where
  "healthResponse status = JObject [(''status'', JString status)]"

definition readinessResponse :: "string \<Rightarrow> u64 \<Rightarrow> json" where
  "readinessResponse status number =
     JObject [(''status'', JString status), (''last_indexed_block'', json_word number)]"

definition health :: "'x Request \<Rightarrow> ResponseWriter \<Rightarrow> ResponseWriter" where
  "health request writer = writeJSON request 200 (healthResponse ''ok'') writer"

definition readiness :: "('x, 's) Server \<Rightarrow> 'x Request \<Rightarrow> 's \<Rightarrow> ResponseWriter \<Rightarrow> ResponseWriter" where
  "readiness sv request s writer =
     (case he_Ready (sv_HealthService sv) (fst (rq_Context request)) (snd (rq_Context request)) s of
        Inl e \<Rightarrow>
          writeJSON request 503 (healthResponse ''not_ready'')
            (if \<not> errors_Is e ServiceErrNotReady
             then log_error [(''error'', LErr e), (''request_id'', LStr (rq_ReqID request))] ''readiness check failed'' writer
             else writer)
      | Inr tip \<Rightarrow> writeJSON request 200 (readinessResponse ''ready'' (tip_Number tip)) writer)"

section \<open>router.go\<close>

datatype endpoint = HealthzRoute | ReadyzRoute | BlockRoute | TransactionRoute | EventsRoute

definition routes :: "(string \<times> endpoint) list" where
  "routes = [(''/healthz'', HealthzRoute), (''/readyz'', ReadyzRoute), (''/v1/blocks/{number}'', BlockRoute),
     (''/v1/transactions/{hash}'', TransactionRoute), (''/v1/addresses/{address}/events'', EventsRoute)]"

text \<open>The handler \<open>NewServer\<close> registers for a route, on a fresh response.\<close>

definition serve :: "('x, 's) Server \<Rightarrow> endpoint \<Rightarrow> 'x Request \<Rightarrow> 's \<Rightarrow> ResponseWriter" where
  "serve sv route request s =
     (case route of
        HealthzRoute \<Rightarrow> health request fresh_writer
      | ReadyzRoute \<Rightarrow> readiness sv request s fresh_writer
      | BlockRoute \<Rightarrow> blockByNumber sv request s fresh_writer
      | TransactionRoute \<Rightarrow> transactionByHash sv request s fresh_writer
      | EventsRoute \<Rightarrow> eventsByAddress sv request s fresh_writer)"

end
