(* ===== verification/Postgres_Rows.thy ===== *)
theory Postgres_Rows
  imports Server
begin

text \<open>
  The PostgreSQL schema of \<open>migrations/000001_initial.up.sql\<close> and the conversions between domain values and
  rows (\<open>postgres_scan.go\<close> and the helpers of \<open>postgres_indexer.go\<close>). A table is the list of its rows;
  a \<open>bigint\<close>, \<open>integer\<close> or \<open>smallint\<close> is an \<open>int\<close>, a \<open>bytea\<close> a byte list, a nullable column an
  option, \<open>numeric(78, 0)\<close> an \<open>int\<close> and \<open>timestamptz\<close> its microseconds. How \<open>pgx\<close> presents a numeric
  column (mantissa and exponent) is a parameter. A Go panic is the error of its message.
\<close>

section \<open>Fallible steps\<close>

definition bind :: "err + 'a \<Rightarrow> ('a \<Rightarrow> err + 'b) \<Rightarrow> err + 'b" where
  "bind r f = (case r of Inl e \<Rightarrow> Inl e | Inr a \<Rightarrow> f a)"

definition wrap :: "string \<Rightarrow> err + 'a \<Rightarrow> err + 'a" where
  "wrap msg r = map_sum (\<lambda>e. Errorf msg [e]) id r"

lemma bind_simps [simp]:
  "bind (Inr a) f = f a" "bind (Inl e) f = Inl e"
  "bind r f = Inr b \<longleftrightarrow> (\<exists>a. r = Inr a \<and> f a = Inr b)"
  by (cases r; auto simp: bind_def)+

lemma wrap_simps [simp]:
  "wrap msg (Inr a) = Inr a" "wrap msg (Inl e) = Inl (Errorf msg [e])" "wrap msg r = Inr a \<longleftrightarrow> r = Inr a"
  by (cases r; auto simp: wrap_def)+

definition check :: "error \<Rightarrow> err + unit" where
  "check e = (case e of None \<Rightarrow> Inr () | Some x \<Rightarrow> Inl x)"

lemma check_Inr [simp]: "check e = Inr u \<longleftrightarrow> e = None"
  by (auto simp: check_def split: option.splits)

section \<open>Tables\<close>

record sql_block =
  sb_number :: int
  sb_hash :: bytes
  sb_parent_hash :: bytes
  sb_block_timestamp :: int
  sb_gas_limit :: int
  sb_gas_used :: int
  sb_base_fee :: "int option"
  sb_transaction_count :: int
  sb_indexed_at :: int

record sql_transaction =
  sx_hash :: bytes
  sx_block_number :: int
  sx_transaction_index :: int
  sx_transaction_type :: int
  sx_nonce :: int
  sx_sender :: bytes
  sx_recipient :: "bytes option"
  sx_value :: "int option"
  sx_gas_limit :: int
  sx_gas_price :: "int option"
  sx_max_fee :: "int option"
  sx_max_priority_fee :: "int option"
  sx_input :: "bytes option"

record sql_event =
  sl_block_number :: int
  sl_transaction_hash :: bytes
  sl_transaction_index :: int
  sl_log_index :: int
  sl_emitter :: bytes
  sl_topics :: "bytes list"
  sl_data :: "bytes option"

record sql_sync_state =
  ss_chain_id :: int
  ss_last_number :: "int option"
  ss_last_hash :: "bytes option"
  ss_last_sync_at :: int

record Tables =
  d_blocks :: "sql_block list"
  d_transactions :: "sql_transaction list"
  d_events :: "sql_event list"
  d_sync_state :: "sql_sync_state list"

definition migrated :: Tables where
  "migrated = \<lparr>d_blocks = [], d_transactions = [], d_events = [], d_sync_state = []\<rparr>"

text \<open>The \<open>CHECK\<close> and \<open>NOT NULL\<close> constraints of a row.\<close>

definition non_negative :: "int option \<Rightarrow> bool" where
  "non_negative v = (case v of None \<Rightarrow> True | Some i \<Rightarrow> 0 \<le> i)"

text \<open>A \<open>numeric(78, 0)\<close> column with its \<open>CHECK\<close>.\<close>

definition wei_column :: "int option \<Rightarrow> bool" where
  "wei_column v = (case v of None \<Rightarrow> True | Some i \<Rightarrow> 0 \<le> i \<and> i < 10 ^ 78)"

definition check_block :: "sql_block \<Rightarrow> bool" where
  "check_block r \<longleftrightarrow> 0 \<le> sb_number r \<and> length (sb_hash r) = 32 \<and> length (sb_parent_hash r) = 32 \<and>
     0 \<le> sb_block_timestamp r \<and> 0 \<le> sb_gas_limit r \<and> 0 \<le> sb_gas_used r \<and> wei_column (sb_base_fee r) \<and>
     0 \<le> sb_transaction_count r"

definition check_transaction :: "sql_transaction \<Rightarrow> bool" where
  "check_transaction r \<longleftrightarrow> length (sx_hash r) = 32 \<and> 0 \<le> sx_transaction_index r \<and>
     0 \<le> sx_transaction_type r \<and> sx_transaction_type r \<le> 255 \<and> 0 \<le> sx_nonce r \<and> length (sx_sender r) = 20 \<and>
     (case sx_recipient r of None \<Rightarrow> True | Some a \<Rightarrow> length a = 20) \<and>
     sx_value r \<noteq> None \<and> wei_column (sx_value r) \<and> 0 \<le> sx_gas_limit r \<and> wei_column (sx_gas_price r) \<and>
     wei_column (sx_max_fee r) \<and> wei_column (sx_max_priority_fee r) \<and> sx_input r \<noteq> None"

definition check_event :: "sql_event \<Rightarrow> bool" where
  "check_event r \<longleftrightarrow> 0 \<le> sl_transaction_index r \<and> 0 \<le> sl_log_index r \<and> length (sl_emitter r) = 20 \<and>
     length (sl_topics r) \<le> 4 \<and> sl_data r \<noteq> None"

definition check_sync_state :: "sql_sync_state \<Rightarrow> bool" where
  "check_sync_state r \<longleftrightarrow> 0 < ss_chain_id r \<and> non_negative (ss_last_number r) \<and>
     (case ss_last_hash r of None \<Rightarrow> True | Some h \<Rightarrow> length h = 32) \<and>
     (ss_last_number r = None \<longleftrightarrow> ss_last_hash r = None)"

section \<open>Statements\<close>

definition violation :: err where
  "violation = Foreign ''constraint violation''"

text \<open>\<open>INSERT\<close>: the row's own constraints, then primary keys, unique columns and references.\<close>

definition insert_block :: "sql_block \<Rightarrow> Tables \<Rightarrow> err + Tables" where
  "insert_block r db =
     (if check_block r \<and> sb_number r \<notin> sb_number ` set (d_blocks db) \<and> sb_hash r \<notin> sb_hash ` set (d_blocks db)
      then Inr (db\<lparr>d_blocks := d_blocks db @ [r]\<rparr>) else Inl violation)"

definition insert_transaction :: "sql_transaction \<Rightarrow> Tables \<Rightarrow> err + Tables" where
  "insert_transaction r db =
     (if check_transaction r \<and> sx_hash r \<notin> sx_hash ` set (d_transactions db) \<and>
         sx_block_number r \<in> sb_number ` set (d_blocks db) \<and>
         (sx_block_number r, sx_transaction_index r) \<notin>
           (\<lambda>t. (sx_block_number t, sx_transaction_index t)) ` set (d_transactions db)
      then Inr (db\<lparr>d_transactions := d_transactions db @ [r]\<rparr>) else Inl violation)"

definition insert_event :: "sql_event \<Rightarrow> Tables \<Rightarrow> err + Tables" where
  "insert_event r db =
     (if check_event r \<and> sl_block_number r \<in> sb_number ` set (d_blocks db) \<and>
         sl_transaction_hash r \<in> sx_hash ` set (d_transactions db) \<and>
         (sl_block_number r, sl_log_index r) \<notin> (\<lambda>e. (sl_block_number e, sl_log_index e)) ` set (d_events db)
      then Inr (db\<lparr>d_events := d_events db @ [r]\<rparr>) else Inl violation)"

text \<open>\<open>DELETE FROM blocks\<close> with what \<open>ON DELETE CASCADE\<close> removes.\<close>

definition delete_blocks :: "(int \<Rightarrow> bool) \<Rightarrow> Tables \<Rightarrow> Tables" where
  "delete_blocks gone db =
     (let txs = filter (\<lambda>t. \<not> gone (sx_block_number t)) (d_transactions db) in
      db\<lparr>d_blocks := filter (\<lambda>b. \<not> gone (sb_number b)) (d_blocks db),
         d_transactions := txs,
         d_events := filter (\<lambda>e. \<not> gone (sl_block_number e) \<and> sl_transaction_hash e \<in> sx_hash ` set txs) (d_events db)\<rparr>)"

definition deleteCanonicalRangeQuery :: "int \<Rightarrow> int \<Rightarrow> Tables \<Rightarrow> Tables" where
  "deleteCanonicalRangeQuery replaceFrom retainFrom db =
     delete_blocks (\<lambda>number. number \<ge> replaceFrom \<or> number < retainFrom) db"

text \<open>\<open>INSERT INTO sync_state ... ON CONFLICT (chain_id) DO UPDATE\<close>.\<close>

definition upsertSyncStateQuery :: "sql_sync_state \<Rightarrow> Tables \<Rightarrow> err + Tables" where
  "upsertSyncStateQuery r db =
     (if check_sync_state r
      then Inr (db\<lparr>d_sync_state :=
             (if ss_chain_id r \<in> ss_chain_id ` set (d_sync_state db)
              then map (\<lambda>t. if ss_chain_id t = ss_chain_id r then r else t) (d_sync_state db)
              else d_sync_state db @ [r])\<rparr>)
      else Inl violation)"

text \<open>The reads: the first row of a sorted table, the row of a key.\<close>

definition higher :: "sql_block \<Rightarrow> sql_block \<Rightarrow> bool" where
  "higher a b \<longleftrightarrow> sb_number a > sb_number b"

definition canonicalTipQuery :: "Tables \<Rightarrow> sql_block option" where
  "canonicalTipQuery db = (case sort_Slice higher (d_blocks db) of [] \<Rightarrow> None | r # rs \<Rightarrow> Some r)"

definition canonicalHashQuery :: "int \<Rightarrow> Tables \<Rightarrow> bytes option" where
  "canonicalHashQuery number db = map_option sb_hash (find (\<lambda>r. sb_number r = number) (d_blocks db))"

definition other_chain :: "int \<Rightarrow> Tables \<Rightarrow> int option" where
  "other_chain chainID db = map_option ss_chain_id (find (\<lambda>r. ss_chain_id r \<noteq> chainID) (d_sync_state db))"

section \<open>Go values into columns\<close>

definition panic :: "string \<Rightarrow> err" where
  "panic msg = Foreign (''panic: '' @ msg)"

definition postgresInt64 :: "u64 \<Rightarrow> err + int" where
  "postgresInt64 v = (if uint v > MaxInt64 then Inl (panic ''store: uint64 exceeds PostgreSQL bigint'') else Inr (uint v))"

definition postgresInt32 :: "u32 \<Rightarrow> err + int" where
  "postgresInt32 v = (if uint v > MaxInt32 then Inl (panic ''store: uint32 exceeds PostgreSQL integer'') else Inr (uint v))"

definition postgresCount :: "int \<Rightarrow> err + int" where
  "postgresCount v =
     (if v < 0 \<or> v > MaxInt32 then Inl (panic ''store: int exceeds non-negative PostgreSQL integer'') else Inr v)"

record Numeric =
  nm_Int :: "int option"
  nm_Exp :: int
  nm_NaN :: bool
  nm_Finite :: bool
  nm_Valid :: bool

definition postgresNumeric :: "int option \<Rightarrow> Numeric option" where
  "postgresNumeric v =
     (case v of None \<Rightarrow> None
      | Some i \<Rightarrow> Some \<lparr>nm_Int = Some i, nm_Exp = 0, nm_NaN = False, nm_Finite = True, nm_Valid = True\<rparr>)"

text \<open>The column of a numeric argument: mantissa times power of ten; with exponent 0 it is the mantissa.\<close>

definition numeric_column :: "Numeric option \<Rightarrow> int option" where
  "numeric_column n = (case n of None \<Rightarrow> None | Some x \<Rightarrow> if nm_Valid x then nm_Int x else None)"

definition postgresAddress :: "address option \<Rightarrow> bytes option" where
  "postgresAddress a = (case a of None \<Rightarrow> None | Some x \<Rightarrow> Some (be_bytes 20 x))"

definition timestamptz :: "Time \<Rightarrow> int" where
  "timestamptz t = t_unixNano t div 1000"

definition block_row :: "Block \<Rightarrow> err + sql_block" where
  "block_row b =
     bind (postgresInt64 (b_Number b)) (\<lambda>number.
     bind (postgresInt64 (b_Timestamp b)) (\<lambda>timestamp.
     bind (postgresInt64 (b_GasLimit b)) (\<lambda>gasLimit.
     bind (postgresInt64 (b_GasUsed b)) (\<lambda>gasUsed.
     bind (postgresCount (b_TransactionCount b)) (\<lambda>count.
       Inr \<lparr>sb_number = number, sb_hash = be_bytes 32 (b_Hash b), sb_parent_hash = be_bytes 32 (b_ParentHash b),
            sb_block_timestamp = timestamp, sb_gas_limit = gasLimit, sb_gas_used = gasUsed,
            sb_base_fee = numeric_column (postgresNumeric (b_BaseFeePerGas b)),
            sb_transaction_count = count, sb_indexed_at = timestamptz (b_IndexedAt b)\<rparr>)))))"

definition transaction_row :: "Transaction \<Rightarrow> err + sql_transaction" where
  "transaction_row t =
     bind (postgresInt64 (t_BlockNumber t)) (\<lambda>blockNumber.
     bind (postgresInt32 (t_Index t)) (\<lambda>index.
     bind (postgresInt64 (t_Nonce t)) (\<lambda>nonce.
     bind (postgresInt64 (t_GasLimit t)) (\<lambda>gasLimit.
       Inr \<lparr>sx_hash = be_bytes 32 (t_Hash t), sx_block_number = blockNumber, sx_transaction_index = index,
            sx_transaction_type = uint (t_Type t), sx_nonce = nonce, sx_sender = be_bytes 20 (t_Sender t),
            sx_recipient = postgresAddress (t_Recipient t),
            sx_value = numeric_column (postgresNumeric (t_Value t)), sx_gas_limit = gasLimit,
            sx_gas_price = numeric_column (postgresNumeric (t_GasPrice t)),
            sx_max_fee = numeric_column (postgresNumeric (t_MaxFeePerGas t)),
            sx_max_priority_fee = numeric_column (postgresNumeric (t_MaxPriorityFeePerGas t)),
            sx_input = t_Input t\<rparr>))))"

definition event_row :: "Event \<Rightarrow> err + sql_event" where
  "event_row e =
     bind (postgresInt64 (e_BlockNumber e)) (\<lambda>blockNumber.
     bind (postgresInt32 (e_TransactionIndex e)) (\<lambda>transactionIndex.
     bind (postgresInt32 (e_LogIndex e)) (\<lambda>logIndex.
       Inr \<lparr>sl_block_number = blockNumber, sl_transaction_hash = be_bytes 32 (e_TransactionHash e),
            sl_transaction_index = transactionIndex, sl_log_index = logIndex,
            sl_emitter = be_bytes 20 (e_Address e), sl_topics = map (be_bytes 32) (e_Topics e),
            sl_data = e_Data e\<rparr>)))"

section \<open>Columns into Go values\<close>

text \<open>
  What the store uses of go-ethereum and \<open>pgx\<close> to read columns: \<open>BytesToHash\<close>, \<open>BytesToAddress\<close> and
  how a numeric column is scanned.
\<close>

record Drivers =
  dr_BytesToHash :: "bytes \<Rightarrow> hash"
  dr_BytesToAddress :: "bytes \<Rightarrow> address"
  dr_ScanNumeric :: "int \<Rightarrow> Numeric"

definition null_numeric :: Numeric where
  "null_numeric = \<lparr>nm_Int = None, nm_Exp = 0, nm_NaN = False, nm_Finite = True, nm_Valid = False\<rparr>"

definition scan_numeric :: "Drivers \<Rightarrow> int option \<Rightarrow> Numeric" where
  "scan_numeric d v = (case v of None \<Rightarrow> null_numeric | Some i \<Rightarrow> dr_ScanNumeric d i)"

definition inconsistent_data :: "string \<Rightarrow> err" where
  "inconsistent_data msg = Errorf msg [Sentinel ErrInconsistentData]"

definition decodeHash :: "Drivers \<Rightarrow> bytes \<Rightarrow> err + hash" where
  "decodeHash d v = (if length v \<noteq> 32 then Inl (inconsistent_data ''%w: hash has %d bytes'') else Inr (dr_BytesToHash d v))"

definition decodePostgresUint64 :: "int \<Rightarrow> err + u64" where
  "decodePostgresUint64 v =
     (if v < 0 then Inl (inconsistent_data ''%w: PostgreSQL bigint is negative'') else Inr (word_of_int v))"

definition decodePostgresUint32 :: "int \<Rightarrow> err + u32" where
  "decodePostgresUint32 v =
     (if v < 0 then Inl (inconsistent_data ''%w: PostgreSQL integer is negative'') else Inr (word_of_int v))"

definition decodePostgresUint8 :: "int \<Rightarrow> err + u8" where
  "decodePostgresUint8 v =
     (if v < 0 \<or> v > 255 then Inl (inconsistent_data ''%w: PostgreSQL smallint is outside uint8'') else Inr (word_of_int v))"

definition decodePostgresNumeric :: "string \<Rightarrow> Numeric \<Rightarrow> bool \<Rightarrow> err + int option" where
  "decodePostgresNumeric name v required =
     (if \<not> nm_Valid v
      then if required then Inl (inconsistent_data ''%w: %s is null'') else Inr None
      else if nm_NaN v \<or> \<not> nm_Finite v then Inl (inconsistent_data ''%w: %s is not finite'')
      else if nm_Exp v < -78 \<or> nm_Exp v > 78 then Inl (inconsistent_data ''%w: %s has unsupported exponent %d'')
      else
        (let integer = (case nm_Int v of None \<Rightarrow> 0 | Some i \<Rightarrow> i);
             power = 10 ^ nat \<bar>nm_Exp v\<bar>;
             exact = (nm_Exp v < 0 \<longrightarrow> \<bar>integer\<bar> mod power = 0);
             scaled = (if nm_Exp v > 0 then integer * power
                       else if nm_Exp v < 0 then sgn integer * (\<bar>integer\<bar> div power) else integer)
         in if \<not> exact then Inl (inconsistent_data ''%w: %s is not an integer'')
            else if scaled < 0 \<or> \<bar>scaled\<bar> \<ge> 2 ^ 256 then Inl (inconsistent_data ''%w: %s is outside uint256'')
            else Inr (Some scaled)))"

definition decodeAddress :: "Drivers \<Rightarrow> bytes \<Rightarrow> err + address" where
  "decodeAddress d v =
     (if length v \<noteq> 20 then Inl (inconsistent_data ''%w: address has %d bytes'') else Inr (dr_BytesToAddress d v))"

definition decodeOptionalAddress :: "Drivers \<Rightarrow> bytes option \<Rightarrow> err + address option" where
  "decodeOptionalAddress d v =
     (case v of None \<Rightarrow> Inr None | Some bs \<Rightarrow> bind (decodeAddress d bs) (\<lambda>a. Inr (Some a)))"

fun decode_all :: "('a \<Rightarrow> err + 'b) \<Rightarrow> string \<Rightarrow> 'a list \<Rightarrow> err + 'b list" where
  "decode_all f msg [] = Inr []"
| "decode_all f msg (x # xs) = bind (wrap msg (f x)) (\<lambda>y. bind (decode_all f msg xs) (\<lambda>ys. Inr (y # ys)))"

definition decodeTopics :: "Drivers \<Rightarrow> bytes list \<Rightarrow> err + hash list" where
  "decodeTopics d vs =
     (if length vs > 4 then Inl (inconsistent_data ''%w: event has %d topics'')
      else decode_all (decodeHash d) ''decode event topic %d: %w'' vs)"

section \<open>Row structs\<close>

record postgresBlockRow =
  br_number :: int
  br_hash :: bytes
  br_parentHash :: bytes
  br_timestamp :: int
  br_gasLimit :: int
  br_gasUsed :: int
  br_baseFeePerGas :: Numeric
  br_transactionCount :: int
  br_indexedAt :: Time

record postgresTransactionRow =
  tr_hash :: bytes
  tr_blockNumber :: int
  tr_blockHash :: bytes
  tr_index :: int
  tr_typeID :: int
  tr_nonce :: int
  tr_sender :: bytes
  tr_recipient :: "bytes option"
  tr_value :: Numeric
  tr_gasLimit :: int
  tr_gasPrice :: Numeric
  tr_maxFeePerGas :: Numeric
  tr_maxPriorityFeePerGas :: Numeric
  tr_input :: "bytes option"

record postgresEventRow =
  er_blockNumber :: int
  er_blockHash :: bytes
  er_transactionHash :: bytes
  er_transactionIndex :: int
  er_logIndex :: int
  er_address :: bytes
  er_topics :: "bytes list"
  er_data :: "bytes option"

text \<open>
  \<open>Scan\<close> with \<open>scanTargets\<close> puts the columns a query selects, in their order, into the fields. A scanned
  \<open>timestamptz\<close> is in the local time zone.
\<close>

definition scan_block :: "Drivers \<Rightarrow> sql_block \<Rightarrow> postgresBlockRow" where
  "scan_block d b =
     \<lparr>br_number = sb_number b, br_hash = sb_hash b, br_parentHash = sb_parent_hash b,
      br_timestamp = sb_block_timestamp b, br_gasLimit = sb_gas_limit b, br_gasUsed = sb_gas_used b,
      br_baseFeePerGas = scan_numeric d (sb_base_fee b), br_transactionCount = sb_transaction_count b,
      br_indexedAt = \<lparr>t_unixNano = sb_indexed_at b * 1000, t_location = Local\<rparr>\<rparr>"

definition scan_transaction :: "Drivers \<Rightarrow> sql_transaction \<Rightarrow> sql_block \<Rightarrow> postgresTransactionRow" where
  "scan_transaction d t b =
     \<lparr>tr_hash = sx_hash t, tr_blockNumber = sx_block_number t, tr_blockHash = sb_hash b,
      tr_index = sx_transaction_index t, tr_typeID = sx_transaction_type t, tr_nonce = sx_nonce t,
      tr_sender = sx_sender t, tr_recipient = sx_recipient t, tr_value = scan_numeric d (sx_value t),
      tr_gasLimit = sx_gas_limit t, tr_gasPrice = scan_numeric d (sx_gas_price t),
      tr_maxFeePerGas = scan_numeric d (sx_max_fee t), tr_maxPriorityFeePerGas = scan_numeric d (sx_max_priority_fee t),
      tr_input = sx_input t\<rparr>"

definition scan_event :: "sql_event \<Rightarrow> sql_block \<Rightarrow> postgresEventRow" where
  "scan_event e b =
     \<lparr>er_blockNumber = sl_block_number e, er_blockHash = sb_hash b, er_transactionHash = sl_transaction_hash e,
      er_transactionIndex = sl_transaction_index e, er_logIndex = sl_log_index e, er_address = sl_emitter e,
      er_topics = sl_topics e, er_data = sl_data e\<rparr>"

definition decode_block :: "Drivers \<Rightarrow> postgresBlockRow \<Rightarrow> err + Block" where
  "decode_block d row =
     bind (wrap ''decode block number: %w'' (decodePostgresUint64 (br_number row))) (\<lambda>number.
     bind (wrap ''decode block hash: %w'' (decodeHash d (br_hash row))) (\<lambda>h.
     bind (wrap ''decode block parent hash: %w'' (decodeHash d (br_parentHash row))) (\<lambda>parentHash.
     bind (wrap ''decode block timestamp: %w'' (decodePostgresUint64 (br_timestamp row))) (\<lambda>timestamp.
     bind (wrap ''decode block gas limit: %w'' (decodePostgresUint64 (br_gasLimit row))) (\<lambda>gasLimit.
     bind (wrap ''decode block gas used: %w'' (decodePostgresUint64 (br_gasUsed row))) (\<lambda>gasUsed.
     bind (decodePostgresNumeric ''block base fee'' (br_baseFeePerGas row) False) (\<lambda>baseFee.
       if br_transactionCount row < 0 then Inl (inconsistent_data ''%w: block transaction count is negative'')
       else Inr \<lparr>b_Number = number, b_Hash = h, b_ParentHash = parentHash, b_Timestamp = timestamp,
                 b_GasLimit = gasLimit, b_GasUsed = gasUsed, b_BaseFeePerGas = baseFee,
                 b_TransactionCount = br_transactionCount row,
                 b_IndexedAt = br_indexedAt row\<rparr>)))))))"

definition decode_transaction :: "Drivers \<Rightarrow> postgresTransactionRow \<Rightarrow> err + Transaction" where
  "decode_transaction d row =
     bind (wrap ''decode transaction hash: %w'' (decodeHash d (tr_hash row))) (\<lambda>h.
     bind (wrap ''decode transaction block number: %w'' (decodePostgresUint64 (tr_blockNumber row))) (\<lambda>blockNumber.
     bind (wrap ''decode transaction block hash: %w'' (decodeHash d (tr_blockHash row))) (\<lambda>bh.
     bind (wrap ''decode transaction index: %w'' (decodePostgresUint32 (tr_index row))) (\<lambda>index.
     bind (wrap ''decode transaction type: %w'' (decodePostgresUint8 (tr_typeID row))) (\<lambda>typeID.
     bind (wrap ''decode transaction nonce: %w'' (decodePostgresUint64 (tr_nonce row))) (\<lambda>nonce.
     bind (wrap ''decode transaction sender: %w'' (decodeAddress d (tr_sender row))) (\<lambda>sender.
     bind (wrap ''decode transaction recipient: %w'' (decodeOptionalAddress d (tr_recipient row))) (\<lambda>recipient.
     bind (decodePostgresNumeric ''transaction value'' (tr_value row) True) (\<lambda>v.
     bind (wrap ''decode transaction gas limit: %w'' (decodePostgresUint64 (tr_gasLimit row))) (\<lambda>gasLimit.
     bind (decodePostgresNumeric ''transaction gas price'' (tr_gasPrice row) False) (\<lambda>gasPrice.
     bind (decodePostgresNumeric ''transaction max fee'' (tr_maxFeePerGas row) False) (\<lambda>maxFee.
     bind (decodePostgresNumeric ''transaction max priority fee'' (tr_maxPriorityFeePerGas row) False) (\<lambda>maxPriorityFee.
       Inr \<lparr>t_Hash = h, t_BlockNumber = blockNumber, t_BlockHash = bh, t_Index = index, t_Type = typeID, t_Nonce = nonce,
            t_Sender = sender, t_Recipient = recipient, t_Value = v, t_GasLimit = gasLimit, t_GasPrice = gasPrice,
            t_MaxFeePerGas = maxFee, t_MaxPriorityFeePerGas = maxPriorityFee, t_Input = append_nil (tr_input row)\<rparr>)))))))))))))"

definition decode_event :: "Drivers \<Rightarrow> postgresEventRow \<Rightarrow> err + Event" where
  "decode_event d row =
     bind (wrap ''decode event block number: %w'' (decodePostgresUint64 (er_blockNumber row))) (\<lambda>blockNumber.
     bind (wrap ''decode event block hash: %w'' (decodeHash d (er_blockHash row))) (\<lambda>bh.
     bind (wrap ''decode event transaction hash: %w'' (decodeHash d (er_transactionHash row))) (\<lambda>transactionHash.
     bind (wrap ''decode event transaction index: %w'' (decodePostgresUint32 (er_transactionIndex row))) (\<lambda>transactionIndex.
     bind (wrap ''decode event log index: %w'' (decodePostgresUint32 (er_logIndex row))) (\<lambda>logIndex.
     bind (wrap ''decode event address: %w'' (decodeAddress d (er_address row))) (\<lambda>a.
     bind (decodeTopics d (er_topics row)) (\<lambda>topics.
       Inr \<lparr>e_BlockNumber = blockNumber, e_BlockHash = bh, e_TransactionHash = transactionHash,
            e_TransactionIndex = transactionIndex, e_LogIndex = logIndex, e_Address = a, e_Topics = topics,
            e_Data = append_nil (er_data row)\<rparr>)))))))"

end
