(* ===== verification/Memory_Props.thy ===== *)
theory Memory_Props
  imports Memory_Store Index_Store
begin

text \<open>Properties of the in-memory store.\<close>

section \<open>Cloning\<close>

lemma clone_pointers [simp]: "cloneBigInt v = v" "cloneAddress a = a"
  by (auto simp: cloneBigInt_def cloneAddress_def split: option.splits)

lemma cloneBlock_id [simp]: "cloneBlock b = b"
  by (simp add: cloneBlock_def)

lemma cloneTransaction_sel [simp]:
  "t_Hash (cloneTransaction t) = t_Hash t"
  "t_BlockNumber (cloneTransaction t) = t_BlockNumber t"
  "t_BlockHash (cloneTransaction t) = t_BlockHash t"
  "t_Index (cloneTransaction t) = t_Index t"
  "cloneTransaction (cloneTransaction t) = cloneTransaction t"
  by (simp_all add: cloneTransaction_def)

lemma cloneEvent_sel [simp]:
  "e_BlockNumber (cloneEvent e) = e_BlockNumber e"
  "e_BlockHash (cloneEvent e) = e_BlockHash e"
  "e_TransactionHash (cloneEvent e) = e_TransactionHash e"
  "e_TransactionIndex (cloneEvent e) = e_TransactionIndex e"
  "e_LogIndex (cloneEvent e) = e_LogIndex e"
  "e_Address (cloneEvent e) = e_Address e"
  "e_Topics (cloneEvent e) = e_Topics e"
  "cloneEvent (cloneEvent e) = cloneEvent e"
  by (simp_all add: cloneEvent_def)

lemma cloneBundle_sel [simp]:
  "bb_Block (cloneBundle b) = bb_Block b"
  "bb_Transactions (cloneBundle b) = map cloneTransaction (bb_Transactions b)"
  "bb_Events (cloneBundle b) = map cloneEvent (bb_Events b)"
  "cloneBundle (cloneBundle b) = cloneBundle b"
  by (simp_all add: cloneBundle_def)

lemma wf_cloneBundle [simp]: "wf_bundle (cloneBundle b) = wf_bundle b"
  by (simp add: wf_bundle_def wf_transactions_def wf_events_def comp_def)

lemma header_cloneBundle [simp]: "header (cloneBundle b) = header b"
  by (simp add: header_def)

section \<open>Validation\<close>

lemma validate_transactions_iff:
  "validate_transactions n h k ts seen pos = Inr r \<longleftrightarrow>
     (\<forall>i < length ts. t_BlockNumber (ts ! i) = n \<and> t_BlockHash (ts ! i) = h \<and>
        t_Index (ts ! i) = of_nat (k + i)) \<and>
     distinct (map t_Hash ts) \<and> t_Hash ` set ts \<inter> seen = {} \<and>
     r = (seen \<union> t_Hash ` set ts, fold (\<lambda>t p. p(t_Hash t \<mapsto> t_Index t)) ts pos)"
proof (induction ts arbitrary: k seen pos)
  case (Cons t ts)
  have "t_Hash ` set (t # ts) \<inter> seen = {} \<and> t_Hash t \<notin> t_Hash ` set ts \<longleftrightarrow>
      t_Hash t \<notin> seen \<and> t_Hash ` set ts \<inter> insert (t_Hash t) seen = {}"
    by auto
  then show ?case
    by (cases "t_Index t = of_nat k")
      (auto simp: Cons.IH All_less_Suc2 ac_simps simp del: fun_upd_apply)
qed auto

lemma positions_iff:
  "fold (\<lambda>t p. p(t_Hash t \<mapsto> t_Index t)) ts pos h = Some i \<longleftrightarrow>
     (\<exists>t \<in> set ts. t_Hash t = h \<and> t_Index t = i) \<or> h \<notin> t_Hash ` set ts \<and> pos h = Some i"
  if "distinct (map t_Hash ts)"
  using that by (induction ts arbitrary: pos) auto

lemma validate_events_iff:
  "validate_events n h pos es seen = None \<longleftrightarrow>
     (\<forall>e \<in> set es. pos (e_TransactionHash e) = Some (e_TransactionIndex e) \<and>
        e_BlockNumber e = n \<and> e_BlockHash e = h \<and> length (e_Topics e) \<le> 4) \<and>
     distinct (map e_LogIndex es) \<and> e_LogIndex ` set es \<inter> seen = {}"
  by (induction es arbitrary: seen) (auto simp: not_less)

text \<open>What \<open>validate_blocks\<close> says of consecutive blocks.\<close>

fun links :: "(u64 \<times> BlockBundle) list \<Rightarrow> Block option \<Rightarrow> u64 list \<Rightarrow> bool" where
  "links bs prev [] = True"
| "links bs prev (n # ns) =
     ((case prev of None \<Rightarrow> True
       | Some p \<Rightarrow> n = b_Number p + 1 \<and> bb_ParentHash (bundle_at bs n) = b_Hash p) \<and>
      links bs (Some (bb_Block (bundle_at bs n))) ns)"

abbreviation tx_hashes :: "(u64 \<times> BlockBundle) list \<Rightarrow> u64 \<Rightarrow> hash list" where
  "tx_hashes bs n \<equiv> map t_Hash (bb_Transactions (bundle_at bs n))"

lemma validate_transactions_wf:
  assumes "b_TransactionCount (bb_Block b) = int (length (bb_Transactions b))"
    and "int (length (bb_Transactions b)) \<le> MaxUint32"
  shows "validate_transactions (bb_Number b) (bb_Hash b) 0 (bb_Transactions b) seen Map.empty = Inr r
    \<longleftrightarrow> wf_transactions b \<and> t_Hash ` set (bb_Transactions b) \<inter> seen = {} \<and>
      r = (seen \<union> t_Hash ` set (bb_Transactions b),
           fold (\<lambda>t p. p(t_Hash t \<mapsto> t_Index t)) (bb_Transactions b) Map.empty)"
  using assms by (simp add: validate_transactions_iff wf_transactions_def conj_assoc)

lemma validate_events_wf:
  assumes "wf_transactions b"
  shows "validate_events (bb_Number b) (bb_Hash b)
      (fold (\<lambda>t p. p(t_Hash t \<mapsto> t_Index t)) (bb_Transactions b) Map.empty) (bb_Events b) {} = None
    \<longleftrightarrow> wf_events b"
  using assms by (simp add: validate_events_iff wf_events_def positions_iff wf_transactions_def)

lemma validate_blocks_Cons:
  "validate_blocks bs prev (n # ns) seen = None \<longleftrightarrow>
     (let b = bundle_at bs n in
      bb_Number b = n \<and> wf_bundle b \<and>
      (case prev of None \<Rightarrow> True | Some p \<Rightarrow> n = b_Number p + 1 \<and> bb_ParentHash b = b_Hash p) \<and>
      set (tx_hashes bs n) \<inter> seen = {} \<and>
      validate_blocks bs (Some (bb_Block b)) ns (seen \<union> set (tx_hashes bs n)) = None)"
  (is "?L \<longleftrightarrow> ?R")
proof -
  let ?b = "bundle_at bs n"
  let ?vt = "validate_transactions (bb_Number ?b) (bb_Hash ?b) 0 (bb_Transactions ?b) seen Map.empty"
  let ?ok = "bb_Number ?b = n \<and>
      (case prev of None \<Rightarrow> True | Some p \<Rightarrow> n = b_Number p + 1 \<and> bb_ParentHash ?b = b_Hash p) \<and>
      b_TransactionCount (bb_Block ?b) = int (length (bb_Transactions ?b)) \<and>
      int (length (bb_Transactions ?b)) \<le> MaxUint32"
  show ?thesis
  proof (cases ?ok)
    case False
    then have "\<not> ?L" by (auto simp: Let_def split: option.splits)
    moreover from False have "\<not> ?R" by (auto simp: Let_def wf_bundle_def wf_transactions_def)
    ultimately show ?thesis by simp
  next
    case True
    note vt = validate_transactions_wf [of ?b seen] and ve = validate_events_wf [of ?b]
    show ?thesis
    proof (cases ?vt)
      case (Inl e)
      with True have "\<not> ?L" by (auto simp: Let_def split: option.splits)
      moreover have "\<not> ?R" using Inl vt True by (auto simp: Let_def wf_bundle_def)
      ultimately show ?thesis by simp
    next
      case (Inr r)
      with vt True have r: "wf_transactions ?b" "t_Hash ` set (bb_Transactions ?b) \<inter> seen = {}"
        "r = (seen \<union> t_Hash ` set (bb_Transactions ?b),
              fold (\<lambda>t p. p(t_Hash t \<mapsto> t_Index t)) (bb_Transactions ?b) Map.empty)"
        by auto
      with Inr True ve show ?thesis
        by (auto simp: Let_def wf_bundle_def split: option.splits)
    qed
  qed
qed

lemma validate_blocks_iff:
  "validate_blocks bs prev ns seen = None \<longleftrightarrow>
     (\<forall>n \<in> set ns. bb_Number (bundle_at bs n) = n \<and> wf_bundle (bundle_at bs n)) \<and>
     links bs prev ns \<and>
     distinct (concat (map (tx_hashes bs) ns)) \<and>
     set (concat (map (tx_hashes bs) ns)) \<inter> seen = {}"
proof (induction ns arbitrary: prev seen)
  case (Cons n ns)
  let ?H = "set (tx_hashes bs n)" and ?R = "set (concat (map (tx_hashes bs) ns))"
  have "?H \<inter> seen = {} \<and> ?R \<inter> (seen \<union> ?H) = {} \<longleftrightarrow> ?H \<inter> ?R = {} \<and> (?H \<union> ?R) \<inter> seen = {}"
    by blast
  moreover have "wf_bundle (bundle_at bs n) \<Longrightarrow> distinct (tx_hashes bs n)"
    by (simp add: wf_bundle_def wf_transactions_def)
  ultimately show ?case
    unfolding validate_blocks_Cons Let_def Cons.IH
    by (simp del: set_map set_concat) blast
qed simp

text \<open>Consecutive links over the sorted keys are a linked chain.\<close>

lemma interval_of_successors:
  assumes "sorted_wrt (<) ns" and "successively (\<lambda>a b. b = a + 1) ns"
    and "lo \<in> set ns" and "hi \<in> set ns" and "lo \<le> n" and "n \<le> hi"
  shows "n \<in> set (ns :: u64 list)"
  using assms
proof (induction ns arbitrary: lo rule: induct_list012)
  case (3 a b rest)
  have b: "b = a + 1" "sorted_wrt (<) (b # rest)" "successively (\<lambda>a b. b = a + 1) (b # rest)"
    and a: "\<forall>x \<in> set (b # rest). a < x"
    using "3.prems"(1,2) by auto
  show ?case
  proof (cases "n \<le> a")
    case True
    then have "lo = a" using "3.prems"(3,5) a by force
    with True "3.prems"(5) have "n = a" by simp
    then show ?thesis by simp
  next
    case False
    then have "b \<le> n" using b(1) inc_le [of a n] by simp
    moreover have "hi \<in> set (b # rest)" using "3.prems"(4,6) False by auto
    ultimately have "n \<in> set (b # rest)"
      using "3.IH"(2) [OF b(2,3), of b] "3.prems"(6) by simp
    then show ?thesis by simp
  qed
qed auto

lemma successors_of_interval:
  assumes "sorted_wrt (<) ns"
    and "\<forall>lo hi n. lo \<in> set ns \<longrightarrow> hi \<in> set ns \<longrightarrow> lo \<le> n \<longrightarrow> n \<le> hi \<longrightarrow> n \<in> set ns"
  shows "successively (\<lambda>a b. b = a + 1) (ns :: u64 list)"
  using assms
proof (induction ns rule: induct_list012)
  case (3 a b rest)
  have a: "\<forall>x \<in> set (b # rest). a < x" and b: "\<forall>x \<in> set rest. b < x"
    and s: "sorted_wrt (<) (b # rest)"
    using "3.prems"(1) by simp_all
  have ab: "a < b" using a by simp
  have le: "a + 1 \<le> b" using ab by (rule inc_le)
  have lt: "a < a + 1" using less_imp_neq_MaxUint64 [OF ab] by (rule less_Suc_u64)
  have "a + 1 \<in> set (a # b # rest)"
    using "3.prems"(2) le lt by (meson less_imp_le list.set_intros)
  then have b1: "b = a + 1" using b le lt by (metis leD less_irrefl set_ConsD)
  have cl: "n \<in> set (b # rest)"
    if "lo \<in> set (b # rest)" "hi \<in> set (b # rest)" "lo \<le> n" "n \<le> hi" for lo hi n
  proof -
    from a that(1) have "a < lo" by blast
    with that(3) have "n \<noteq> a" by auto
    moreover have "n \<in> set (a # b # rest)"
      using "3.prems"(2) that by (meson list.set_intros(2))
    ultimately show ?thesis by simp
  qed
  have "successively (\<lambda>a b. b = a + 1) (b # rest)"
    by (rule "3.IH"(2) [OF s]) (use cl in blast)
  with b1 show ?case by simp
qed simp_all

lemma links_iff:
  assumes "\<forall>n \<in> set ns. bb_Number (bundle_at bs n) = n"
  shows "links bs None ns \<longleftrightarrow>
    successively (\<lambda>a b. b = a + 1 \<and> bb_ParentHash (bundle_at bs b) = bb_Hash (bundle_at bs a)) ns"
proof -
  have "links bs (Some (bb_Block (bundle_at bs a))) ns \<longleftrightarrow> successively (\<lambda>a b. b = a + 1 \<and>
      bb_ParentHash (bundle_at bs b) = bb_Hash (bundle_at bs a)) (a # ns)"
    if "\<forall>n \<in> set (a # ns). bb_Number (bundle_at bs n) = n" for a ns
    using that by (induction ns arbitrary: a) auto
  then show ?thesis using assms by (cases ns) auto
qed

lemma successively_conj:
  "successively (\<lambda>a b. P a b \<and> Q a b) xs \<longleftrightarrow> successively P xs \<and> successively Q xs"
  by (induction xs rule: induct_list012) auto

lemma successors_adjacent:
  assumes "sorted_wrt (<) ns" and "successively (\<lambda>a b. b = a + 1) ns"
  shows "successively Q ns \<longleftrightarrow> (\<forall>n. n \<noteq> MaxUint64 \<longrightarrow> n \<in> set ns \<longrightarrow> n + 1 \<in> set ns \<longrightarrow> Q n (n + 1))"
  using assms
proof (induction ns rule: induct_list012)
  case (2 a)
  have "a \<noteq> MaxUint64 \<Longrightarrow> a + 1 \<noteq> a" using less_Suc_u64 [of a] by auto
  then show ?case by auto
next
  case (3 a b rest)
  have b: "b = a + 1" "sorted_wrt (<) (b # rest)" "successively (\<lambda>a b. b = a + 1) (b # rest)"
    and a: "\<forall>x \<in> set (b # rest). a < x" and m: "a \<noteq> MaxUint64"
    using "3.prems" less_imp_neq_MaxUint64 [of a b] by auto
  have up: "n \<noteq> MaxUint64 \<Longrightarrow> n \<in> set (b # rest) \<Longrightarrow> n + 1 \<noteq> a" for n
    using a less_Suc_u64 [of n] by force
  have "(\<forall>n. n \<noteq> MaxUint64 \<longrightarrow> n \<in> set (a # b # rest) \<longrightarrow> n + 1 \<in> set (a # b # rest) \<longrightarrow> Q n (n + 1))
    \<longleftrightarrow> Q a b \<and> (\<forall>n. n \<noteq> MaxUint64 \<longrightarrow> n \<in> set (b # rest) \<longrightarrow> n + 1 \<in> set (b # rest) \<longrightarrow> Q n (n + 1))"
    using b(1) up m by (metis list.set_intros(1) list.set_intros(2) set_ConsD)
  then show ?case using "3.IH"(2) [OF b(2,3)] by simp
qed auto

lemma distinct_concat_map:
  assumes "distinct ns"
  shows "distinct (concat (map f ns)) \<longleftrightarrow> (\<forall>n \<in> set ns. distinct (f n)) \<and>
    (\<forall>n \<in> set ns. \<forall>m \<in> set ns. n \<noteq> m \<longrightarrow> set (f n) \<inter> set (f m) = {})"
  using assms by (induction ns) (auto, blast+)

lemma sortedBlockNumbers_sorted:
  "distinct (map fst bs) \<Longrightarrow> sorted_wrt (<) (sortedBlockNumbers bs)"
  unfolding sortedBlockNumbers_def by (rule u64_less.sorted_sort) simp

lemma set_sortedBlockNumbers [simp]: "set (sortedBlockNumbers bs) = dom (map_of bs)"
  by (simp add: sortedBlockNumbers_def dom_map_of_conv_image_fst)

lemma bundle_at_Some [simp]: "map_of bs n = Some b \<Longrightarrow> bundle_at bs n = b"
  by (simp add: bundle_at_def)

lemma ball_dom_at:
  "(\<forall>n \<in> dom (map_of bs). P n (bundle_at bs n)) \<longleftrightarrow> (\<forall>n b. map_of bs n = Some b \<longrightarrow> P n b)"
  by (auto simp: dom_def)

lemma ball2_dom_at:
  "(\<forall>n \<in> dom (map_of bs). \<forall>m \<in> dom (map_of bs). P n (bundle_at bs n) m (bundle_at bs m)) \<longleftrightarrow>
   (\<forall>n m b c. map_of bs n = Some b \<longrightarrow> map_of bs m = Some c \<longrightarrow> P n b m c)"
proof -
  have "(\<forall>m \<in> dom (map_of bs). P n b m (bundle_at bs m)) \<longleftrightarrow>
      (\<forall>m c. map_of bs m = Some c \<longrightarrow> P n b m c)" for n b
    by (rule ball_dom_at)
  then have "(\<forall>n \<in> dom (map_of bs). \<forall>m \<in> dom (map_of bs).
        P n (bundle_at bs n) m (bundle_at bs m)) \<longleftrightarrow>
      (\<forall>n \<in> dom (map_of bs). \<forall>m c. map_of bs m = Some c \<longrightarrow> P n (bundle_at bs n) m c)"
    by (simp only:)
  also have "\<dots> \<longleftrightarrow>
      (\<forall>n b. map_of bs n = Some b \<longrightarrow> (\<forall>m c. map_of bs m = Some c \<longrightarrow> P n b m c))"
    by (rule ball_dom_at)
  finally show ?thesis by blast
qed

lemma linked_chain_iff:
  assumes ns: "sorted_wrt (<) ns" and set: "set ns = dom (map_of bs)"
  shows "linked_chain (map_option header \<circ> map_of bs) \<longleftrightarrow>
    successively (\<lambda>a b. b = a + 1 \<and> bb_ParentHash (bundle_at bs b) = bb_Hash (bundle_at bs a)) ns"
    (is "?L \<longleftrightarrow> ?R")
proof -
  let ?iv = "\<forall>lo hi n. lo \<in> set ns \<longrightarrow> hi \<in> set ns \<longrightarrow> lo \<le> n \<longrightarrow> n \<le> hi \<longrightarrow> n \<in> set ns"
  let ?Q = "\<lambda>a b. bb_ParentHash (bundle_at bs b) = bb_Hash (bundle_at bs a)"
  have dom: "dom (map_option header \<circ> map_of bs) = set ns"
    by (simp add: set dom_def)
  have lk: "(\<forall>h p h' p'. (map_option header \<circ> map_of bs) n = Some (h, p) \<longrightarrow>
        (map_option header \<circ> map_of bs) (n + 1) = Some (h', p') \<longrightarrow> p' = h) \<longleftrightarrow>
      (n \<in> set ns \<longrightarrow> n + 1 \<in> set ns \<longrightarrow> ?Q n (n + 1))" for n
    by (cases "map_of bs n"; cases "map_of bs (n + 1)") (simp_all add: set domIff header_def)
  have L: "?L \<longleftrightarrow> ?iv \<and>
      (\<forall>n. n \<noteq> MaxUint64 \<longrightarrow> n \<in> set ns \<longrightarrow> n + 1 \<in> set ns \<longrightarrow> ?Q n (n + 1))"
    by (simp only: linked_chain_def dom lk)
  have iv: "?iv \<longleftrightarrow> successively (\<lambda>a b. b = a + 1) ns"
  proof
    show "successively (\<lambda>a b. b = a + 1) ns" if ?iv
      using ns that by (rule successors_of_interval)
    show ?iv if "successively (\<lambda>a b. b = a + 1) ns"
      using interval_of_successors [OF ns that] by blast
  qed
  show ?thesis
    unfolding L iv successively_conj
    by (rule conj_cong [OF refl]) (rule successors_adjacent [OF ns, symmetric])
qed

theorem validateCanonicalBundles_iff:
  assumes "distinct (map fst bs)"
  shows "validateCanonicalBundles bs = None \<longleftrightarrow> canonical_bundles (map_of bs)"
proof -
  let ?ns = "sortedBlockNumbers bs"
  have ns: "sorted_wrt (<) ?ns" using assms by (rule sortedBlockNumbers_sorted)
  then have dist: "distinct ?ns" by (simp add: strict_sorted_iff)
  let ?own = "\<forall>n \<in> dom (map_of bs). bb_Number (bundle_at bs n) = n \<and> wf_bundle (bundle_at bs n)"
  have own: "?own \<longleftrightarrow> (\<forall>n b. map_of bs n = Some b \<longrightarrow> bb_Number b = n \<and> wf_bundle b)"
    by (rule ball_dom_at)
  have links: "?own \<Longrightarrow> links bs None ?ns \<longleftrightarrow> linked_chain (map_option header \<circ> map_of bs)"
    using links_iff [of ?ns bs] linked_chain_iff [OF ns] by simp
  have dis: "(\<forall>n \<in> dom (map_of bs). \<forall>m \<in> dom (map_of bs). n \<noteq> m \<longrightarrow>
        set (tx_hashes bs n) \<inter> set (tx_hashes bs m) = {}) \<longleftrightarrow>
      (\<forall>n m b c. map_of bs n = Some b \<longrightarrow> map_of bs m = Some c \<longrightarrow> n \<noteq> m \<longrightarrow>
        t_Hash ` set (bb_Transactions b) \<inter> t_Hash ` set (bb_Transactions c) = {})"
    unfolding set_map
    by (rule ball2_dom_at [where P = "\<lambda>n b m c. n \<noteq> m \<longrightarrow>
        t_Hash ` set (bb_Transactions b) \<inter> t_Hash ` set (bb_Transactions c) = {}"])
  have hs: "?own \<Longrightarrow> \<forall>n \<in> dom (map_of bs). distinct (tx_hashes bs n)"
    by (simp add: wf_bundle_def wf_transactions_def)
  show ?thesis
  proof (cases ?own)
    case True
    then show ?thesis
      unfolding validateCanonicalBundles_def validate_blocks_iff canonical_bundles_def own [symmetric]
        distinct_concat_map [OF dist] set_sortedBlockNumbers dis
      using links hs by simp
  next
    case False
    then show ?thesis
      unfolding validateCanonicalBundles_def validate_blocks_iff canonical_bundles_def own [symmetric]
        set_sortedBlockNumbers by blast
  qed
qed

section \<open>Updates\<close>

text \<open>
  The invariant of the store: a map holds a key once, the bundles form one canonical chain, and
  every stored bundle is a clone.
\<close>

definition memory_inv :: "Memory \<Rightarrow> bool" where
  "memory_inv m \<longleftrightarrow>
     distinct (map fst (m_bundles m)) \<and>
     canonical_bundles (map_of (m_bundles m)) \<and>
     (\<forall>n b. map_of (m_bundles m) n = Some b \<longrightarrow> cloneBundle b = b)"

lemma contiguous_blocks_iff:
  "contiguous_blocks (b # bs) = None \<longleftrightarrow> consecutive_from (bb_Number b) (b # bs)"
  by (induction bs arbitrary: b) auto

lemma validateReplacement_iff:
  "validateReplacement u = None \<longleftrightarrow> consecutive_from (u_ReplaceFrom u) (u_Blocks u)"
proof (cases "u_Blocks u")
  case (Cons b bs)
  then show ?thesis
    by (cases "bb_Number b = u_ReplaceFrom u")
      (simp_all add: validateReplacement_def contiguous_blocks_iff del: contiguous_blocks.simps)
qed (simp add: validateReplacement_def)

lemma map_of_fold_update:
  assumes "distinct (map k xs)"
  shows "map_of (fold (\<lambda>b. AList.update (k b) (v b)) xs al) =
    map_of al ++ map_of (map (\<lambda>b. (k b, v b)) xs)"
  using assms
proof (induction xs arbitrary: al)
  case (Cons b xs)
  then have new: "k b \<notin> dom (map_of (map (\<lambda>b. (k b, v b)) xs))"
    by (auto simp: dom_map_of_conv_image_fst image_image)
  have "(map_of al)(k b \<mapsto> v b) ++ map_of (map (\<lambda>b. (k b, v b)) xs) =
      map_of al ++ map_of (map (\<lambda>b. (k b, v b)) (b # xs))"
    by (simp only: map_add_upd_left [OF new] list.map map_of.simps map_add_upd fst_conv snd_conv)
  moreover have "map_of (fold (\<lambda>b. AList.update (k b) (v b)) (b # xs) al) =
      (map_of al)(k b \<mapsto> v b) ++ map_of (map (\<lambda>b. (k b, v b)) xs)"
    using Cons by (simp only: fold_simps comp_apply update_conv' list.map distinct.simps)
  ultimately show ?case by (simp only:)
qed simp

lemma distinct_fold_update:
  "distinct (map fst al) \<Longrightarrow> distinct (map fst (fold (\<lambda>b. AList.update (k b) (v b)) xs al))"
  by (induction xs arbitrary: al) (simp_all add: distinct_update)

lemma map_of_cloneBundles: "map_of (cloneBundles bs) = map_option cloneBundle \<circ> map_of bs"
  unfolding cloneBundles_def by (induction bs) auto

lemma keys_cloneBundles: "map fst (cloneBundles bs) = map fst bs"
  by (auto simp: cloneBundles_def)

lemma map_of_candidate:
  assumes "consecutive_from (u_ReplaceFrom u) (u_Blocks u)"
  shows "map_of (candidate_bundles bs u) =
    updated cloneBundle u (map_option cloneBundle \<circ> map_of bs)"
proof -
  have "map_of (filter (\<lambda>kv. \<not> (fst kv \<ge> u_ReplaceFrom u \<or> fst kv < u_RetainFrom u)) (cloneBundles bs))
      = (\<lambda>n. if u_RetainFrom u \<le> n \<and> n < u_ReplaceFrom u
             then (map_option cloneBundle \<circ> map_of bs) n else None)"
    by (rule ext, subst map_of_filter_key [of "\<lambda>n. \<not> (n \<ge> u_ReplaceFrom u \<or> n < u_RetainFrom u)"])
      (auto simp: map_of_cloneBundles not_less not_le)
  then show ?thesis
    unfolding candidate_bundles_def updated_def
    by (simp add: map_of_fold_update [OF consecutive_from_distinct [OF assms]])
qed

lemma distinct_candidate:
  "distinct (map fst bs) \<Longrightarrow> distinct (map fst (candidate_bundles bs u))"
  unfolding candidate_bundles_def
  by (intro distinct_fold_update distinct_filter_key) (simp add: keys_cloneBundles)

lemma stored_are_clones:
  assumes "memory_inv m"
  shows "map_option cloneBundle \<circ> map_of (m_bundles m) = map_of (m_bundles m)"
proof
  fix n
  show "(map_option cloneBundle \<circ> map_of (m_bundles m)) n = map_of (m_bundles m) n"
    using assms unfolding memory_inv_def by (cases "map_of (m_bundles m) n") (simp, metis comp_apply option.simps(9))
qed

text \<open>Every rejection is an \<open>ErrInvalidCanonicalUpdate\<close>.\<close>

lemma invalid_update_Is [simp]: "errors_Is (invalid_update msg) s \<longleftrightarrow> s = ErrInvalidCanonicalUpdate"
  by (auto simp: invalid_update_def)

lemma contiguous_blocks_Is:
  "contiguous_blocks bs = Some e \<Longrightarrow> errors_Is e ErrInvalidCanonicalUpdate"
  by (induction bs rule: contiguous_blocks.induct) (auto split: if_splits)

lemma validateReplacement_Is:
  "validateReplacement u = Some e \<Longrightarrow> errors_Is e ErrInvalidCanonicalUpdate"
  by (auto simp: validateReplacement_def contiguous_blocks_Is split: list.splits if_splits)

lemma validate_transactions_Is:
  "validate_transactions n h k ts seen pos = Inl e \<Longrightarrow> errors_Is e ErrInvalidCanonicalUpdate"
  by (induction ts arbitrary: k seen pos) (auto split: if_splits)

lemma validate_events_Is:
  "validate_events n h pos es seen = Some e \<Longrightarrow> errors_Is e ErrInvalidCanonicalUpdate"
  by (induction es arbitrary: seen) (auto split: if_splits)

lemma validate_blocks_Is:
  "validate_blocks bs prev ns seen = Some e \<Longrightarrow> errors_Is e ErrInvalidCanonicalUpdate"
proof (induction ns arbitrary: prev seen)
  case (Cons n ns)
  then show ?case
    by (auto simp: Let_def split: if_splits option.splits sum.splits
        dest: validate_transactions_Is validate_events_Is)
qed simp

lemma validateCanonicalBundles_Is:
  "validateCanonicalBundles bs = Some e \<Longrightarrow> errors_Is e ErrInvalidCanonicalUpdate"
  by (auto simp: validateCanonicalBundles_def dest: validate_blocks_Is)

lemmas validation_errors = validateReplacement_Is validateCanonicalBundles_Is

text \<open>When an update of the chain \<open>M\<close> with chain ID \<open>chainID\<close> is accepted.\<close>

definition update_accepted :: "u64 \<Rightarrow> (u64 \<Rightarrow> BlockBundle option) \<Rightarrow> CanonicalUpdate \<Rightarrow> bool" where
  "update_accepted chainID M u \<longleftrightarrow>
     u_ChainID u \<noteq> 0 \<and> (chainID = 0 \<or> chainID = u_ChainID u) \<and>
     u_RetainFrom u \<le> u_ReplaceFrom u \<and>
     consecutive_from (u_ReplaceFrom u) (u_Blocks u) \<and>
     canonical_bundles (updated cloneBundle u M)"

lemma Memory_Apply_cases:
  assumes inv: "memory_inv m"
  shows "update_accepted (m_chainID m) (map_of (m_bundles m)) u \<Longrightarrow>
      Memory_ApplyCanonicalUpdate None u m =
        (None, m\<lparr>m_chainID := u_ChainID u, m_bundles := candidate_bundles (m_bundles m) u,
                 m_lastSyncedAt := u_SyncedAt u\<rparr>)"
    and "\<not> update_accepted (m_chainID m) (map_of (m_bundles m)) u \<Longrightarrow>
      \<exists>e. errors_Is e ErrInvalidCanonicalUpdate \<and> Memory_ApplyCanonicalUpdate None u m = (Some e, m)"
proof -
  let ?c = "candidate_bundles (m_bundles m) u"
  have v: "validateCanonicalBundles ?c = None \<longleftrightarrow>
      canonical_bundles (updated cloneBundle u (map_of (m_bundles m)))"
    if "validateReplacement u = None"
    using that inv validateCanonicalBundles_iff [OF distinct_candidate, of "m_bundles m" u]
    by (simp add: map_of_candidate stored_are_clones memory_inv_def validateReplacement_iff)
  show "Memory_ApplyCanonicalUpdate None u m =
        (None, m\<lparr>m_chainID := u_ChainID u, m_bundles := ?c, m_lastSyncedAt := u_SyncedAt u\<rparr>)"
    if "update_accepted (m_chainID m) (map_of (m_bundles m)) u"
    using that v by (auto simp: Memory_ApplyCanonicalUpdate_def update_accepted_def Let_def
        validateReplacement_iff [symmetric])
  show "\<exists>e. errors_Is e ErrInvalidCanonicalUpdate \<and> Memory_ApplyCanonicalUpdate None u m = (Some e, m)"
    if "\<not> update_accepted (m_chainID m) (map_of (m_bundles m)) u"
    using that v
    by (auto simp: Memory_ApplyCanonicalUpdate_def update_accepted_def Let_def not_less
        validateReplacement_iff [symmetric] dest: validation_errors split: option.splits)
qed
section \<open>The store contract\<close>

lemma updated_map: "map_option g \<circ> updated f u M = updated (g \<circ> f) u (map_option g \<circ> M)"
proof
  fix n
  have "map_of (map (\<lambda>b. (bb_Number b, (g \<circ> f) b)) bs) n =
      map_option g (map_of (map (\<lambda>b. (bb_Number b, f b)) bs) n)" for bs
    by (induction bs) auto
  then show "(map_option g \<circ> updated f u M) n = updated (g \<circ> f) u (map_option g \<circ> M) n"
    by (auto simp: updated_def map_add_def split: option.splits)
qed

lemma header_comp_cloneBundle [simp]: "header \<circ> cloneBundle = header"
  by (rule ext) simp

lemma NewMemory_inv: "memory_inv NewMemory"
  by (simp add: memory_inv_def NewMemory_def canonical_bundles_def linked_chain_def)

lemma Memory_Apply_ctx [simp]: "Memory_ApplyCanonicalUpdate (Some e) u m = (Some (ctx_err e), m)"
  by (simp add: Memory_ApplyCanonicalUpdate_def)

lemma Memory_Apply_chain:
  assumes inv: "memory_inv m" and app: "Memory_ApplyCanonicalUpdate ctx u m = (r, m')"
  shows "r = None \<Longrightarrow> ctx = None \<and> update_accepted (m_chainID m) (map_of (m_bundles m)) u \<and>
      m_chainID m' = u_ChainID u \<and> m_lastSyncedAt m' = u_SyncedAt u \<and>
      distinct (map fst (m_bundles m')) \<and>
      map_of (m_bundles m') = updated cloneBundle u (map_of (m_bundles m))"
    and "r \<noteq> None \<Longrightarrow> m' = m"
proof -
  show "r \<noteq> None \<Longrightarrow> m' = m"
    using app Memory_Apply_cases [OF inv, of u]
    by (cases ctx; cases "update_accepted (m_chainID m) (map_of (m_bundles m)) u") auto
  assume r: "r = None"
  then have ctx: "ctx = None" using app by (cases ctx) auto
  have acc: "update_accepted (m_chainID m) (map_of (m_bundles m)) u"
    using app r ctx Memory_Apply_cases(2) [OF inv, of u] by auto
  have m': "m' = m\<lparr>m_chainID := u_ChainID u, m_bundles := candidate_bundles (m_bundles m) u,
                   m_lastSyncedAt := u_SyncedAt u\<rparr>"
    using app ctx Memory_Apply_cases(1) [OF inv acc] by simp
  have "distinct (map fst (m_bundles m))" using inv by (simp add: memory_inv_def)
  moreover have "map_of (candidate_bundles (m_bundles m) u) = updated cloneBundle u (map_of (m_bundles m))"
    using map_of_candidate [of u "m_bundles m"] acc
    by (simp add: stored_are_clones [OF inv] update_accepted_def)
  ultimately show "ctx = None \<and> update_accepted (m_chainID m) (map_of (m_bundles m)) u \<and>
      m_chainID m' = u_ChainID u \<and> m_lastSyncedAt m' = u_SyncedAt u \<and>
      distinct (map fst (m_bundles m')) \<and>
      map_of (m_bundles m') = updated cloneBundle u (map_of (m_bundles m))"
    using ctx acc m' by (simp add: distinct_candidate)
qed

lemma Memory_Apply_inv:
  assumes inv: "memory_inv m" and app: "Memory_ApplyCanonicalUpdate ctx u m = (r, m')"
  shows "memory_inv m'"
proof (cases r)
  case None
  note ok = Memory_Apply_chain(1) [OF inv app None]
  have "cloneBundle b = b" if "updated cloneBundle u (map_of (m_bundles m)) n = Some b" for n b
    using updated_Some [OF that] inv unfolding memory_inv_def by auto
  with ok show ?thesis unfolding memory_inv_def update_accepted_def by metis
next
  case (Some e)
  with Memory_Apply_chain(2) [OF inv app] inv show ?thesis by simp
qed

lemma highest_loop:
  "highest_loop ns h f = (h', f') \<Longrightarrow>
     (f' \<longleftrightarrow> f \<or> ns \<noteq> []) \<and> (f' \<longrightarrow> h' \<in> set ns \<or> f \<and> h' = h) \<and>
     (\<forall>n \<in> set ns. n \<le> h') \<and> (f \<longrightarrow> h \<le> h')"
proof (induction ns h f rule: highest_loop.induct)
  case (2 number ns highest found)
  show ?case
  proof (cases "\<not> found \<or> number > highest")
    case True
    with "2.IH"(1) "2.prems" show ?thesis by auto
  next
    case False
    with "2.IH"(2) "2.prems" show ?thesis by auto
  qed
qed auto

definition memory_chain :: "Memory \<Rightarrow> chain" where
  "memory_chain m = map_option header \<circ> map_of (m_bundles m)"

lemma CanonicalTip_cases:
  "Memory_CanonicalTip None m = Inr None \<longleftrightarrow> m_bundles m = []"
  "Memory_CanonicalTip None m = Inr (Some tip) \<Longrightarrow>
     \<exists>b. map_of (m_bundles m) (tip_Number tip) = Some b \<and> tip_Hash tip = bb_Hash b \<and>
         (\<forall>n \<in> dom (map_of (m_bundles m)). n \<le> tip_Number tip)"
proof -
  obtain h f where hf: "highest_loop (map fst (m_bundles m)) 0 False = (h, f)" by fastforce
  note props = highest_loop [OF hf]
  show "Memory_CanonicalTip None m = Inr None \<longleftrightarrow> m_bundles m = []"
    using hf props by (auto simp: Memory_CanonicalTip_def highestBundle_def)
  assume tip: "Memory_CanonicalTip None m = Inr (Some tip)"
  then have f: f and t: "tip = \<lparr>tip_Number = h, tip_Hash = bb_Hash (bundle_at (m_bundles m) h)\<rparr>"
    using hf by (auto simp: Memory_CanonicalTip_def highestBundle_def split: if_splits)
  with props obtain b where "map_of (m_bundles m) h = Some b"
    by (metis dom_map_of_conv_image_fst domD image_set)
  with t props show "\<exists>b. map_of (m_bundles m) (tip_Number tip) = Some b \<and> tip_Hash tip = bb_Hash b \<and>
         (\<forall>n \<in> dom (map_of (m_bundles m)). n \<le> tip_Number tip)"
    by (auto simp: dom_map_of_conv_image_fst)
qed

definition MemoryIndexStore :: "(ctx, Memory) IndexStore" where
  "MemoryIndexStore = \<lparr>is_CanonicalTip = Memory_CanonicalTip, is_CanonicalHash = Memory_CanonicalHash,
     is_ApplyCanonicalUpdate = Memory_ApplyCanonicalUpdate\<rparr>"

interpretation mem: index_store MemoryIndexStore memory_chain memory_inv
proof
  fix m m' :: Memory and ctx u r tip n h e
  assume inv: "memory_inv m"
  show "linked_chain (memory_chain m)"
    using inv by (simp add: memory_inv_def canonical_bundles_def memory_chain_def)
  show "finite (dom (memory_chain m))"
    by (rule finite_subset [OF _ finite_dom_map_of [of "m_bundles m"]]) (auto simp: memory_chain_def)
  show "is_CanonicalTip MemoryIndexStore ctx m = Inr None \<Longrightarrow> memory_chain m = Map.empty"
    using CanonicalTip_cases(1) [of m]
    by (cases ctx) (auto simp: MemoryIndexStore_def memory_chain_def Memory_CanonicalTip_def)
  show "is_CanonicalTip MemoryIndexStore ctx m = Inr (Some tip) \<Longrightarrow>
      (\<exists>p. memory_chain m (tip_Number tip) = Some (tip_Hash tip, p)) \<and>
      (\<forall>n \<in> dom (memory_chain m). n \<le> tip_Number tip)"
    using CanonicalTip_cases(2) [of m tip]
    by (cases ctx) (auto simp: MemoryIndexStore_def memory_chain_def Memory_CanonicalTip_def header_def)
  show "is_CanonicalHash MemoryIndexStore ctx n m = Inr h \<Longrightarrow> \<exists>p. memory_chain m n = Some (h, p)"
    by (cases ctx) (auto simp: MemoryIndexStore_def memory_chain_def Memory_CanonicalHash_def header_def
        split: option.splits)
  show "is_CanonicalHash MemoryIndexStore ctx n m = Inl e \<Longrightarrow> errors_Is e ErrNotFound \<Longrightarrow>
      memory_chain m n = None"
    by (cases ctx) (auto simp: MemoryIndexStore_def memory_chain_def Memory_CanonicalHash_def
        split: option.splits)
  show "memory_inv m'" if "is_ApplyCanonicalUpdate MemoryIndexStore ctx u m = (r, m')"
    using Memory_Apply_inv [OF inv] that by (simp add: MemoryIndexStore_def)
  show "u_RetainFrom u \<le> u_ReplaceFrom u \<and> consecutive_from (u_ReplaceFrom u) (u_Blocks u) \<and>
      memory_chain m' = updated header u (memory_chain m)"
    if "is_ApplyCanonicalUpdate MemoryIndexStore ctx u m = (None, m')"
    using Memory_Apply_chain(1) [OF inv, of ctx u None m'] that
    by (simp add: MemoryIndexStore_def memory_chain_def updated_map update_accepted_def)
  show "memory_chain m' = memory_chain m \<or>
      u_RetainFrom u \<le> u_ReplaceFrom u \<and> consecutive_from (u_ReplaceFrom u) (u_Blocks u) \<and>
      memory_chain m' = updated header u (memory_chain m)"
    if "is_ApplyCanonicalUpdate MemoryIndexStore ctx u m = (Some e, m')"
    using Memory_Apply_chain(2) [OF inv, of ctx u "Some e" m'] that by (simp add: MemoryIndexStore_def)
qed
end
