(* ===== verification/Postgres.thy ===== *)
theory Postgres
  imports Postgres_Rows Memory_Props
begin

text \<open>
  The PostgreSQL store: \<open>postgres_indexer.go\<close>, \<open>postgres_blocks.go\<close>, \<open>postgres_transactions.go\<close>,
  \<open>postgres_events.go\<close> and \<open>Ping\<close> of \<open>postgres.go\<close>. The state is the committed tables. A call meets a
  \<open>PgEnv\<close>: for each statement, whether the connection or its context fails it, and what becomes of the
  commit, which the server may have applied although the client sees an error. A transaction works
  on its own copy of the tables; every error before the commit rolls it back. The advisory lock
  makes writers take turns, so an update runs alone.
\<close>

datatype pg_failure = Connection string | Context_done ctx_error

definition failure_err :: "pg_failure \<Rightarrow> err" where
  "failure_err f = (case f of Connection msg \<Rightarrow> Foreign msg | Context_done c \<Rightarrow> ctx_err c)"

record PgEnv =
  pe_ctx :: ctx
  pe_begin :: "pg_failure option"
  pe_lock :: "pg_failure option"
  pe_chain :: "pg_failure option"
  pe_delete :: "pg_failure option"
  pe_parent :: "pg_failure option"
  pe_batch :: "nat \<Rightarrow> pg_failure option"
  pe_tip :: "pg_failure option"
  pe_sync :: "pg_failure option"
  pe_query :: "pg_failure option"
  pe_cursor :: "pg_failure option"
  pe_rows :: "pg_failure option"
  pe_commit :: "pg_failure option"
  pe_applied :: bool

definition fails_with :: "pg_failure option \<Rightarrow> string \<Rightarrow> err + unit" where
  "fails_with f msg = (case f of None \<Rightarrow> Inr () | Some x \<Rightarrow> Inl (Errorf msg [failure_err x]))"

definition no_failures :: PgEnv where
  "no_failures = \<lparr>pe_ctx = None, pe_begin = None, pe_lock = None, pe_chain = None, pe_delete = None, pe_parent = None,
     pe_batch = (\<lambda>k. None), pe_tip = None, pe_sync = None, pe_query = None, pe_cursor = None, pe_rows = None,
     pe_commit = None, pe_applied = True\<rparr>"

section \<open>postgres.go\<close>

definition Postgres_Ping :: "PgEnv \<Rightarrow> Tables \<Rightarrow> error" where
  "Postgres_Ping x db = map_option failure_err (pe_query x)"

section \<open>Reads of the indexer\<close>

definition Postgres_CanonicalTip :: "Drivers \<Rightarrow> PgEnv \<Rightarrow> Tables \<Rightarrow> err + ChainTip option" where
  "Postgres_CanonicalTip d x db =
     bind (fails_with (pe_query x) ''query canonical tip: %w'') (\<lambda>_.
     case canonicalTipQuery db of
       None \<Rightarrow> Inr None
     | Some r \<Rightarrow>
         bind (wrap ''decode canonical tip: %w'' (decodeHash d (sb_hash r))) (\<lambda>decodedHash.
         bind (wrap ''decode canonical tip: %w'' (decodePostgresUint64 (sb_number r))) (\<lambda>decodedNumber.
           Inr (Some \<lparr>tip_Number = decodedNumber, tip_Hash = decodedHash\<rparr>))))"

definition Postgres_CanonicalHash :: "Drivers \<Rightarrow> PgEnv \<Rightarrow> u64 \<Rightarrow> Tables \<Rightarrow> err + hash" where
  "Postgres_CanonicalHash d x number db =
     (if uint number > MaxInt64 then Inl (Sentinel ErrNotFound)
      else
        bind (postgresInt64 number) (\<lambda>n.
        bind (fails_with (pe_query x) ''query canonical hash for block %d: %w'') (\<lambda>_.
        case canonicalHashQuery n db of
          None \<Rightarrow> Inl (Sentinel ErrNotFound)
        | Some h \<Rightarrow> wrap ''decode canonical hash for block %d: %w'' (decodeHash d h))))"

section \<open>Validation of an update\<close>

definition validateUint256 :: "string \<Rightarrow> int option \<Rightarrow> bool \<Rightarrow> error" where
  "validateUint256 name v required =
     (case v of
        None \<Rightarrow> if required then Some (invalid_update ''%w: %s is required'') else None
      | Some i \<Rightarrow> if i < 0 \<or> \<bar>i\<bar> \<ge> 2 ^ 256 then Some (invalid_update ''%w: %s is outside uint256'') else None)"

definition validatePostgresBlock :: "Block \<Rightarrow> error" where
  "validatePostgresBlock b =
     (if uint (b_Number b) > MaxInt64 \<or> uint (b_Timestamp b) > MaxInt64 \<or> uint (b_GasLimit b) > MaxInt64 \<or>
         uint (b_GasUsed b) > MaxInt64
      then Some (invalid_update ''%w: block %d contains a value exceeding PostgreSQL bigint'')
      else if b_TransactionCount b > MaxInt32
      then Some (invalid_update ''%w: block %d transaction count exceeds PostgreSQL integer'')
      else validateUint256 ''block base fee'' (b_BaseFeePerGas b) False)"

fun first_error :: "error list \<Rightarrow> error" where
  "first_error [] = None"
| "first_error (e # es) = (case e of None \<Rightarrow> first_error es | Some x \<Rightarrow> Some x)"

definition validatePostgresTransaction :: "Transaction \<Rightarrow> error" where
  "validatePostgresTransaction t =
     (if uint (t_BlockNumber t) > MaxInt64 \<or> uint (t_Nonce t) > MaxInt64 \<or> uint (t_GasLimit t) > MaxInt64
      then Some (invalid_update ''%w: transaction %s contains a value exceeding PostgreSQL bigint'')
      else if uint (t_Index t) > MaxInt32
      then Some (invalid_update ''%w: transaction %s index exceeds PostgreSQL integer'')
      else first_error
        [validateUint256 ''transaction value'' (t_Value t) True,
         validateUint256 ''transaction gas price'' (t_GasPrice t) False,
         validateUint256 ''transaction max fee'' (t_MaxFeePerGas t) False,
         validateUint256 ''transaction max priority fee'' (t_MaxPriorityFeePerGas t) False])"

definition validatePostgresEvent :: "Event \<Rightarrow> error" where
  "validatePostgresEvent e =
     (if uint (e_TransactionIndex e) > MaxInt32 \<or> uint (e_LogIndex e) > MaxInt32
      then Some (invalid_update ''%w: event position exceeds PostgreSQL integer'') else None)"

definition validatePostgresBundle :: "BlockBundle \<Rightarrow> error" where
  "validatePostgresBundle b =
     first_error (validatePostgresBlock (bb_Block b) # map validatePostgresTransaction (bb_Transactions b) @
       map validatePostgresEvent (bb_Events b))"

definition validatePostgresUpdate :: "CanonicalUpdate \<Rightarrow> error" where
  "validatePostgresUpdate update =
     (if u_ChainID update = 0 then Some (invalid_update ''%w: chain ID must be greater than zero'')
      else if uint (u_ChainID update) > MaxInt64 then Some (invalid_update ''%w: chain ID exceeds PostgreSQL bigint'')
      else if u_RetainFrom update > u_ReplaceFrom update
      then Some (invalid_update ''%w: retain-from block cannot exceed replace-from block'')
      else if uint (u_RetainFrom update) > MaxInt64 \<or> uint (u_ReplaceFrom update) > MaxInt64
      then Some (invalid_update ''%w: canonical range exceeds PostgreSQL bigint'')
      else first_error
        ([validateReplacement update,
          validateCanonicalBundles (fold (\<lambda>b. AList.update (bb_Number b) b) (u_Blocks update) [])] @
         map validatePostgresBundle (u_Blocks update)))"

section \<open>Batches\<close>

datatype statement = Insert_block sql_block | Insert_transaction sql_transaction | Insert_event sql_event

datatype queued = Queue_block Block | Queue_transaction Transaction | Queue_event Event

definition canonicalBatchQueryLimit :: nat where "canonicalBatchQueryLimit = 1000"

definition queueBlock :: "statement list \<Rightarrow> Block \<Rightarrow> err + statement list" where
  "queueBlock batch b = bind (block_row b) (\<lambda>r. Inr (batch @ [Insert_block r]))"

definition queueTransaction :: "statement list \<Rightarrow> Transaction \<Rightarrow> err + statement list" where
  "queueTransaction batch t = bind (transaction_row t) (\<lambda>r. Inr (batch @ [Insert_transaction r]))"

definition queueEvent :: "statement list \<Rightarrow> Event \<Rightarrow> err + statement list" where
  "queueEvent batch e = bind (event_row e) (\<lambda>r. Inr (batch @ [Insert_event r]))"

definition queue_one :: "statement list \<Rightarrow> queued \<Rightarrow> err + statement list" where
  "queue_one batch q = (case q of Queue_block b \<Rightarrow> queueBlock batch b | Queue_transaction t \<Rightarrow> queueTransaction batch t
     | Queue_event e \<Rightarrow> queueEvent batch e)"

definition execute :: "statement \<Rightarrow> Tables \<Rightarrow> err + Tables" where
  "execute st db = (case st of Insert_block r \<Rightarrow> insert_block r db | Insert_transaction r \<Rightarrow> insert_transaction r db
     | Insert_event r \<Rightarrow> insert_event r db)"

fun execute_all :: "statement list \<Rightarrow> Tables \<Rightarrow> err + Tables" where
  "execute_all [] db = Inr db"
| "execute_all (st # sts) db = bind (execute st db) (execute_all sts)"

text \<open>The tables a transaction has, and the batches it has sent.\<close>

type_synonym batch_state = "Tables \<times> statement list list"

definition sendCanonicalBatch :: "PgEnv \<Rightarrow> statement list \<Rightarrow> batch_state \<Rightarrow> err + batch_state" where
  "sendCanonicalBatch x batch st =
     (case st of (db, sent) \<Rightarrow>
        if batch = [] then Inr (db, sent)
        else
          bind (fails_with (pe_batch x (length sent)) ''insert canonical bundles: %w'') (\<lambda>_.
          bind (wrap ''insert canonical bundles: %w'' (execute_all batch db)) (\<lambda>db1.
            Inr (db1, sent @ [batch]))))"

fun insert_queued :: "PgEnv \<Rightarrow> queued list \<Rightarrow> statement list \<Rightarrow> batch_state \<Rightarrow> err + batch_state" where
  "insert_queued x [] batch st = sendCanonicalBatch x batch st"
| "insert_queued x (q # qs) batch st =
     bind (queue_one batch q) (\<lambda>batch1.
       if length batch1 \<ge> canonicalBatchQueryLimit
       then bind (sendCanonicalBatch x batch1 st) (insert_queued x qs [])
       else insert_queued x qs batch1 st)"

definition bundle_queue :: "BlockBundle \<Rightarrow> queued list" where
  "bundle_queue b = Queue_block (bb_Block b) # map Queue_transaction (bb_Transactions b) @ map Queue_event (bb_Events b)"

definition insertCanonicalBundles :: "PgEnv \<Rightarrow> BlockBundle list \<Rightarrow> Tables \<Rightarrow> err + batch_state" where
  "insertCanonicalBundles x bundles db =
     (if bundles = [] then Inr (db, []) else insert_queued x (concat (map bundle_queue bundles)) [] (db, []))"

section \<open>Updates\<close>

definition rejectDifferentChain :: "PgEnv \<Rightarrow> u64 \<Rightarrow> Tables \<Rightarrow> err + unit" where
  "rejectDifferentChain x chainID db =
     bind (postgresInt64 chainID) (\<lambda>c.
     bind (fails_with (pe_chain x) ''read stored chain ID: %w'') (\<lambda>_.
     case other_chain c db of
       None \<Rightarrow> Inr ()
     | Some existing \<Rightarrow> Inl (invalid_update ''%w: store chain ID is %d, update chain ID is %d'')))"

definition validateRetainedParent :: "Drivers \<Rightarrow> PgEnv \<Rightarrow> CanonicalUpdate \<Rightarrow> Tables \<Rightarrow> err + unit" where
  "validateRetainedParent d x update db =
     (case u_Blocks update of
        [] \<Rightarrow> Inr ()
      | b # bs \<Rightarrow>
          if u_ReplaceFrom update = u_RetainFrom update then Inr ()
          else
            bind (postgresInt64 (u_ReplaceFrom update - 1)) (\<lambda>previousNumber.
            bind (fails_with (pe_parent x) ''read retained parent block %d: %w'') (\<lambda>_.
            case canonicalHashQuery previousNumber db of
              None \<Rightarrow> Inl (invalid_update ''%w: retained parent block %d is missing'')
            | Some previousHash \<Rightarrow>
                bind (wrap ''decode retained parent block %d: %w'' (decodeHash d previousHash)) (\<lambda>decodedHash.
                  if bb_ParentHash b \<noteq> decodedHash
                  then Inl (invalid_update ''%w: replacement block %d does not extend retained block %d'')
                  else Inr ()))))"

definition canonicalTipInTransaction :: "Drivers \<Rightarrow> PgEnv \<Rightarrow> Tables \<Rightarrow> err + ChainTip option" where
  "canonicalTipInTransaction d x db =
     bind (fails_with (pe_tip x) ''read updated canonical tip: %w'') (\<lambda>_.
     case canonicalTipQuery db of
       None \<Rightarrow> Inr None
     | Some r \<Rightarrow>
         bind (wrap ''decode updated canonical tip: %w'' (decodeHash d (sb_hash r))) (\<lambda>decodedHash.
         bind (wrap ''decode updated canonical tip: %w'' (decodePostgresUint64 (sb_number r))) (\<lambda>decodedNumber.
           Inr (Some \<lparr>tip_Number = decodedNumber, tip_Hash = decodedHash\<rparr>))))"

definition writeSyncState :: "PgEnv \<Rightarrow> CanonicalUpdate \<Rightarrow> ChainTip option \<Rightarrow> Tables \<Rightarrow> err + Tables" where
  "writeSyncState x update tip db =
     bind (case tip of None \<Rightarrow> Inr None | Some t \<Rightarrow> bind (postgresInt64 (tip_Number t)) (\<lambda>n. Inr (Some n))) (\<lambda>number.
     bind (postgresInt64 (u_ChainID update)) (\<lambda>chainID.
     bind (fails_with (pe_sync x) ''write canonical sync state: %w'') (\<lambda>_.
       wrap ''write canonical sync state: %w''
         (upsertSyncStateQuery \<lparr>ss_chain_id = chainID, ss_last_number = number,
            ss_last_hash = map_option (\<lambda>t. be_bytes 32 (tip_Hash t)) tip,
            ss_last_sync_at = timestamptz (u_SyncedAt update)\<rparr> db))))"

text \<open>What \<open>ApplyCanonicalUpdate\<close> does inside its transaction, up to the commit.\<close>

definition update_transaction :: "Drivers \<Rightarrow> PgEnv \<Rightarrow> CanonicalUpdate \<Rightarrow> Tables \<Rightarrow> err + batch_state" where
  "update_transaction d x update db =
     bind (fails_with (pe_begin x) ''begin canonical update: %w'') (\<lambda>_.
     bind (fails_with (pe_lock x) ''acquire canonical writer lock: %w'') (\<lambda>_.
     bind (rejectDifferentChain x (u_ChainID update) db) (\<lambda>_.
     bind (postgresInt64 (u_ReplaceFrom update)) (\<lambda>replaceFrom.
     bind (postgresInt64 (u_RetainFrom update)) (\<lambda>retainFrom.
     bind (fails_with (pe_delete x) ''delete replaced canonical range: %w'') (\<lambda>_.
     let db1 = deleteCanonicalRangeQuery replaceFrom retainFrom db in
     bind (validateRetainedParent d x update db1) (\<lambda>_.
     bind (insertCanonicalBundles x (u_Blocks update) db1) (\<lambda>(db2, sent).
     bind (canonicalTipInTransaction d x db2) (\<lambda>tip.
     bind (writeSyncState x update tip db2) (\<lambda>db3.
       Inr (db3, sent)))))))))))"

definition Postgres_ApplyCanonicalUpdate :: "Drivers \<Rightarrow> PgEnv \<Rightarrow> CanonicalUpdate \<Rightarrow> Tables \<Rightarrow> error \<times> Tables" where
  "Postgres_ApplyCanonicalUpdate d x update db =
     (case validatePostgresUpdate update of
        Some e \<Rightarrow> (Some e, db)
      | None \<Rightarrow>
          (case update_transaction d x update db of
             Inl e \<Rightarrow> (Some e, db)
           | Inr (db1, sent) \<Rightarrow>
               (case pe_commit x of
                  None \<Rightarrow> (None, db1)
                | Some f \<Rightarrow> (Some (Errorf ''commit canonical update: %w'' [failure_err f]), if pe_applied x then db1 else db))))"

definition PostgresIndexStore :: "Drivers \<Rightarrow> (PgEnv, Tables) IndexStore" where
  "PostgresIndexStore d = \<lparr>is_CanonicalTip = Postgres_CanonicalTip d, is_CanonicalHash = Postgres_CanonicalHash d,
     is_ApplyCanonicalUpdate = Postgres_ApplyCanonicalUpdate d\<rparr>"

section \<open>Queries\<close>

definition lower_index :: "sql_transaction \<Rightarrow> sql_transaction \<Rightarrow> bool" where
  "lower_index a b \<longleftrightarrow> sx_transaction_index a < sx_transaction_index b"

definition lower_log :: "sql_event \<Rightarrow> sql_event \<Rightarrow> bool" where
  "lower_log a b \<longleftrightarrow> sl_log_index a < sl_log_index b"

definition newest_event :: "sql_event \<Rightarrow> sql_event \<Rightarrow> bool" where
  "newest_event a b \<longleftrightarrow> sl_block_number a > sl_block_number b \<or>
     sl_block_number a = sl_block_number b \<and> sl_log_index a > sl_log_index b"

text \<open>\<open>JOIN blocks AS b ON b.number = ...\<close>: the row with each block that has its number.\<close>

definition join_blocks :: "('r \<Rightarrow> int) \<Rightarrow> Tables \<Rightarrow> 'r list \<Rightarrow> ('r \<times> sql_block) list" where
  "join_blocks num db rs = concat (map (\<lambda>r. map (\<lambda>b. (r, b)) (filter (\<lambda>b. sb_number b = num r) (d_blocks db))) rs)"

definition blockByNumberQuery :: "int \<Rightarrow> Tables \<Rightarrow> (sql_block \<times> bytes list) option" where
  "blockByNumberQuery number db =
     map_option (\<lambda>b. (b, map sx_hash (sort_Slice lower_index (filter (\<lambda>t. sx_block_number t = sb_number b) (d_transactions db)))))
       (find (\<lambda>b. sb_number b = number) (d_blocks db))"

definition Postgres_BlockByNumber :: "Drivers \<Rightarrow> PgEnv \<Rightarrow> u64 \<Rightarrow> Tables \<Rightarrow> err + BlockResult" where
  "Postgres_BlockByNumber d x number db =
     (if uint number > MaxInt64 then Inl (Sentinel ErrNotFound)
      else
        bind (postgresInt64 number) (\<lambda>n.
        bind (fails_with (pe_query x) ''query block %d: %w'') (\<lambda>_.
        case blockByNumberQuery n db of
          None \<Rightarrow> Inl (Sentinel ErrNotFound)
        | Some (row, transactionHashes) \<Rightarrow>
            bind (wrap ''decode block %d: %w'' (decode_block d (scan_block d row))) (\<lambda>block.
            bind (decode_all (decodeHash d) ''decode block %d transaction %d hash: %w'' transactionHashes) (\<lambda>hashes.
              if int (length hashes) \<noteq> b_TransactionCount block
              then Inl (inconsistent_data ''%w: block %d contains %d transaction hashes, expected %d'')
              else Inr \<lparr>br_Block = block, br_TransactionHashes = hashes\<rparr>)))))"

definition transactionByHashQuery :: "bytes \<Rightarrow> Tables \<Rightarrow> (sql_transaction \<times> sql_block) option" where
  "transactionByHashQuery h db =
     (case join_blocks sx_block_number db (filter (\<lambda>t. sx_hash t = h) (d_transactions db)) of [] \<Rightarrow> None | r # rs \<Rightarrow> Some r)"

fun scan_events :: "Drivers \<Rightarrow> (sql_event \<times> sql_block) list \<Rightarrow> err + Event list" where
  "scan_events d [] = Inr []"
| "scan_events d ((e, b) # rows) =
     bind (decode_event d (scan_event e b)) (\<lambda>event. bind (scan_events d rows) (\<lambda>events. Inr (event # events)))"

definition scanPostgresEvents :: "Drivers \<Rightarrow> PgEnv \<Rightarrow> (sql_event \<times> sql_block) list \<Rightarrow> err + Event list" where
  "scanPostgresEvents d x rows =
     bind (scan_events d rows) (\<lambda>events. bind (check (map_option failure_err (pe_rows x))) (\<lambda>_. Inr events))"

definition eventsForTransactionQuery :: "bytes \<Rightarrow> Tables \<Rightarrow> (sql_event \<times> sql_block) list" where
  "eventsForTransactionQuery h db =
     join_blocks sl_block_number db (sort_Slice lower_log (filter (\<lambda>e. sl_transaction_hash e = h) (d_events db)))"

definition queryEventsForTransaction :: "Drivers \<Rightarrow> PgEnv \<Rightarrow> hash \<Rightarrow> Tables \<Rightarrow> err + Event list" where
  "queryEventsForTransaction d x h db =
     bind (fails_with (pe_cursor x) ''query events for transaction %s: %w'') (\<lambda>_.
       wrap ''scan events for transaction %s: %w''
         (scanPostgresEvents d x (eventsForTransactionQuery (be_bytes 32 h) db)))"

definition Postgres_TransactionByHash :: "Drivers \<Rightarrow> PgEnv \<Rightarrow> hash \<Rightarrow> Tables \<Rightarrow> err + TransactionResult" where
  "Postgres_TransactionByHash d x h db =
     bind (fails_with (pe_begin x) ''begin transaction lookup: %w'') (\<lambda>_.
     bind (fails_with (pe_query x) ''query transaction %s: %w'') (\<lambda>_.
     case transactionByHashQuery (be_bytes 32 h) db of
       None \<Rightarrow> Inl (Sentinel ErrNotFound)
     | Some (row, b) \<Rightarrow>
         bind (wrap ''decode transaction %s: %w'' (decode_transaction d (scan_transaction d row b))) (\<lambda>transaction.
         bind (queryEventsForTransaction d x h db) (\<lambda>events.
         bind (fails_with (pe_commit x) ''commit transaction lookup: %w'') (\<lambda>_.
           Inr \<lparr>tr_Transaction = transaction, tr_Events = events\<rparr>)))))"

definition eventsByAddressQuery :: "bytes \<Rightarrow> nat \<Rightarrow> Tables \<Rightarrow> (sql_event \<times> sql_block) list" where
  "eventsByAddressQuery a limit db =
     take limit (join_blocks sl_block_number db (sort_Slice newest_event (filter (\<lambda>e. sl_emitter e = a) (d_events db))))"

definition eventsByAddressBeforeQuery :: "bytes \<Rightarrow> int \<Rightarrow> int \<Rightarrow> nat \<Rightarrow> Tables \<Rightarrow> (sql_event \<times> sql_block) list" where
  "eventsByAddressBeforeQuery a number logIndex limit db =
     take limit (join_blocks sl_block_number db (sort_Slice newest_event
       (filter (\<lambda>e. sl_emitter e = a \<and>
          (sl_block_number e < number \<or> (sl_block_number e = number \<and> sl_log_index e < logIndex))) (d_events db))))"

definition queryAddressEventPage :: "Drivers \<Rightarrow> PgEnv \<Rightarrow> EventQuery \<Rightarrow> Tables \<Rightarrow> err + EventPage" where
  "queryAddressEventPage d x query db =
     (if q_Limit query = 0 then Inr \<lparr>p_Events = [], p_NextCursor = None\<rparr>
      else
        bind (postgresInt64 (ucast (q_Limit query) + 1)) (\<lambda>queryLimit.
        bind (case q_Before query of
                None \<Rightarrow> Inr (eventsByAddressQuery (be_bytes 20 (q_Address query)) (nat queryLimit) db)
              | Some c \<Rightarrow>
                  bind (postgresInt64 (ec_BlockNumber c)) (\<lambda>number.
                  bind (postgresInt64 (ucast (ec_LogIndex c))) (\<lambda>logIndex.
                    Inr (eventsByAddressBeforeQuery (be_bytes 20 (q_Address query)) number logIndex (nat queryLimit) db)))) (\<lambda>rows.
        bind (fails_with (pe_cursor x) ''query events for address %s: %w'') (\<lambda>_.
        bind (wrap ''scan events for address %s: %w'' (scanPostgresEvents d x rows)) (\<lambda>events.
          if length events \<le> unat (q_Limit query) then Inr \<lparr>p_Events = events, p_NextCursor = None\<rparr>
          else
            (let pageEvents = butlast events in
             Inr \<lparr>p_Events = pageEvents, p_NextCursor = Some (cursor_of (last pageEvents))\<rparr>))))))"

definition canonicalCursorExists :: "PgEnv \<Rightarrow> EventCursor \<Rightarrow> Tables \<Rightarrow> err + bool" where
  "canonicalCursorExists x cursor db =
     (if uint (ec_BlockNumber cursor) > MaxInt64 then Inr False
      else
        bind (postgresInt64 (ec_BlockNumber cursor)) (\<lambda>number.
        bind (fails_with (pe_query x) ''validate event cursor: %w'') (\<lambda>_.
          Inr (list_ex (\<lambda>b. sb_number b = number \<and> sb_hash b = be_bytes 32 (ec_BlockHash cursor)) (d_blocks db)))))"

definition Postgres_EventsByAddress :: "Drivers \<Rightarrow> PgEnv \<Rightarrow> EventQuery \<Rightarrow> Tables \<Rightarrow> err + EventPage" where
  "Postgres_EventsByAddress d x query db =
     (case pe_ctx x of
        Some c \<Rightarrow> Inl (ctx_err c)
      | None \<Rightarrow>
          if q_Limit query > MaxEventPageSize
          then Inl (Errorf ''%w: event page limit %d exceeds maximum %d'' [Sentinel ErrInvalidQuery])
          else
            (case q_Before query of
               None \<Rightarrow> queryAddressEventPage d x query db
             | Some cursor \<Rightarrow>
                 bind (fails_with (pe_begin x) ''begin event cursor lookup: %w'') (\<lambda>_.
                 bind (canonicalCursorExists x cursor db) (\<lambda>valid.
                   if \<not> valid then Inl (Sentinel ErrStaleCursor)
                   else
                     bind (queryAddressEventPage d x query db) (\<lambda>page.
                     bind (fails_with (pe_commit x) ''commit event cursor lookup: %w'') (\<lambda>_. Inr page))))))"

definition PostgresQueryStore :: "Drivers \<Rightarrow> (PgEnv, Tables) QueryStore" where
  "PostgresQueryStore d = \<lparr>qs_BlockByNumber = Postgres_BlockByNumber d, qs_TransactionByHash = Postgres_TransactionByHash d,
     qs_EventsByAddress = Postgres_EventsByAddress d\<rparr>"

end
