(* ===== verification/Paging.thy ===== *)
theory Paging
  imports Domain
begin

text \<open>
  What the two stores promise of \<open>EventsByAddress\<close>, as a locale: a page is the head of the
  address's events newest first, and the cursor of a page leads to the events after it. A client
  that follows \<open>NextCursor\<close> reads every event once, in order.
\<close>

definition page_of :: "u32 \<Rightarrow> Event list \<Rightarrow> EventPage" where
  "page_of limit es =
     (if length es \<le> unat limit then \<lparr>p_Events = es, p_NextCursor = None\<rparr>
      else \<lparr>p_Events = take (unat limit) es,
            p_NextCursor = Some (cursor_of (last (take (unat limit) es)))\<rparr>)"

text \<open>
  The client: ask for a page, append the pages its cursor leads to. \<^const>\<open>None\<close> is running out
  of fuel.
\<close>

fun walk_pages ::
  "(EventQuery \<Rightarrow> err + EventPage) \<Rightarrow> nat \<Rightarrow> address \<Rightarrow> u32 \<Rightarrow> EventCursor option
   \<Rightarrow> (err + Event list) option" where
  "walk_pages events 0 a limit cursor = None"
| "walk_pages events (Suc fuel) a limit cursor =
     (case events \<lparr>q_Address = a, q_Limit = limit, q_Before = cursor\<rparr> of
        Inl e \<Rightarrow> Some (Inl e)
      | Inr p \<Rightarrow>
          (case p_NextCursor p of
             None \<Rightarrow> Some (Inr (p_Events p))
           | Some c \<Rightarrow>
               map_option (map_sum id ((@) (p_Events p))) (walk_pages events fuel a limit (Some c))))"

locale event_pager =
  fixes events :: "EventQuery \<Rightarrow> 's \<Rightarrow> err + EventPage"
    and full :: "'s \<Rightarrow> address \<Rightarrow> Event list"
    and inv :: "'s \<Rightarrow> bool"
  assumes first_page: "inv s \<Longrightarrow> 0 < limit \<Longrightarrow> limit \<le> MaxEventPageSize \<Longrightarrow>
      events \<lparr>q_Address = a, q_Limit = limit, q_Before = None\<rparr> s = Inr (page_of limit (full s a))"
    and next_page: "inv s \<Longrightarrow> 0 < limit \<Longrightarrow> limit \<le> MaxEventPageSize \<Longrightarrow> i < length (full s a) \<Longrightarrow>
      events \<lparr>q_Address = a, q_Limit = limit, q_Before = Some (cursor_of (full s a ! i))\<rparr> s =
      Inr (page_of limit (drop (Suc i) (full s a)))"
begin

lemma walk_from:
  assumes inv: "inv s" and limit: "0 < limit" "limit \<le> MaxEventPageSize"
    and at: "events \<lparr>q_Address = a, q_Limit = limit, q_Before = cursor\<rparr> s =
      Inr (page_of limit (drop k (full s a)))"
    and fuel: "length (full s a) - k < fuel"
  shows "walk_pages (\<lambda>q. events q s) fuel a limit cursor = Some (Inr (drop k (full s a)))"
  using at fuel
proof (induction fuel arbitrary: k cursor)
  case (Suc fuel)
  let ?l = "unat limit" and ?full = "full s a"
  let ?page = "\<lambda>c. events \<lparr>q_Address = a, q_Limit = limit, q_Before = c\<rparr> s"
  have l: "0 < ?l" using limit(1) by (simp add: word_less_nat_alt)
  show ?case
  proof (cases "length ?full - k \<le> ?l")
    case True
    with Suc.prems show ?thesis by (simp add: page_of_def)
  next
    case False
    let ?i = "k + ?l - 1"
    have i: "?i < length ?full" "Suc ?i = k + ?l" using False l by auto
    have "last (take ?l (drop k ?full)) = ?full ! ?i"
      using False l by (simp add: last_conv_nth nth_take)
    then have c: "?page cursor = Inr \<lparr>p_Events = take ?l (drop k ?full),
        p_NextCursor = Some (cursor_of (?full ! ?i))\<rparr>"
      using Suc.prems(1) False by (simp add: page_of_def)
    have "walk_pages (\<lambda>q. events q s) fuel a limit (Some (cursor_of (?full ! ?i))) = Some (Inr (drop (k + ?l) ?full))"
      using Suc.IH [of "Some (cursor_of (?full ! ?i))" "k + ?l"] next_page [OF inv limit i(1)] i Suc.prems(2) l
      by simp
    moreover have "take ?l (drop k ?full) @ drop (k + ?l) ?full = drop k ?full"
      by (metis add.commute append_take_drop_id drop_drop)
    ultimately show ?thesis using c by simp
  qed
qed simp

lemma walk_complete:
  assumes "inv s" and "0 < limit" and "limit \<le> MaxEventPageSize" and "length (full s a) < fuel"
  shows "walk_pages (\<lambda>q. events q s) fuel a limit None = Some (Inr (full s a))"
  using walk_from [OF assms(1,2,3), of a None 0 fuel] first_page [OF assms(1,2,3)] assms(4) by simp

end

end
