(* ===== verification/Memory_Queries.thy ===== *)
theory Memory_Queries
  imports Memory_Props Paging
begin

text \<open>
  The read side of the in-memory store: what each query returns on a state of the invariant, that
  its pages obey the contract of \<open>Paging\<close>, and that no result depends on the order in which Go
  iterates over the map.
\<close>

section \<open>Orders of events\<close>

definition event_key :: "Event \<Rightarrow> u64 \<times> u32" where
  "event_key e = (e_BlockNumber e, e_LogIndex e)"

interpretation newest: slice_order newest_first event_key
  by unfold_locales (auto simp: newest_first_def event_key_def split: if_splits)

interpretation by_log: slice_order log_less e_LogIndex
  by unfold_locales (auto simp: log_less_def)

lemma before_cursor_iff: "eventBeforeCursor e (Some (cursor_of x)) \<longleftrightarrow> newest_first x e"
  by (auto simp: eventBeforeCursor_def cursor_of_def newest_first_def)

section \<open>The stored blocks\<close>

lemma stored_wf:
  assumes "memory_inv m" and "map_of (m_bundles m) n = Some b"
  shows "bb_Number b = n" "wf_bundle b" "cloneBundle b = b"
  using assms unfolding memory_inv_def canonical_bundles_def by blast+

lemma stored_clones:
  assumes "cloneBundle b = b"
  shows "map cloneTransaction (bb_Transactions b) = bb_Transactions b"
    and "map cloneEvent (bb_Events b) = bb_Events b"
  using arg_cong [OF assms, of bb_Transactions] arg_cong [OF assms, of bb_Events] by simp_all

lemma cloned_member: "map f xs = xs \<Longrightarrow> x \<in> set xs \<Longrightarrow> (\<And>y. f (f y) = f y) \<Longrightarrow> f x = x"
  by (metis imageE list.set_map)

section \<open>Lookups\<close>

lemma BlockByNumber_iff:
  "Memory_BlockByNumber None n m = (case map_of (m_bundles m) n of
     None \<Rightarrow> Inl (Sentinel ErrNotFound)
   | Some b \<Rightarrow> Inr \<lparr>br_Block = bb_Block b, br_TransactionHashes = map t_Hash (bb_Transactions b)\<rparr>)"
  by (simp add: Memory_BlockByNumber_def split: option.splits)

lemma transaction_loop_none:
  "(\<forall>b \<in> set bs. hash \<notin> t_Hash ` set (bb_Transactions b)) \<Longrightarrow>
     transaction_loop hash bs = Inl (Sentinel ErrNotFound)"
proof (induction bs)
  case (Cons b bs)
  then have "find (\<lambda>t. t_Hash t = hash) (bb_Transactions b) = None"
    by (auto simp: find_None_iff)
  with Cons show ?case by simp
qed simp

lemma transaction_loop_found:
  assumes "b \<in> set bs" and "t \<in> set (bb_Transactions b)"
    and "distinct (map t_Hash (bb_Transactions b))"
    and "\<And>c. c \<in> set bs \<Longrightarrow> t_Hash t \<in> t_Hash ` set (bb_Transactions c) \<Longrightarrow> c = b"
  shows "transaction_loop (t_Hash t) bs =
    Inr \<lparr>tr_Transaction = cloneTransaction t,
         tr_Events = sort_Slice log_less
           (map cloneEvent (filter (\<lambda>e. e_TransactionHash e = t_Hash t) (bb_Events b)))\<rparr>"
  using assms(1,4)
proof (induction bs)
  case (Cons c bs)
  show ?case
  proof (cases "c = b")
    case True
    have "find (\<lambda>s. t_Hash s = t_Hash t) (bb_Transactions b) = Some t"
    proof (cases "find (\<lambda>s. t_Hash s = t_Hash t) (bb_Transactions b)")
      case None
      then show ?thesis using assms(2) by (auto simp: find_None_iff)
    next
      case (Some s)
      then have "s \<in> set (bb_Transactions b)" "t_Hash s = t_Hash t"
        by (auto simp: find_Some_iff)
      with assms(2,3) have "s = t" by (auto simp: distinct_map inj_on_def)
      with Some show ?thesis by simp
    qed
    with True show ?thesis by simp
  next
    case False
    then have "find (\<lambda>s. t_Hash s = t_Hash t) (bb_Transactions c) = None"
      using Cons.prems(2) [of c] by (force simp: find_None_iff image_iff)
    with Cons False show ?thesis by auto
  qed
qed simp

text \<open>The transactions of a canonical store have one block each.\<close>

lemma tx_block_unique:
  assumes "memory_inv m" and "map_of (m_bundles m) n = Some b" and "map_of (m_bundles m) k = Some c"
    and "h \<in> t_Hash ` set (bb_Transactions b)" and "h \<in> t_Hash ` set (bb_Transactions c)"
  shows "k = n \<and> c = b"
proof (cases "k = n")
  case False
  then have "t_Hash ` set (bb_Transactions b) \<inter> t_Hash ` set (bb_Transactions c) = {}"
    using assms unfolding memory_inv_def canonical_bundles_def by (metis (full_types))
  with assms show ?thesis by blast
qed (use assms in auto)

lemma stored_iff:
  assumes "memory_inv m"
  shows "b \<in> set (map snd (m_bundles m)) \<longleftrightarrow> (\<exists>n. map_of (m_bundles m) n = Some b)"
proof -
  have "distinct (map fst (m_bundles m))" using assms by (simp add: memory_inv_def)
  then show ?thesis by force
qed

lemma TransactionByHash_found:
  assumes inv: "memory_inv m" and b: "map_of (m_bundles m) n = Some b"
    and t: "t \<in> set (bb_Transactions b)"
  shows "Memory_TransactionByHash None (t_Hash t) m =
    Inr \<lparr>tr_Transaction = t,
         tr_Events = sort_Slice log_less (filter (\<lambda>e. e_TransactionHash e = t_Hash t) (bb_Events b))\<rparr>"
proof -
  note wf = stored_wf [OF inv b] and cl = stored_clones [OF stored_wf(3) [OF inv b]]
  have "transaction_loop (t_Hash t) (map snd (m_bundles m)) =
      Inr \<lparr>tr_Transaction = cloneTransaction t,
         tr_Events = sort_Slice log_less
           (map cloneEvent (filter (\<lambda>e. e_TransactionHash e = t_Hash t) (bb_Events b)))\<rparr>"
  proof (rule transaction_loop_found [OF _ t])
    show "b \<in> set (map snd (m_bundles m))" using stored_iff [OF inv] b by blast
    show "distinct (map t_Hash (bb_Transactions b))"
      using wf(2) by (simp add: wf_bundle_def wf_transactions_def)
    show "c = b" if "c \<in> set (map snd (m_bundles m))" "t_Hash t \<in> t_Hash ` set (bb_Transactions c)" for c
      using that t tx_block_unique [OF inv b] stored_iff [OF inv] by blast
  qed
  moreover have "cloneTransaction t = t" using cloned_member [OF cl(1) t] by simp
  moreover have "map cloneEvent (filter P (bb_Events b)) = filter P (bb_Events b)" for P
    by (rule map_idI) (use cloned_member [OF cl(2)] in auto)
  ultimately show ?thesis by (simp add: Memory_TransactionByHash_def)
qed

lemma TransactionByHash_missing:
  assumes "memory_inv m" and "\<And>n b. map_of (m_bundles m) n = Some b \<Longrightarrow> h \<notin> t_Hash ` set (bb_Transactions b)"
  shows "Memory_TransactionByHash None h m = Inl (Sentinel ErrNotFound)"
  unfolding Memory_TransactionByHash_def option.case
  by (rule transaction_loop_none) (use stored_iff [OF assms(1)] assms(2) in blast)

section \<open>Events by address\<close>

definition stored_events :: "Memory \<Rightarrow> Event list" where
  "stored_events m = concat (map (\<lambda>(n, b). bb_Events b) (m_bundles m))"

definition events_of :: "Memory \<Rightarrow> address \<Rightarrow> Event list" where
  "events_of m a = sort_Slice newest_first (filter (\<lambda>e. e_Address e = a) (stored_events m))"

lemma distinct_stored_events:
  assumes inv: "memory_inv m"
  shows "distinct (map event_key (stored_events m))"
proof -
  have wf: "wf_bundle b \<and> bb_Number b = n" if "(n, b) \<in> set bs" "set bs \<subseteq> set (m_bundles m)" for n b bs
    using that stored_wf [OF inv, of n b] inv by (auto simp: memory_inv_def)
  have "distinct (map event_key (concat (map (\<lambda>(n, b). bb_Events b) bs)))"
    if "set bs \<subseteq> set (m_bundles m)" "distinct (map fst bs)" for bs
    using that
  proof (induction bs)
    case (Cons nb bs)
    obtain n b where nb: "nb = (n, b)" by fastforce
    have 1: "distinct (map event_key (bb_Events b))"
      using wf [of n b "[nb]"] Cons.prems nb
      by (auto simp: wf_bundle_def wf_events_def event_key_def distinct_map inj_on_def)
    have num: "e_BlockNumber e = k" if "(k, c) \<in> set (nb # bs)" "e \<in> set (bb_Events c)" for k c e
      using wf [OF that(1) Cons.prems(1)] that(2) by (auto simp: wf_bundle_def wf_events_def)
    have "event_key e \<noteq> event_key e'" if "e \<in> set (bb_Events b)" "(k, c) \<in> set bs" "e' \<in> set (bb_Events c)" for e e' k c
      using num [of n b e] num [of k c e'] that nb Cons.prems(2) by (force simp: event_key_def)
    then show ?case using 1 Cons nb by fastforce
  qed simp
  then show ?thesis using inv by (simp add: stored_events_def memory_inv_def)
qed

lemma address_events_eq:
  assumes inv: "memory_inv m"
  shows "address_events q (m_bundles m) =
    filter (\<lambda>e. eventBeforeCursor e (q_Before q)) (events_of m (q_Address q))"
proof -
  let ?P = "\<lambda>e. e_Address e = q_Address q \<and> eventBeforeCursor e (q_Before q)"
  have "map cloneEvent (filter ?P (bb_Events b)) = filter ?P (bb_Events b)" if "(n, b) \<in> set (m_bundles m)" for n b
  proof -
    have "map_of (m_bundles m) n = Some b" using that inv by (simp add: memory_inv_def)
    then have "map cloneEvent (bb_Events b) = bb_Events b" using stored_wf(3) [OF inv] stored_clones by blast
    then show ?thesis by (intro map_idI) (use cloned_member [of cloneEvent "bb_Events b"] in auto)
  qed
  then have unclone: "map (\<lambda>(n, b). map cloneEvent (filter ?P (bb_Events b))) (m_bundles m) =
      map (\<lambda>(n, b). filter ?P (bb_Events b)) (m_bundles m)"
    by auto
  have flat: "concat (map (\<lambda>(n, b). filter ?P (bb_Events b)) bs) =
      filter ?P (concat (map (\<lambda>(n, b). bb_Events b) bs))" for bs :: "(u64 \<times> BlockBundle) list"
    by (induction bs) auto
  have "address_events q (m_bundles m) = sort_Slice newest_first (filter ?P (stored_events m))"
    by (simp only: address_events_def stored_events_def de_Morgan_disj not_not unclone flat)
  also have "\<dots> = filter (\<lambda>e. eventBeforeCursor e (q_Before q)) (events_of m (q_Address q))"
    unfolding events_of_def newest.sort_filter [OF distinct_stored_events [OF inv]]
    by (simp add: conj_commute)
  finally show ?thesis .
qed
text \<open>A cursor is current when the block it names is still the canonical one.\<close>

definition cursor_current :: "Memory \<Rightarrow> EventCursor option \<Rightarrow> bool" where
  "cursor_current m c \<longleftrightarrow>
     (case c of None \<Rightarrow> True
      | Some c \<Rightarrow> (\<exists>b. map_of (m_bundles m) (ec_BlockNumber c) = Some b \<and> bb_Hash b = ec_BlockHash c))"

lemma EventsByAddress_iff:
  assumes "memory_inv m"
  shows "Memory_EventsByAddress None q m =
    (if q_Limit q > MaxEventPageSize
     then Inl (Errorf ''%w: event page limit %d exceeds maximum %d'' [Sentinel ErrInvalidQuery])
     else if \<not> cursor_current m (q_Before q) then Inl (Sentinel ErrStaleCursor)
     else if q_Limit q = 0 then Inr \<lparr>p_Events = [], p_NextCursor = None\<rparr>
     else Inr (page_of (q_Limit q)
       (filter (\<lambda>e. eventBeforeCursor e (q_Before q)) (events_of m (q_Address q)))))"
  using address_events_eq [OF assms, of q]
  by (auto simp: Memory_EventsByAddress_def cursor_current_def page_of_def Let_def split: option.splits)

lemma set_events_of: "set (events_of m a) = {e \<in> set (stored_events m). e_Address e = a}"
  by (auto simp: events_of_def)

lemma sorted_events_of: "memory_inv m \<Longrightarrow> sorted_wrt newest_first (events_of m a)"
  unfolding events_of_def
  by (rule newest.sorted_sort) (simp add: distinct_map_filter distinct_stored_events)

lemma stored_event_block:
  assumes inv: "memory_inv m" and "e \<in> set (stored_events m)"
  shows "\<exists>b. map_of (m_bundles m) (e_BlockNumber e) = Some b \<and> bb_Hash b = e_BlockHash e"
proof -
  obtain n b where nb: "(n, b) \<in> set (m_bundles m)" "e \<in> set (bb_Events b)"
    using assms(2) by (auto simp: stored_events_def)
  then have b: "map_of (m_bundles m) n = Some b" using inv by (simp add: memory_inv_def)
  with stored_wf(1,2) [OF inv b] nb show ?thesis by (auto simp: wf_bundle_def wf_events_def)
qed

interpretation mem_pages: event_pager "Memory_EventsByAddress None" events_of memory_inv
proof
  fix m :: Memory and limit :: u32 and a i
  assume inv: "memory_inv m" and "0 < limit" and "limit \<le> MaxEventPageSize"
  then have limit: "limit \<noteq> 0" "\<not> MaxEventPageSize < limit" by auto
  show "Memory_EventsByAddress None \<lparr>q_Address = a, q_Limit = limit, q_Before = None\<rparr> m =
      Inr (page_of limit (events_of m a))"
    using limit by (simp add: EventsByAddress_iff [OF inv] cursor_current_def eventBeforeCursor_def)
  assume i: "i < length (events_of m a)"
  let ?x = "events_of m a ! i"
  have "?x \<in> set (stored_events m)" using i set_events_of [of m a] nth_mem by blast
  then have "cursor_current m (Some (cursor_of ?x))"
    using stored_event_block [OF inv] by (simp add: cursor_current_def cursor_of_def)
  with limit show "Memory_EventsByAddress None
        \<lparr>q_Address = a, q_Limit = limit, q_Before = Some (cursor_of ?x)\<rparr> m =
      Inr (page_of limit (drop (Suc i) (events_of m a)))"
    using newest.filter_after [OF sorted_events_of [OF inv] i]
    by (simp add: EventsByAddress_iff [OF inv] before_cursor_iff)
qed

section \<open>Iteration order\<close>

text \<open>Go iterates over a map in any order: no query result depends on it.\<close>

lemma map_of_perm:
  assumes "distinct (map fst xs)" and "mset ys = mset xs"
  shows "map_of ys = map_of xs"
proof -
  have "distinct (map fst ys)" using assms by (metis mset_eq_imp_distinct_iff mset_map)
  then show ?thesis using assms by (metis map_of_inject_set mset_eq_setD)
qed

lemma memory_inv_perm:
  assumes "memory_inv m" and "mset bs = mset (m_bundles m)"
  shows "memory_inv (m\<lparr>m_bundles := bs\<rparr>)"
proof -
  have "map_of bs = map_of (m_bundles m)" using assms by (metis map_of_perm memory_inv_def)
  moreover have "distinct (map fst bs)"
    using assms by (metis memory_inv_def mset_eq_imp_distinct_iff mset_map)
  ultimately show ?thesis using assms(1) by (simp add: memory_inv_def)
qed

lemma events_of_perm:
  assumes inv: "memory_inv m" and bs: "mset bs = mset (m_bundles m)"
  shows "events_of (m\<lparr>m_bundles := bs\<rparr>) a = events_of m a"
proof -
  have "mset (concat (map f xs)) = sum_mset (image_mset (mset \<circ> f) (mset xs))"
    for f :: "u64 \<times> BlockBundle \<Rightarrow> Event list" and xs
    by (induction xs) auto
  then have "mset (stored_events (m\<lparr>m_bundles := bs\<rparr>)) = mset (stored_events m)"
    using bs by (simp add: stored_events_def)
  then show ?thesis unfolding events_of_def
    by (intro newest.sort_perm) (simp_all add: distinct_map_filter distinct_stored_events [OF inv])
qed
lemma tip_perm:
  assumes inv: "memory_inv m" and bs: "mset bs = mset (m_bundles m)"
  shows "Memory_CanonicalTip ctx (m\<lparr>m_bundles := bs\<rparr>) = Memory_CanonicalTip ctx m"
proof (cases ctx)
  case None
  have M: "map_of bs = map_of (m_bundles m)" using assms by (metis map_of_perm memory_inv_def)
  let ?m = "m\<lparr>m_bundles := bs\<rparr>"
  have total: "\<exists>t. Memory_CanonicalTip None m' = Inr t" for m'
    by (auto simp: Memory_CanonicalTip_def split: prod.splits)
  obtain t t' where t: "Memory_CanonicalTip None m = Inr t" "Memory_CanonicalTip None ?m = Inr t'"
    using total by blast
  have "t' = t"
  proof (cases "m_bundles m = []")
    case True
    then have "bs = []" using bs by simp
    then show ?thesis using True t CanonicalTip_cases(1) [of m] CanonicalTip_cases(1) [of ?m] by simp
  next
    case False
    then have "bs \<noteq> []" using bs by auto
    then obtain u u' where u: "t = Some u" "t' = Some u'"
      using False t CanonicalTip_cases(1) [of m] CanonicalTip_cases(1) [of ?m] by (cases t; cases t') auto
    obtain b where b: "map_of (m_bundles m) (tip_Number u) = Some b" "tip_Hash u = bb_Hash b"
        "\<forall>n \<in> dom (map_of (m_bundles m)). n \<le> tip_Number u"
      using CanonicalTip_cases(2) [of m u] t u by blast
    obtain b' where b': "map_of (m_bundles m) (tip_Number u') = Some b'" "tip_Hash u' = bb_Hash b'"
        "\<forall>n \<in> dom (map_of (m_bundles m)). n \<le> tip_Number u'"
      using CanonicalTip_cases(2) [of ?m u'] t u by (auto simp: M)
    have "tip_Number u' = tip_Number u" using b b' by (meson domI order_antisym)
    then show ?thesis using b b' u by simp
  qed
  then show ?thesis using None t by simp
qed (simp add: Memory_CanonicalTip_def)

lemma transaction_perm:
  assumes inv: "memory_inv m" and bs: "mset bs = mset (m_bundles m)"
  shows "Memory_TransactionByHash ctx h (m\<lparr>m_bundles := bs\<rparr>) = Memory_TransactionByHash ctx h m"
proof (cases ctx)
  case None
  have M: "map_of bs = map_of (m_bundles m)" using assms by (metis map_of_perm memory_inv_def)
  note inv' = memory_inv_perm [OF inv bs]
  show ?thesis
  proof (cases "\<exists>n b t. map_of (m_bundles m) n = Some b \<and> t \<in> set (bb_Transactions b) \<and> t_Hash t = h")
    case True
    then obtain n b t where nbt: "map_of (m_bundles m) n = Some b" "t \<in> set (bb_Transactions b)" "t_Hash t = h"
      by blast
    then show ?thesis
      using None TransactionByHash_found [OF inv nbt(1,2)] TransactionByHash_found [OF inv' _ nbt(2), of n]
      by (simp add: M)
  next
    case False
    then have "h \<notin> t_Hash ` set (bb_Transactions b)" if "map_of (m_bundles m) n = Some b" for n b
      using that by auto
    then show ?thesis
      using None TransactionByHash_missing [OF inv, of h] TransactionByHash_missing [OF inv', of h]
      by (simp add: M)
  qed
qed (simp add: Memory_TransactionByHash_def)

lemma events_perm:
  assumes inv: "memory_inv m" and bs: "mset bs = mset (m_bundles m)"
  shows "Memory_EventsByAddress ctx q (m\<lparr>m_bundles := bs\<rparr>) = Memory_EventsByAddress ctx q m"
proof (cases ctx)
  case None
  have M: "map_of bs = map_of (m_bundles m)" using assms by (metis map_of_perm memory_inv_def)
  then have "cursor_current (m\<lparr>m_bundles := bs\<rparr>) c = cursor_current m c" for c
    by (simp add: cursor_current_def split: option.splits)
  then show ?thesis
    by (simp add: None EventsByAddress_iff [OF inv] EventsByAddress_iff [OF memory_inv_perm [OF inv bs]]
        events_of_perm [OF inv bs])
qed (simp add: Memory_EventsByAddress_def)
end
