(* ===== verification/Memory_Theorems.thy ===== *)
theory Memory_Theorems
  imports Memory_Queries
begin

text \<open>
  The properties of the in-memory store, each with a concrete chain on which it applies: two linked
  blocks of one transaction each, and a fork of the second.
\<close>

section \<open>Reachable stores\<close>

text \<open>The stores a program can build: a new one, then any sequence of updates, rejected ones included.\<close>

inductive memory_reachable :: "Memory \<Rightarrow> bool" where
  new: "memory_reachable NewMemory"
| step: "memory_reachable m \<Longrightarrow> memory_reachable (snd (Memory_ApplyCanonicalUpdate ctx u m))"

lemma memory_reachable_inv: "memory_reachable m \<Longrightarrow> memory_inv m"
  by (induction rule: memory_reachable.induct) (blast intro: NewMemory_inv Memory_Apply_inv prod.collapse [symmetric])+

section \<open>A small chain\<close>

definition sample_transaction :: "u64 \<Rightarrow> hash \<Rightarrow> hash \<Rightarrow> Transaction" where
  "sample_transaction n h x = \<lparr>t_Hash = x, t_BlockNumber = n, t_BlockHash = h, t_Index = 0, t_Type = 2,
     t_Nonce = 7, t_Sender = 17, t_Recipient = Some 18, t_Value = Some 5, t_GasLimit = 21000,
     t_GasPrice = None, t_MaxFeePerGas = Some 30, t_MaxPriorityFeePerGas = Some 2, t_Input = None\<rparr>"

definition sample_event :: "u64 \<Rightarrow> hash \<Rightarrow> hash \<Rightarrow> u32 \<Rightarrow> Event" where
  "sample_event n h x i = \<lparr>e_BlockNumber = n, e_BlockHash = h, e_TransactionHash = x,
     e_TransactionIndex = 0, e_LogIndex = i, e_Address = 99, e_Topics = [1, 2], e_Data = None\<rparr>"

definition sample_bundle :: "u64 \<Rightarrow> hash \<Rightarrow> hash \<Rightarrow> hash \<Rightarrow> BlockBundle" where
  "sample_bundle n h p x = \<lparr>bb_Block = \<lparr>b_Number = n, b_Hash = h, b_ParentHash = p, b_Timestamp = 1000,
       b_GasLimit = 30000000, b_GasUsed = 21000, b_BaseFeePerGas = Some 9, b_TransactionCount = 1,
       b_IndexedAt = zero_Time\<rparr>,
     bb_Transactions = [sample_transaction n h x],
     bb_Events = [sample_event n h x 0, sample_event n h x 1]\<rparr>"

definition sample_update :: CanonicalUpdate where
  "sample_update = \<lparr>u_ChainID = 1, u_ReplaceFrom = 10, u_RetainFrom = 10,
     u_Blocks = [sample_bundle 10 110 109 1010, sample_bundle 11 111 110 1011], u_SyncedAt = zero_Time\<rparr>"

definition sample_reorg :: CanonicalUpdate where
  "sample_reorg = \<lparr>u_ChainID = 1, u_ReplaceFrom = 11, u_RetainFrom = 10,
     u_Blocks = [sample_bundle 11 211 110 2011], u_SyncedAt = zero_Time\<rparr>"

definition sample_memory :: Memory where
  "sample_memory = \<lparr>m_chainID = 1,
     m_bundles = [(10, sample_bundle 10 110 109 1010), (11, sample_bundle 11 111 110 1011)],
     m_lastSyncedAt = zero_Time\<rparr>"

lemmas sample_defs = sample_transaction_def sample_event_def sample_bundle_def sample_update_def
  sample_reorg_def sample_memory_def

lemma sample_memory_eq: "Memory_ApplyCanonicalUpdate None sample_update NewMemory = (None, sample_memory)"
  by code_simp

lemma sample_memory_inv: "memory_inv sample_memory"
  using Memory_Apply_inv [OF NewMemory_inv sample_memory_eq] .

section \<open>Properties\<close>

text \<open>
  C16: validation of a candidate map accepts exactly the canonical ones: every block under its own
  number, well formed, numbers without a gap, each parent hash the hash of the block below, and no
  transaction in two blocks. Every rejection is an \<open>ErrInvalidCanonicalUpdate\<close>.
\<close>

theorem memory_validation:
  assumes "distinct (map fst bs)"
  shows "case validateCanonicalBundles bs of
      None \<Rightarrow> canonical_bundles (map_of bs)
    | Some e \<Rightarrow> \<not> canonical_bundles (map_of bs) \<and> errors_Is e ErrInvalidCanonicalUpdate"
  using validateCanonicalBundles_iff [OF assms] validation_errors by (auto split: option.splits)

theorem memory_validation_witness:
  "distinct (map fst (m_bundles sample_memory)) \<and> canonical_bundles (map_of (m_bundles sample_memory)) \<and>
   \<not> canonical_bundles (map_of [(10, sample_bundle 10 110 109 1010), (11, sample_bundle 11 111 7 1011)])"
proof -
  have "validateCanonicalBundles (m_bundles sample_memory) = None" by code_simp
  moreover have "validateCanonicalBundles
      [(10, sample_bundle 10 110 109 1010), (11, sample_bundle 11 111 7 1011)] \<noteq> None" by code_simp
  ultimately show ?thesis
    using memory_validation [of "m_bundles sample_memory"]
      memory_validation [of "[(10, sample_bundle 10 110 109 1010), (11, sample_bundle 11 111 7 1011)]"]
    by (auto simp: sample_memory_def)
qed

text \<open>
  C4: what \<open>ApplyCanonicalUpdate\<close> does on every branch. It succeeds exactly on an acceptable update
  and then the stored blocks are those the update describes; otherwise it returns an error and the
  store is what it was, so an update is applied completely or not at all.
\<close>

theorem memory_update_atomic:
  assumes "memory_inv m"
  shows "case Memory_ApplyCanonicalUpdate ctx u m of
      (None, m') \<Rightarrow> ctx = None \<and> update_accepted (m_chainID m) (map_of (m_bundles m)) u \<and>
        map_of (m_bundles m') = updated cloneBundle u (map_of (m_bundles m)) \<and>
        m_chainID m' = u_ChainID u \<and> m_lastSyncedAt m' = u_SyncedAt u
    | (Some e, m') \<Rightarrow> m' = m \<and>
        (ctx = None \<and> \<not> update_accepted (m_chainID m) (map_of (m_bundles m)) u \<and>
           errors_Is e ErrInvalidCanonicalUpdate \<or> map_option ctx_err ctx = Some e)"
proof -
  obtain r m' where app: "Memory_ApplyCanonicalUpdate ctx u m = (r, m')" by fastforce
  show ?thesis
    using app Memory_Apply_chain [OF assms app] Memory_Apply_cases [OF assms, of u]
    by (cases r; cases ctx; cases "update_accepted (m_chainID m) (map_of (m_bundles m)) u") auto
qed

theorem memory_update_atomic_witness:
  "memory_inv sample_memory \<and>
   map_of (m_bundles (snd (Memory_ApplyCanonicalUpdate None sample_reorg sample_memory))) 11 =
     Some (sample_bundle 11 211 110 2011) \<and>
   Memory_ApplyCanonicalUpdate None (sample_reorg\<lparr>u_ChainID := 2\<rparr>) sample_memory =
     (Some (invalid_update ''%w: store chain ID is %d, update chain ID is %d''), sample_memory)"
proof -
  have r: "Memory_ApplyCanonicalUpdate None (sample_reorg\<lparr>u_ChainID := 2\<rparr>) sample_memory =
      (Some (invalid_update ''%w: store chain ID is %d, update chain ID is %d''), sample_memory)"
    by code_simp
  have "fst (Memory_ApplyCanonicalUpdate None sample_reorg sample_memory) = None" by code_simp
  moreover have "updated cloneBundle sample_reorg (map_of (m_bundles sample_memory)) 11 =
      Some (sample_bundle 11 211 110 2011)" by code_simp
  ultimately show ?thesis
    using memory_update_atomic [OF sample_memory_inv, of None sample_reorg] r sample_memory_inv
    by (auto split: prod.splits option.splits)
qed

text \<open>
  C17: whatever updates a program tries, in whatever order and with whatever outcome, the store holds
  one gapless, linked, well-formed chain with no transaction in two blocks.
\<close>

theorem memory_always_canonical:
  assumes "memory_reachable m"
  shows "canonical_bundles (map_of (m_bundles m)) \<and> distinct (map fst (m_bundles m))"
  using memory_reachable_inv [OF assms] by (simp add: memory_inv_def)

theorem memory_always_canonical_witness:
  "memory_reachable sample_memory \<and> canonical_bundles (map_of (m_bundles sample_memory))"
proof -
  have "memory_reachable sample_memory"
    using memory_reachable.step [OF memory_reachable.new, of None sample_update]
    by (simp add: sample_memory_eq)
  then show ?thesis using memory_always_canonical by blast
qed

text \<open>
  C18: a transaction of an update that was applied is found by its hash, with all of its events in
  log order; nothing else answers to that hash.
\<close>

theorem memory_transaction_roundtrip:
  assumes "memory_inv m" and "Memory_ApplyCanonicalUpdate None u m = (None, m')"
    and "b \<in> set (u_Blocks u)" and "t \<in> set (bb_Transactions b)"
  shows "\<exists>es. Memory_TransactionByHash None (t_Hash t) m' =
      Inr \<lparr>tr_Transaction = cloneTransaction t, tr_Events = es\<rparr> \<and>
    mset es = image_mset cloneEvent {# e \<in># mset (bb_Events b). e_TransactionHash e = t_Hash t #} \<and>
    sorted_wrt log_less es"
proof -
  note app = Memory_Apply_chain(1) [OF assms(1,2) refl]
  have inv: "memory_inv m'" by (rule Memory_Apply_inv [OF assms(1,2)])
  have "consecutive_from (u_ReplaceFrom u) (u_Blocks u)" using app by (simp add: update_accepted_def)
  then have "distinct (map bb_Number (u_Blocks u))" by (rule consecutive_from_distinct)
  then have "map_of (map (\<lambda>b. (bb_Number b, cloneBundle b)) (u_Blocks u)) (bb_Number b) = Some (cloneBundle b)"
    using assms(3) by (intro map_of_is_SomeI) (auto simp: comp_def)
  then have b: "map_of (m_bundles m') (bb_Number b) = Some (cloneBundle b)"
    using app by (simp add: updated_def map_add_def)
  have t: "cloneTransaction t \<in> set (bb_Transactions (cloneBundle b))" using assms(4) by (simp add: cloneBundle_def)
  let ?es = "filter (\<lambda>e. e_TransactionHash e = t_Hash t) (bb_Events (cloneBundle b))"
  have "distinct (map e_LogIndex (bb_Events (cloneBundle b)))"
    using stored_wf(2) [OF inv b] unfolding wf_bundle_def wf_events_def by blast
  then have "sorted_wrt log_less (sort_Slice log_less ?es)"
    by (intro by_log.sorted_sort) (simp add: distinct_map_filter)
  moreover have "mset ?es = image_mset cloneEvent {# e \<in># mset (bb_Events b). e_TransactionHash e = t_Hash t #}"
    by (simp add: cloneBundle_def filter_map comp_def)
  ultimately show ?thesis using TransactionByHash_found [OF inv b t] by simp
qed

theorem memory_transaction_roundtrip_witness:
  "\<exists>es. Memory_TransactionByHash None 1011 sample_memory =
      Inr \<lparr>tr_Transaction = sample_transaction 11 111 1011, tr_Events = es\<rparr> \<and> sorted_wrt log_less es"
proof -
  have "sample_bundle 11 111 110 1011 \<in> set (u_Blocks sample_update)" by (simp add: sample_update_def)
  moreover have "sample_transaction 11 111 1011 \<in> set (bb_Transactions (sample_bundle 11 111 110 1011))"
    by (simp add: sample_bundle_def)
  moreover have "cloneTransaction (sample_transaction 11 111 1011) = sample_transaction 11 111 1011"
    "t_Hash (sample_transaction 11 111 1011) = 1011" by code_simp+
  ultimately show ?thesis
    using memory_transaction_roundtrip [OF NewMemory_inv sample_memory_eq] by metis
qed

text \<open>
  C13: a client that starts without a cursor and follows \<open>NextCursor\<close> until there is none reads
  every stored event of the address, once each, newest first, for every page size the store allows.
  It needs at most one page per event and one more.
\<close>

theorem memory_paging_complete:
  assumes "memory_inv m" and "0 < limit" and "limit \<le> MaxEventPageSize"
    and "length (events_of m a) < fuel"
  shows "walk_pages (\<lambda>q. Memory_EventsByAddress None q m) fuel a limit None = Some (Inr (events_of m a)) \<and>
    set (events_of m a) = {e \<in> set (stored_events m). e_Address e = a} \<and>
    distinct (events_of m a) \<and> sorted_wrt newest_first (events_of m a)"
  using mem_pages.walk_complete [OF assms] set_events_of sorted_events_of [OF assms(1)]
    newest.sorted_distinct [OF sorted_events_of [OF assms(1)]] by blast

theorem memory_paging_complete_witness:
  "walk_pages (\<lambda>q. Memory_EventsByAddress None q sample_memory) 5 99 1 None =
     Some (Inr [sample_event 11 111 1011 1, sample_event 11 111 1011 0,
       sample_event 10 110 1010 1, sample_event 10 110 1010 0])"
proof -
  have "events_of sample_memory 99 = [sample_event 11 111 1011 1, sample_event 11 111 1011 0,
      sample_event 10 110 1010 1, sample_event 10 110 1010 0]" by code_simp
  then show ?thesis
    using memory_paging_complete [OF sample_memory_inv, of 1 99 5] by (simp add: MaxEventPageSize_def)
qed

text \<open>
  C19: a cursor taken from an event of one state of the store is answered in a later state exactly
  while the event's block is still the canonical one at its height. After a reorganisation that
  replaced it the client gets \<open>ErrStaleCursor\<close>, never a page of the other fork.
\<close>

theorem memory_stale_cursor:
  assumes "memory_inv m'" and "0 < limit" and "limit \<le> MaxEventPageSize"
  shows "Memory_EventsByAddress None
      \<lparr>q_Address = a, q_Limit = limit, q_Before = Some (cursor_of e)\<rparr> m' =
    (if map_option fst (memory_chain m' (e_BlockNumber e)) = Some (e_BlockHash e)
     then Inr (page_of limit (filter (newest_first e) (events_of m' a)))
     else Inl (Sentinel ErrStaleCursor))"
proof -
  have "map_option fst (memory_chain m' (e_BlockNumber e)) = Some (e_BlockHash e) \<longleftrightarrow>
      cursor_current m' (Some (cursor_of e))"
    by (auto simp: memory_chain_def cursor_current_def cursor_of_def header_def)
  then show ?thesis
    using assms by (auto simp: EventsByAddress_iff before_cursor_iff)
qed

theorem memory_stale_cursor_witness:
  "Memory_EventsByAddress None \<lparr>q_Address = 99, q_Limit = 10,
      q_Before = Some (cursor_of (sample_event 11 111 1011 1))\<rparr>
      (snd (Memory_ApplyCanonicalUpdate None sample_reorg sample_memory)) =
    Inl (Sentinel ErrStaleCursor)"
proof -
  let ?m = "snd (Memory_ApplyCanonicalUpdate None sample_reorg sample_memory)"
  have "memory_inv ?m" by (rule Memory_Apply_inv [OF sample_memory_inv prod.collapse [symmetric]])
  moreover have "map_option fst (memory_chain ?m 11) \<noteq> Some 111" by code_simp
  ultimately show ?thesis
    using memory_stale_cursor [of ?m 10 99 "sample_event 11 111 1011 1"]
    by (simp add: MaxEventPageSize_def sample_event_def)
qed

text \<open>
  C20: Go iterates over the block map in an unspecified order. No answer depends on it: with the same
  entries in any other order the tip, every transaction lookup and every event page are the same.
\<close>

theorem memory_iteration_order:
  assumes "memory_inv m" and "mset bs = mset (m_bundles m)"
  shows "Memory_CanonicalTip ctx (m\<lparr>m_bundles := bs\<rparr>) = Memory_CanonicalTip ctx m \<and>
    Memory_TransactionByHash ctx h (m\<lparr>m_bundles := bs\<rparr>) = Memory_TransactionByHash ctx h m \<and>
    Memory_EventsByAddress ctx q (m\<lparr>m_bundles := bs\<rparr>) = Memory_EventsByAddress ctx q m"
  using tip_perm transaction_perm events_perm assms by simp

theorem memory_iteration_order_witness:
  "Memory_CanonicalTip None (sample_memory\<lparr>m_bundles := rev (m_bundles sample_memory)\<rparr>) =
     Inr (Some \<lparr>tip_Number = 11, tip_Hash = 111\<rparr>)"
proof -
  have "Memory_CanonicalTip None sample_memory = Inr (Some \<lparr>tip_Number = 11, tip_Hash = 111\<rparr>)"
    by code_simp
  then show ?thesis
    using memory_iteration_order [OF sample_memory_inv, of "rev (m_bundles sample_memory)" None 0 undefined]
    by simp
qed

end
