(* ===== verification/Fetcher_Props.thy ===== *)
theory Fetcher_Props
  imports Fetcher
begin

text \<open>
  What the fetcher guarantees of a block it returns: the bundle is well formed, it carries what the
  node answered and nothing else, and everything else is an error.
\<close>

section \<open>Transactions\<close>

lemma map_transaction_sel [simp]:
  "t_Hash (map_transaction g n h i s x) = x_Hash x"
  "t_BlockNumber (map_transaction g n h i s x) = n"
  "t_BlockHash (map_transaction g n h i s x) = h"
  "t_Index (map_transaction g n h i s x) = i"
  "t_Sender (map_transaction g n h i s x) = s"
  "t_Input (map_transaction g n h i s x) = Some (bytes_of (x_Data x))"
  by (simp_all add: map_transaction_def Let_def append_empty_def)

text \<open>What one entry of the result is, at position \<open>i\<close>.\<close>

definition mapped_from :: "'w Fetcher \<Rightarrow> u64 \<Rightarrow> hash \<Rightarrow> nat \<Rightarrow> EthTransaction option \<Rightarrow> Transaction \<Rightarrow> bool" where
  "mapped_from f n h i x t \<longleftrightarrow>
     (\<exists>y s. x = Some y \<and> f_sender f y = Inr s \<and> t = map_transaction (f_geth f) n h (of_nat i) s y \<and>
        (x_Protected y \<longrightarrow> f_chainID f = Some (x_ChainId y)))"

definition positions_of :: "Transaction list \<Rightarrow> (hash \<rightharpoonup> u32)" where
  "positions_of ts = map_of (map (\<lambda>t. (t_Hash t, t_Index t)) ts)"

lemma positions_of_append:
  "t_Hash t \<notin> t_Hash ` set ts \<Longrightarrow> positions_of (ts @ [t]) = (positions_of ts)(t_Hash t \<mapsto> t_Index t)"
  by (force simp: positions_of_def map_add_def fun_eq_iff split: option.splits dest: map_of_SomeD)

lemma positions_of_None: "positions_of ts h = None \<longleftrightarrow> h \<notin> t_Hash ` set ts"
  by (force simp: positions_of_def map_of_eq_None_iff)

lemma map_transactions_ok:
  assumes "map_transactions f n h (length ts) xs ts (positions_of ts) = Inr (ts', pos)"
    and "distinct (map t_Hash ts)"
  shows "\<exists>new. ts' = ts @ new \<and> length new = length xs \<and> pos = positions_of ts' \<and>
    distinct (map t_Hash ts') \<and>
    (\<forall>j < length xs. mapped_from f n h (length ts + j) (xs ! j) (new ! j))"
  using assms
proof (induction xs arbitrary: ts)
  case (Cons x xs)
  show ?case
  proof (cases x)
    case None
    with Cons.prems show ?thesis by simp
  next
    case (Some y)
    with Cons.prems obtain s where s: "f_sender f y = Inr s"
        "x_Protected y \<longrightarrow> f_chainID f = Some (x_ChainId y)" "positions_of ts (x_Hash y) = None"
        "map_transactions f n h (Suc (length ts)) xs
           (ts @ [map_transaction (f_geth f) n h (of_nat (length ts)) s y])
           ((positions_of ts)(x_Hash y \<mapsto> of_nat (length ts))) = Inr (ts', pos)"
      by (auto simp: Let_def split: if_splits sum.splits option.splits)
    let ?t = "map_transaction (f_geth f) n h (of_nat (length ts)) s y"
    have new: "x_Hash y \<notin> t_Hash ` set ts" using s(3) by (simp add: positions_of_None)
    have "map_transactions f n h (length (ts @ [?t])) xs (ts @ [?t]) (positions_of (ts @ [?t])) = Inr (ts', pos)"
      using s(4) positions_of_append [of ?t ts] new by simp
    moreover have "distinct (map t_Hash (ts @ [?t]))" using Cons.prems(2) new by simp
    ultimately obtain new where n: "ts' = (ts @ [?t]) @ new" "length new = length xs" "pos = positions_of ts'"
        "distinct (map t_Hash ts')"
        "\<forall>j < length xs. mapped_from f n h (length (ts @ [?t]) + j) (xs ! j) (new ! j)"
      using Cons.IH [of "ts @ [?t]"] by blast
    have "mapped_from f n h (length ts + j) ((x # xs) ! j) ((?t # new) ! j)" if "j < length (x # xs)" for j
      using that n(5) s Some by (cases j) (auto simp: mapped_from_def)
    with n show ?thesis by (intro exI [of _ "?t # new"]) simp
  qed
qed auto

lemma mapTransactions_ok:
  assumes "mapTransactions f block = Inr (ts, pos)"
  shows "length ts = length (eb_Transactions block)" "pos = positions_of ts" "distinct (map t_Hash ts)"
    "int (length ts) \<le> MaxUint32"
    "\<And>j. j < length ts \<Longrightarrow>
       mapped_from f (eb_NumberU64 block) (eb_Hash block) j (eb_Transactions block ! j) (ts ! j)"
proof -
  have "map_transactions f (eb_NumberU64 block) (eb_Hash block) (length []) (eb_Transactions block) []
      (positions_of []) = Inr (ts, pos)" and len: "\<not> MaxUint32 < int (length (eb_Transactions block))"
    using assms by (auto simp: mapTransactions_def positions_of_def split: if_splits)
  from map_transactions_ok [OF this(1)]
  show "length ts = length (eb_Transactions block)" "pos = positions_of ts" "distinct (map t_Hash ts)"
    "\<And>j. j < length ts \<Longrightarrow>
       mapped_from f (eb_NumberU64 block) (eb_Hash block) j (eb_Transactions block ! j) (ts ! j)"
    by auto
  then show "int (length ts) \<le> MaxUint32" using len by simp
qed

lemma mapped_hashes:
  assumes "mapTransactions f block = Inr (ts, pos)"
  shows "map Some (map t_Hash ts) = map (map_option x_Hash) (eb_Transactions block)"
proof (intro nth_equalityI)
  fix i assume "i < length (map Some (map t_Hash ts))"
  then have i: "i < length ts" by simp
  with mapTransactions_ok(5) [OF assms i] mapTransactions_ok(1) [OF assms]
  show "map Some (map t_Hash ts) ! i = map (map_option x_Hash) (eb_Transactions block) ! i"
    by (auto simp: mapped_from_def)
qed (simp add: mapTransactions_ok(1) [OF assms])

text \<open>
  The transaction \<open>t\<close> stored for entry \<open>i\<close> of block \<open>n\<close> with hash \<open>h\<close>, field by field: the recovered
  sender, the payload as a non-nil slice, and of the fee fields the gas price for legacy and
  access-list transactions and the two caps for every other type.
\<close>

definition sent_as :: "'w Fetcher \<Rightarrow> u64 \<Rightarrow> hash \<Rightarrow> nat \<Rightarrow> EthTransaction \<Rightarrow> Transaction \<Rightarrow> bool" where
  "sent_as f n h i y t \<longleftrightarrow>
     g_Sender (f_geth f) (f_signer f) y = Inr (t_Sender t) \<and>
     t_BlockNumber t = n \<and> t_BlockHash t = h \<and> unat (t_Index t) = i \<and>
     t_Hash t = x_Hash y \<and> t_Type t = x_Type y \<and> t_Nonce t = x_Nonce y \<and> t_Recipient t = x_To y \<and>
     t_Value t = x_Value y \<and> t_GasLimit t = x_Gas y \<and> t_Input t = Some (bytes_of (x_Data y)) \<and>
     (if x_Type y \<in> {g_LegacyTxType (f_geth f), g_AccessListTxType (f_geth f)}
      then t_GasPrice t = x_GasPrice y \<and> t_MaxFeePerGas t = None \<and> t_MaxPriorityFeePerGas t = None
      else t_GasPrice t = None \<and> t_MaxFeePerGas t = x_GasFeeCap y \<and> t_MaxPriorityFeePerGas t = x_GasTipCap y)"

lemma mapped_sent_as:
  assumes "mapped_from f n h i x t" and "int i < 2 ^ 32"
  shows "\<exists>y. x = Some y \<and> sent_as f n h i y t"
proof -
  obtain y s where y: "x = Some y" "f_sender f y = Inr s" "t = map_transaction (f_geth f) n h (of_nat i) s y"
    using assms(1) by (auto simp: mapped_from_def)
  have "int i < int (2 ^ 32)" using assms(2) by simp
  then have "i < 2 ^ 32" by (rule of_nat_less_imp_less)
  then have "unat (of_nat i :: u32) = i" by (simp add: unsigned_of_nat take_bit_nat_eq_self)
  then have "sent_as f n h i y t" using y(2,3)
    by (simp add: sent_as_def f_sender_def) (simp add: map_transaction_def Let_def)
  then show ?thesis using y(1) by blast
qed

lemma mapped_sent:
  assumes "mapTransactions f block = Inr (ts, pos)"
  shows "length ts = length (eb_Transactions block)"
    and "i < length ts \<Longrightarrow> \<exists>y. eb_Transactions block ! i = Some y \<and> sent_as f (eb_NumberU64 block) (eb_Hash block) i y (ts ! i)"
  using mapTransactions_ok [OF assms] by (auto simp: MaxUint32_def intro!: mapped_sent_as)

section \<open>Events\<close>

interpretation by_log_index: slice_order log_index_less e_LogIndex
  by unfold_locales (auto simp: log_index_less_def)

text \<open>The event a log becomes, field by field.\<close>

definition event_of :: "u64 \<Rightarrow> hash \<Rightarrow> Log \<Rightarrow> Event" where
  "event_of n h log = \<lparr>e_BlockNumber = n, e_BlockHash = h, e_TransactionHash = l_TxHash log,
     e_TransactionIndex = ucast (l_TxIndex log), e_LogIndex = ucast (l_Index log),
     e_Address = l_Address log, e_Topics = l_Topics log, e_Data = Some (bytes_of (l_Data log))\<rparr>"

definition good_log :: "u64 \<Rightarrow> hash \<Rightarrow> (hash \<rightharpoonup> u32) \<Rightarrow> Log \<Rightarrow> bool" where
  "good_log n h positions log \<longleftrightarrow>
     \<not> l_Removed log \<and> l_BlockHash log = h \<and> l_BlockNumber log = n \<and>
     uint (l_Index log) \<le> MaxUint32 \<and> uint (l_TxIndex log) \<le> MaxUint32 \<and> length (l_Topics log) \<le> 4 \<and>
     positions (l_TxHash log) = Some (ucast (l_TxIndex log))"

lemma map_events_iff:
  "map_events n h logs positions es seen = Inr es' \<longleftrightarrow>
     es' = es @ map (event_of n h) logs \<and> (\<forall>log \<in> set logs. good_log n h positions log) \<and>
     distinct (map (e_LogIndex \<circ> event_of n h) logs) \<and>
     seen \<inter> (e_LogIndex \<circ> event_of n h) ` set logs = {}"
  by (induction logs arbitrary: es seen)
    (auto simp: Let_def good_log_def event_of_def append_empty_def not_less split: option.splits)

lemma mapEvents_iff:
  "mapEvents n h logs positions = Inr es \<longleftrightarrow>
     es = sort_Slice log_index_less (map (event_of n h) logs) \<and>
     (\<forall>log \<in> set logs. good_log n h positions log) \<and>
     distinct (map e_LogIndex (map (event_of n h) logs))"
proof -
  let ?ok = "(\<forall>log \<in> set logs. good_log n h positions log) \<and> distinct (map (e_LogIndex \<circ> event_of n h) logs)"
  have iff: "map_events n h logs positions [] {} = Inr es' \<longleftrightarrow> es' = map (event_of n h) logs \<and> ?ok" for es'
    by (simp add: map_events_iff)
  show ?thesis
  proof (cases ?ok)
    case True
    then have "map_events n h logs positions [] {} = Inr (map (event_of n h) logs)" using iff by simp
    with True show ?thesis by (auto simp: mapEvents_def)
  next
    case False
    then have "\<nexists>es'. map_events n h logs positions [] {} = Inr es'" using iff by simp
    then obtain e where "map_events n h logs positions [] {} = Inl e" by (meson sumE)
    with False show ?thesis by (simp add: mapEvents_def)
  qed
qed

section \<open>The whole block\<close>

text \<open>What the accessors of a go-ethereum block promise: \<open>NumberU64\<close> is the low word of \<open>Number\<close>.\<close>

definition block_numbers :: "'w Reader \<Rightarrow> bool" where
  "block_numbers r \<longleftrightarrow>
     (\<forall>n w block w' i. r_BlockByNumber r n w = (Inr (Some block), w') \<longrightarrow> eb_Number block = Some i \<longrightarrow>
        eb_NumberU64 block = big_Uint64 i)"

lemma validateBlockNumber_ok:
  "validateBlockNumber block n = None \<longleftrightarrow>
     (\<exists>i. eb_Number block = Some i \<and> IsUint64 i \<and> big_Uint64 i = n)"
  by (auto simp: validateBlockNumber_def split: option.splits)

lemma FetchBlock_ok:
  assumes "FetchBlock f n w = (Inr b, w')"
  obtains block w1 ts pos logs w2 es i where
    "r_BlockByNumber (f_chain f) (Some (uint n)) w = (Inr (Some block), w1)"
    "eb_Number block = Some i" "big_Uint64 i = n"
    "mapTransactions f block = Inr (ts, pos)"
    "r_LogsByBlockHash (f_chain f) (eb_Hash block) w1 = (Inr logs, w2)"
    "mapEvents n (eb_Hash block) logs pos = Inr es"
    "bb_Number b = n" "header b = (eb_Hash block, eb_ParentHash block)"
    "b_TransactionCount (bb_Block b) = int (length ts)" "bb_Transactions b = ts" "bb_Events b = es"
  using assms validateBlockNumber_ok
  by (fastforce simp: FetchBlock_def Let_def SetUint64_def header_def split: prod.splits sum.splits option.splits)

lemma FetchBlock_block:
  assumes "FetchBlock f n w = (Inr b, w')" and "r_BlockByNumber (f_chain f) (Some (uint n)) w = (Inr (Some block), w1)"
    and "r_LogsByBlockHash (f_chain f) (eb_Hash block) w1 = (Inr logs, w2)"
  shows "bb_Block b = \<lparr>b_Number = n, b_Hash = eb_Hash block, b_ParentHash = eb_ParentHash block,
    b_Timestamp = eb_Time block, b_GasLimit = eb_GasLimit block, b_GasUsed = eb_GasUsed block,
    b_BaseFeePerGas = eb_BaseFee block, b_TransactionCount = int (length (eb_Transactions block)),
    b_IndexedAt = Time_UTC (fst (f_now f w2))\<rparr>"
  using assms mapTransactions_ok(1) [of f block]
  by (auto simp: FetchBlock_def Let_def SetUint64_def split: prod.splits sum.splits option.splits)

lemma FetchBlock_number: "FetchBlock f n w = (Inr b, w') \<Longrightarrow> bb_Number b = n"
  by (erule FetchBlock_ok) simp

lemma FetchBlock_wf:
  assumes fetch: "FetchBlock f n w = (Inr b, w')" and reader: "block_numbers (f_chain f)"
  shows "wf_bundle b"
proof -
  from FetchBlock_ok [OF fetch] obtain block w1 ts pos logs w2 es i where
    block: "r_BlockByNumber (f_chain f) (Some (uint n)) w = (Inr (Some block), w1)"
      "eb_Number block = Some i" "big_Uint64 i = n"
    and ts: "mapTransactions f block = Inr (ts, pos)"
    and es: "mapEvents n (eb_Hash block) logs pos = Inr es"
    and b: "bb_Number b = n" "header b = (eb_Hash block, eb_ParentHash block)"
      "b_TransactionCount (bb_Block b) = int (length ts)" "bb_Transactions b = ts" "bb_Events b = es" .
  note ts = mapTransactions_ok [OF ts] and es = es [unfolded mapEvents_iff]
  have num: "eb_NumberU64 block = n" using reader block by (auto simp: block_numbers_def)
  have "t_BlockNumber (ts ! j) = n \<and> t_BlockHash (ts ! j) = eb_Hash block \<and> t_Index (ts ! j) = of_nat j"
    if "j < length ts" for j
    using ts(5) [OF that] num by (auto simp: mapped_from_def)
  then have "wf_transactions b" using ts b by (simp add: wf_transactions_def header_def)
  moreover have "wf_events b"
  proof -
    have "\<exists>t \<in> set ts. t_Hash t = l_TxHash log \<and> t_Index t = ucast (l_TxIndex log)" if "log \<in> set logs" for log
    proof -
      have "positions_of ts (l_TxHash log) = Some (ucast (l_TxIndex log))"
        using that es ts(2) by (simp add: good_log_def)
      then show ?thesis unfolding positions_of_def by (force dest!: map_of_SomeD)
    qed
    moreover have "distinct (map e_LogIndex es)"
      using es by (metis mset_eq_imp_distinct_iff mset_map mset_sort_Slice)
    ultimately show ?thesis using es b by (auto simp: wf_events_def event_of_def good_log_def header_def)
  qed
  ultimately show ?thesis by (simp add: wf_bundle_def)
qed

section \<open>Which answers are accepted\<close>

definition good_transaction :: "'w Fetcher \<Rightarrow> EthTransaction option \<Rightarrow> bool" where
  "good_transaction f x \<longleftrightarrow>
     (\<exists>y s. x = Some y \<and> f_sender f y = Inr s \<and> (x_Protected y \<longrightarrow> f_chainID f = Some (x_ChainId y)))"

definition good_transactions :: "'w Fetcher \<Rightarrow> EthBlock \<Rightarrow> bool" where
  "good_transactions f block \<longleftrightarrow>
     int (length (eb_Transactions block)) \<le> MaxUint32 \<and>
     (\<forall>x \<in> set (eb_Transactions block). good_transaction f x) \<and>
     distinct (map (map_option x_Hash) (eb_Transactions block))"

definition good_logs :: "u64 \<Rightarrow> EthBlock \<Rightarrow> Log list \<Rightarrow> bool" where
  "good_logs n block logs \<longleftrightarrow>
     (\<forall>log \<in> set logs.
        \<not> l_Removed log \<and> l_BlockHash log = eb_Hash block \<and> l_BlockNumber log = n \<and>
        uint (l_Index log) \<le> MaxUint32 \<and> uint (l_TxIndex log) \<le> MaxUint32 \<and> length (l_Topics log) \<le> 4 \<and>
        (\<exists>j < length (eb_Transactions block). \<exists>y. eb_Transactions block ! j = Some y \<and>
           x_Hash y = l_TxHash log \<and> unat (l_TxIndex log) = j)) \<and>
     distinct (map l_Index logs)"

lemma inconsistent_Is [simp]: "errors_Is (inconsistent msg) s \<longleftrightarrow> s = ErrInconsistentBlockData"
  by (auto simp: inconsistent_def)

lemma map_transactions_error:
  "map_transactions f n h i xs ts pos = Inl e \<Longrightarrow> f_chainID f \<noteq> None \<Longrightarrow> errors_Is e ErrInconsistentBlockData"
  by (induction f n h i xs ts pos rule: map_transactions.induct)
    (auto simp: Let_def split: if_splits sum.splits)

lemma map_transactions_iff:
  assumes "f_chainID f \<noteq> None"
  shows "(\<exists>r. map_transactions f n h i xs ts pos = Inr r) \<longleftrightarrow>
    (\<forall>x \<in> set xs. good_transaction f x \<and> pos (x_Hash (the x)) = None) \<and> distinct (map (map_option x_Hash) xs)"
proof (induction xs arbitrary: i ts pos)
  case (Cons x xs)
  show ?case
  proof (cases "good_transaction f x \<and> pos (x_Hash (the x)) = None")
    case True
    then obtain y s where y: "x = Some y" "f_sender f y = Inr s"
        "x_Protected y \<longrightarrow> f_chainID f = Some (x_ChainId y)" "pos (x_Hash y) = None"
      by (auto simp: good_transaction_def)
    have fresh: "(\<forall>z \<in> set xs. good_transaction f z \<and> (pos(x_Hash y \<mapsto> p)) (x_Hash (the z)) = None) \<longleftrightarrow>
        (\<forall>z \<in> set xs. good_transaction f z \<and> pos (x_Hash (the z)) = None) \<and>
        (\<forall>z \<in> set xs. good_transaction f z \<longrightarrow> map_option x_Hash z \<noteq> Some (x_Hash y))" for p
      by (auto simp: good_transaction_def)
    have "(\<exists>r. map_transactions f n h i (x # xs) ts pos = Inr r) \<longleftrightarrow>
        (\<exists>r. map_transactions f n h (Suc i) xs (ts @ [map_transaction (f_geth f) n h (of_nat i) s y])
           (pos(x_Hash y \<mapsto> of_nat i)) = Inr r)"
      using y by (auto simp: Let_def)
    also have "\<dots> \<longleftrightarrow> (\<forall>z \<in> set xs. good_transaction f z \<and> (pos(x_Hash y \<mapsto> of_nat i)) (x_Hash (the z)) = None) \<and>
        distinct (map (map_option x_Hash) xs)"
      by (rule Cons.IH)
    finally have eq: "(\<exists>r. map_transactions f n h i (x # xs) ts pos = Inr r) \<longleftrightarrow>
        (\<forall>z \<in> set xs. good_transaction f z \<and> pos (x_Hash (the z)) = None) \<and>
        (\<forall>z \<in> set xs. good_transaction f z \<longrightarrow> map_option x_Hash z \<noteq> Some (x_Hash y)) \<and>
        distinct (map (map_option x_Hash) xs)"
      unfolding fresh by (simp only: conj_assoc)
    have all: "(\<forall>z \<in> set (x # xs). good_transaction f z \<and> pos (x_Hash (the z)) = None) \<longleftrightarrow>
        (\<forall>z \<in> set xs. good_transaction f z \<and> pos (x_Hash (the z)) = None)"
      using True by simp
    have dist: "distinct (map (map_option x_Hash) (x # xs)) \<longleftrightarrow> distinct (map (map_option x_Hash) xs) \<and>
        (\<forall>z \<in> set xs. map_option x_Hash z \<noteq> Some (x_Hash y))"
      unfolding y(1) list.map distinct.simps option.map set_map image_iff by metis
    show ?thesis unfolding eq all dist by blast
  next
    case False
    then have "\<nexists>r. map_transactions f n h i (x # xs) ts pos = Inr r"
      using assms by (cases x) (auto simp: good_transaction_def Let_def split: sum.splits)
    with False show ?thesis by auto
  qed
qed auto

lemma mapTransactions_iff:
  "f_chainID f \<noteq> None \<Longrightarrow> (\<exists>r. mapTransactions f block = Inr r) \<longleftrightarrow> good_transactions f block"
  using map_transactions_iff [of f "eb_NumberU64 block" "eb_Hash block" 0 "eb_Transactions block" "[]" Map.empty]
  by (simp add: mapTransactions_def good_transactions_def not_less)

lemma ucast_u32_eq:
  "uint a \<le> MaxUint32 \<Longrightarrow> uint b \<le> MaxUint32 \<Longrightarrow> (ucast a :: u32) = ucast b \<longleftrightarrow> a = b" for a b :: u64
  by (simp add: word_uint_eq_iff uint_up_ucast unsigned_ucast_eq take_bit_int_eq_self MaxUint32_def)

lemma positions_of_nth:
  assumes "mapTransactions f block = Inr (ts, pos)" and "uint k \<le> MaxUint32"
  shows "pos x = Some (ucast (k :: u64)) \<longleftrightarrow>
    (\<exists>j < length (eb_Transactions block). \<exists>y. eb_Transactions block ! j = Some y \<and> x_Hash y = x \<and> unat k = j)"
proof -
  note ts = mapTransactions_ok [OF assms(1)]
  have small: "j < 2 ^ 32" if "j < length ts" for j
    using that ts(4) by (simp add: MaxUint32_def)
  have idx: "t_Index (ts ! j) = ucast k \<longleftrightarrow> unat k = j" if "j < length ts" for j
  proof -
    have "t_Index (ts ! j) = of_nat j" using ts(5) [OF that] by (auto simp: mapped_from_def)
    moreover have "(ucast k :: u32) = of_nat (unat k)" by simp
    moreover have "unat k < 2 ^ 32"
    proof -
      have "int (unat k) < int (2 ^ 32)" using assms(2) unfolding MaxUint32_def by simp
      then show ?thesis by (rule of_nat_less_imp_less)
    qed
    ultimately show ?thesis using of_nat_inj_u32 [OF small [OF that], of "unat k"] by auto
  qed
  have "pos x = Some (ucast k) \<longleftrightarrow> (\<exists>t \<in> set ts. t_Hash t = x \<and> t_Index t = ucast k)"
  proof -
    have "distinct (map fst (map (\<lambda>t. (t_Hash t, t_Index t)) ts))" using ts(3) by (simp add: comp_def)
    then show ?thesis unfolding ts(2) positions_of_def by (auto simp: image_iff)
  qed
  also have "\<dots> \<longleftrightarrow> (\<exists>j < length ts. t_Hash (ts ! j) = x \<and> unat k = j)"
    using idx by (metis in_set_conv_nth)
  also have "\<dots> \<longleftrightarrow> (\<exists>j < length ts. \<exists>y. eb_Transactions block ! j = Some y \<and> x_Hash y = x \<and> unat k = j)"
  proof -
    have "t_Hash (ts ! j) = x \<longleftrightarrow> (\<exists>y. eb_Transactions block ! j = Some y \<and> x_Hash y = x)"
      if "j < length ts" for j
      using ts(5) [OF that] by (auto simp: mapped_from_def)
    then show ?thesis by blast
  qed
  finally show ?thesis using ts(1) by simp
qed

lemma good_logs_iff:
  assumes "mapTransactions f block = Inr (ts, pos)"
  shows "good_logs n block logs \<longleftrightarrow> (\<forall>log \<in> set logs. good_log n (eb_Hash block) pos log) \<and>
    distinct (map e_LogIndex (map (event_of n (eb_Hash block)) logs))"
proof -
  let ?idx = "\<lambda>log. uint (l_Index log) \<le> MaxUint32"
  have "distinct (map l_Index logs) \<longleftrightarrow> distinct (map (e_LogIndex \<circ> event_of n (eb_Hash block)) logs)"
    if "\<forall>log \<in> set logs. ?idx log"
    using that by (auto simp: distinct_map inj_on_def event_of_def ucast_u32_eq)
  moreover have "good_logs n block logs \<longleftrightarrow>
      (\<forall>log \<in> set logs. good_log n (eb_Hash block) pos log) \<and> distinct (map l_Index logs)"
    using positions_of_nth [OF assms] by (auto simp: good_logs_def good_log_def)
  ultimately show ?thesis by (auto simp: good_log_def)
qed

lemma block_number_iff: "IsUint64 i \<and> big_Uint64 i = n \<longleftrightarrow> i = uint n"
proof
  assume "IsUint64 i \<and> big_Uint64 i = n"
  then show "i = uint n" by (auto simp: IsUint64_def big_Uint64_def uint_word_of_int)
next
  assume "i = uint n"
  then show "IsUint64 i \<and> big_Uint64 i = n"
    using uint_lt2p [of n] by (auto simp: IsUint64_def big_Uint64_def)
qed

lemma validateBlockNumber_iff: "validateBlockNumber block n = None \<longleftrightarrow> eb_Number block = Some (uint n)"
  by (auto simp: validateBlockNumber_ok block_number_iff)

lemma validateBlockNumber_error: "validateBlockNumber block n = Some e \<Longrightarrow> errors_Is e ErrInconsistentBlockData"
  by (auto simp: validateBlockNumber_def split: option.splits if_splits)

lemma map_events_error:
  "map_events n h logs pos es seen = Inl e \<Longrightarrow> errors_Is e ErrInconsistentBlockData"
  by (induction n h logs pos es seen rule: map_events.induct)
    (auto simp: Let_def split: if_splits option.splits)

lemma mapEvents_error: "mapEvents n h logs pos = Inl e \<Longrightarrow> errors_Is e ErrInconsistentBlockData"
  by (auto simp: mapEvents_def dest: map_events_error split: sum.splits)

lemma mapTransactions_error:
  "mapTransactions f block = Inl e \<Longrightarrow> f_chainID f \<noteq> None \<Longrightarrow> errors_Is e ErrInconsistentBlockData"
  by (auto simp: mapTransactions_def dest: map_transactions_error split: if_splits)

section \<open>A node for examples\<close>

text \<open>
  A node whose chain has one block per number up to \<open>head\<close>, block \<open>n\<close> with hash \<open>100 + n\<close>, one
  transaction and one log. The world counts the calls.
\<close>

definition sample_eth_transaction :: "u64 \<Rightarrow> EthTransaction" where
  "sample_eth_transaction n = \<lparr>x_Protected = True, x_ChainId = 1, x_Hash = 1000 + ucast n, x_Type = 2,
     x_Nonce = n, x_To = Some 18, x_Value = Some 5, x_Gas = 21000, x_Data = None, x_GasPrice = Some 3,
     x_GasFeeCap = Some 30, x_GasTipCap = Some 2\<rparr>"

definition sample_eth_block :: "u64 \<Rightarrow> EthBlock" where
  "sample_eth_block n = \<lparr>eb_Number = Some (uint n), eb_NumberU64 = n, eb_Hash = 100 + ucast n,
     eb_ParentHash = 99 + ucast n, eb_Time = 1000, eb_GasLimit = 30000000, eb_GasUsed = 21000,
     eb_BaseFee = Some 9, eb_Transactions = [Some (sample_eth_transaction n)]\<rparr>"

definition sample_log :: "hash \<Rightarrow> Log" where
  "sample_log h = \<lparr>l_Removed = False, l_BlockHash = h, l_BlockNumber = ucast (h - 100), l_Index = 0,
     l_TxHash = h + 900, l_TxIndex = 0, l_Address = 99, l_Topics = [1], l_Data = Some [7]\<rparr>"

definition sample_reader :: "u64 \<Rightarrow> nat Reader" where
  "sample_reader head = \<lparr>
     r_ChainID = (\<lambda>w. (Inr (Some 1), Suc w)),
     r_BlockNumber = (\<lambda>w. (Inr head, Suc w)),
     r_BlockByNumber = (\<lambda>i w. (case i of
        None \<Rightarrow> Inr (Some (sample_eth_block head))
      | Some i \<Rightarrow> if 0 \<le> i \<and> i \<le> uint head then Inr (Some (sample_eth_block (word_of_int i)))
                  else Inl (Foreign ''not found''), Suc w)),
     r_HeaderByNumber = (\<lambda>i w. (case i of
        None \<Rightarrow> Inr (Some \<lparr>h_Number = Some (uint head), h_Hash = 100 + ucast head\<rparr>)
      | Some i \<Rightarrow> if 0 \<le> i \<and> i \<le> uint head
                  then Inr (Some \<lparr>h_Number = Some i, h_Hash = 100 + word_of_int i\<rparr>)
                  else Inl (Foreign ''not found''), Suc w)),
     r_LogsByBlockHash = (\<lambda>h w. (Inr [sample_log h], Suc w))\<rparr>"

definition sample_geth :: Geth where
  "sample_geth = \<lparr>g_Sender = (\<lambda>id x. Inr 17), g_LegacyTxType = 0, g_AccessListTxType = 1,
     g_SafeBlockNumber = -4, g_FinalizedBlockNumber = -3\<rparr>"

definition sample_fetcher :: "u64 \<Rightarrow> nat Fetcher" where
  "sample_fetcher head = NewFetcher sample_geth (\<lambda>w. (zero_Time, Suc w)) (sample_reader head) 1"

lemma sample_block_numbers: "block_numbers (f_chain (sample_fetcher head))"
  by (auto simp: block_numbers_def sample_fetcher_def NewFetcher_def sample_reader_def Let_def
      sample_eth_block_def big_Uint64_def split: option.splits if_splits)

section \<open>Properties\<close>

text \<open>
  C9: a bundle that \<open>FetchBlock\<close> returns is the requested block and well formed, whatever the node
  answered: transactions at their positions under the block's hash, events that refer to them, in
  log order and without a repeated index. It holds exactly what the node sent, field by field: the
  block with the parent hash, times, gas, base fee and transaction count of the answer; for every
  transaction, in order, one with the same hash, nonce, type, recipient, value, gas limit, payload
  and the fee fields of its type, and the sender recovered from it; one event per log. No payload
  is left \<open>nil\<close>.
\<close>

theorem fetch_block_sound:
  assumes "FetchBlock f n w = (Inr b, w')" and "block_numbers (f_chain f)"
  shows "bb_Number b = n \<and> wf_bundle b \<and> sorted_wrt log_index_less (bb_Events b) \<and>
    (\<exists>block w1 logs w2.
       r_BlockByNumber (f_chain f) (Some (uint n)) w = (Inr (Some block), w1) \<and>
       r_LogsByBlockHash (f_chain f) (eb_Hash block) w1 = (Inr logs, w2) \<and>
       bb_Block b = \<lparr>b_Number = n, b_Hash = eb_Hash block, b_ParentHash = eb_ParentHash block,
         b_Timestamp = eb_Time block, b_GasLimit = eb_GasLimit block, b_GasUsed = eb_GasUsed block,
         b_BaseFeePerGas = eb_BaseFee block, b_TransactionCount = int (length (eb_Transactions block)),
         b_IndexedAt = Time_UTC (fst (f_now f w2))\<rparr> \<and>
       length (bb_Transactions b) = length (eb_Transactions block) \<and>
       (\<forall>i < length (bb_Transactions b). \<exists>y. eb_Transactions block ! i = Some y \<and>
          sent_as f n (eb_Hash block) i y (bb_Transactions b ! i)) \<and>
       map Some (map t_Hash (bb_Transactions b)) = map (map_option x_Hash) (eb_Transactions block) \<and>
       mset (bb_Events b) = mset (map (event_of n (eb_Hash block)) logs)) \<and>
    None \<notin> t_Input ` set (bb_Transactions b) \<and> None \<notin> e_Data ` set (bb_Events b)"
proof -
  from FetchBlock_ok [OF assms(1)] obtain block w1 ts pos logs w2 es i where
    block: "r_BlockByNumber (f_chain f) (Some (uint n)) w = (Inr (Some block), w1)"
    and i: "eb_Number block = Some i" "big_Uint64 i = n"
    and ts: "mapTransactions f block = Inr (ts, pos)"
    and logs: "r_LogsByBlockHash (f_chain f) (eb_Hash block) w1 = (Inr logs, w2)"
    and es: "mapEvents n (eb_Hash block) logs pos = Inr es"
    and b: "bb_Transactions b = ts" "bb_Events b = es" .
  note es = es [unfolded mapEvents_iff] and blk = FetchBlock_block [OF assms(1) block logs]
  have n: "eb_NumberU64 block = n" using assms(2) block i by (auto simp: block_numbers_def)
  have "t_Input t \<noteq> None" if t: "t \<in> set ts" for t
  proof -
    obtain j where j: "j < length ts" "ts ! j = t" using t unfolding in_set_conv_nth by blast
    from mapTransactions_ok(5) [OF ts j(1)] show ?thesis by (auto simp: j(2) mapped_from_def)
  qed
  then have "None \<notin> t_Input ` set ts" by (metis imageE)
  moreover have "None \<notin> e_Data ` set es" using es by (auto simp: event_of_def)
  moreover have "sorted_wrt log_index_less es" using es by_log_index.sorted_sort by blast
  moreover have "mset es = mset (map (event_of n (eb_Hash block)) logs)" using es by simp
  ultimately show ?thesis
    using FetchBlock_number [OF assms(1)] FetchBlock_wf [OF assms] block logs blk mapped_hashes [OF ts]
      mapped_sent [OF ts, unfolded n]
    unfolding b by blast
qed

theorem fetch_block_sound_witness:
  "\<exists>b w'. FetchBlock (sample_fetcher 20) 10 0 = (Inr b, w') \<and> bb_Number b = 10 \<and> wf_bundle b \<and>
     sent_as (sample_fetcher 20) 10 110 0 (sample_eth_transaction 10) (bb_Transactions b ! 0)"
proof -
  have block: "r_BlockByNumber (f_chain (sample_fetcher 20)) (Some (uint (10 :: u64))) 0 = (Inr (Some (sample_eth_block 10)), 1)"
    by code_simp
  have "\<not> isl (fst (FetchBlock (sample_fetcher 20) 10 0))" by code_simp
  then obtain b w' where fetch: "FetchBlock (sample_fetcher 20) 10 0 = (Inr b, w')"
    by (cases "FetchBlock (sample_fetcher 20) 10 0"; cases "fst (FetchBlock (sample_fetcher 20) 10 0)") auto
  note sound = fetch_block_sound [OF fetch sample_block_numbers, unfolded block]
  have "sent_as (sample_fetcher 20) 10 110 0 (sample_eth_transaction 10) (bb_Transactions b ! 0)"
    using sound by (auto simp: sample_eth_block_def)
  then show ?thesis using fetch sound by blast
qed

text \<open>
  C21: given the node's answers, \<open>FetchBlock\<close> decides their consistency: it returns a bundle exactly
  when the block is the one asked for, every transaction is present, of this chain, with a sender
  and a hash of its own, and every log is a current log of a transaction of this block. In every
  other case the error is an \<open>ErrInconsistentBlockData\<close>.
\<close>

theorem fetch_block_decides:
  assumes "f_chainID f \<noteq> None"
    and "r_BlockByNumber (f_chain f) (Some (uint n)) w = (Inr (Some block), w1)"
    and "r_LogsByBlockHash (f_chain f) (eb_Hash block) w1 = (Inr logs, w2)"
  shows "case fst (FetchBlock f n w) of
      Inr b \<Rightarrow> eb_Number block = Some (uint n) \<and> good_transactions f block \<and> good_logs n block logs
    | Inl e \<Rightarrow> \<not> (eb_Number block = Some (uint n) \<and> good_transactions f block \<and> good_logs n block logs) \<and>
        errors_Is e ErrInconsistentBlockData"
proof (cases "validateBlockNumber block n")
  case (Some e)
  then have "eb_Number block \<noteq> Some (uint n)" using validateBlockNumber_iff [of block n] by auto
  with Some assms validateBlockNumber_error [OF Some] show ?thesis
    by (simp add: FetchBlock_def SetUint64_def)
next
  case None
  note num = None [unfolded validateBlockNumber_iff]
  show ?thesis
  proof (cases "mapTransactions f block")
    case (Inl e)
    then have "\<not> good_transactions f block" using mapTransactions_iff [OF assms(1), of block] by auto
    with None Inl assms mapTransactions_error [OF Inl] show ?thesis by (simp add: FetchBlock_def SetUint64_def)
  next
    case (Inr r)
    obtain ts pos where r: "r = (ts, pos)" by fastforce
    have good: "good_transactions f block" using mapTransactions_iff [OF assms(1), of block] Inr by auto
    note logs = good_logs_iff [OF Inr [unfolded r], of n logs]
    show ?thesis
    proof (cases "mapEvents n (eb_Hash block) logs pos")
      case (Inl e)
      then have "\<not> good_logs n block logs" using logs mapEvents_iff [of n "eb_Hash block" logs pos] by auto
      with None Inl Inr r assms mapEvents_error [OF Inl] show ?thesis by (simp add: FetchBlock_def SetUint64_def Let_def)
    next
      case (Inr es)
      then have "good_logs n block logs" using logs mapEvents_iff [of n "eb_Hash block" logs pos es] by auto
      with None Inr \<open>mapTransactions f block = Inr r\<close> r assms num good show ?thesis
        by (simp add: FetchBlock_def SetUint64_def Let_def split: prod.splits)
    qed
  qed
qed

theorem fetch_block_decides_witness:
  "good_transactions (sample_fetcher 20) (sample_eth_block 10) \<and>
   good_logs 10 (sample_eth_block 10) [sample_log 110]"
proof -
  have "r_BlockByNumber (f_chain (sample_fetcher 20)) (Some (uint (10 :: u64))) 0 =
      (Inr (Some (sample_eth_block 10)), 1)"
    "r_LogsByBlockHash (f_chain (sample_fetcher 20)) (eb_Hash (sample_eth_block 10)) 1 = (Inr [sample_log 110], 2)"
    "f_chainID (sample_fetcher 20) \<noteq> None" by code_simp+
  moreover have "\<not> isl (fst (FetchBlock (sample_fetcher 20) 10 0))" by code_simp
  ultimately show ?thesis
    using fetch_block_decides [of "sample_fetcher 20" 10 0 "sample_eth_block 10" 1 "[sample_log 110]" 2]
    by (auto split: sum.splits)
qed

end
