(* ===== verification/Ranger_Props.thy ===== *)
theory Ranger_Props
  imports Fetcher_Props Ranger
begin

text \<open>
  The worker pool under every schedule: it never deadlocks, and what it returns is a run of
  consecutive, linked blocks, each one the result of a fetch of its own number.
\<close>

section \<open>The invariant of the pool\<close>

definition fetched :: "'w Fetcher \<Rightarrow> u64 \<Rightarrow> BlockBundle \<Rightarrow> bool" where
  "fetched f n b \<longleftrightarrow> (\<exists>w w'. FetchBlock f n w = (Inr b, w'))"

lemma fetched_number: "fetched f n b \<Longrightarrow> bb_Number b = n"
  unfolding fetched_def by (auto dest: FetchBlock_number)

definition fetch_failed :: "'w Fetcher \<Rightarrow> u64 \<Rightarrow> err \<Rightarrow> bool" where
  "fetch_failed f n e \<longleftrightarrow> (\<exists>w w'. FetchBlock f n w = (Inl e, w'))"

text \<open>Jobs in hand are jobs that were handed out.\<close>

definition jobs_inv :: "u64 \<Rightarrow> nat \<Rightarrow> Pool \<Rightarrow> bool" where
  "jobs_inv from blockCount p \<longleftrightarrow>
     pl_next p \<le> blockCount \<and> length (pl_bundles p) = blockCount \<and> pl_workers p \<noteq> [] \<and>
     (\<forall>job. Fetching job \<in> set (pl_workers p) \<longrightarrow>
        j_index job < pl_next p \<and> j_blockNumber job = from + of_nat (j_index job))"

text \<open>Unless the pool was cancelled, every job handed out is in hand or done, and no goroutine left early.\<close>

definition work_inv :: "'w Fetcher \<Rightarrow> u64 \<Rightarrow> nat \<Rightarrow> Pool \<Rightarrow> bool" where
  "work_inv f from blockCount p \<longleftrightarrow> \<not> pl_cancelled p \<longrightarrow>
     (\<forall>i < pl_next p. (\<exists>job. Fetching job \<in> set (pl_workers p) \<and> j_index job = i) \<or>
        fetched f (from + of_nat i) (pl_bundles p ! i)) \<and>
     (\<not> pl_producing p \<longrightarrow> pl_next p = blockCount) \<and>
     (pl_producing p \<longrightarrow> Stopped \<notin> set (pl_workers p))"

text \<open>A cancelled pool has a reason.\<close>

definition cancel_inv :: "'w Fetcher \<Rightarrow> u64 \<Rightarrow> nat \<Rightarrow> Pool \<Rightarrow> bool" where
  "cancel_inv f from blockCount p \<longleftrightarrow>
     (pl_cancelled p \<longrightarrow> pl_errCh p \<noteq> None \<or> pl_parent p \<noteq> None) \<and>
     (\<forall>e. pl_errCh p = Some e \<longrightarrow>
        (\<exists>i < blockCount. \<exists>e'. fetch_failed f (from + of_nat i) e' \<and>
           e = Errorf ''failed to fetch block %d: %w'' [e']))"

definition pool_inv :: "'w Fetcher \<Rightarrow> u64 \<Rightarrow> nat \<Rightarrow> Pool \<Rightarrow> bool" where
  "pool_inv f from blockCount p \<longleftrightarrow>
     jobs_inv from blockCount p \<and> work_inv f from blockCount p \<and> cancel_inv f from blockCount p"

lemmas pool_invs = pool_inv_def jobs_inv_def work_inv_def cancel_inv_def

lemma new_pool_inv: "0 < workers \<Longrightarrow> pool_inv f from blockCount (new_pool blockCount workers)"
  by (auto simp: pool_invs new_pool_def)

lemma in_set_update: "x \<in> set ws \<Longrightarrow> x \<noteq> ws ! j \<Longrightarrow> x \<in> set (ws[j := y])"
  by (metis in_set_conv_nth length_list_update nth_list_update_neq)

lemma worker_job_nth: "worker_job p j = Some job \<Longrightarrow> j < length (pl_workers p) \<and> pl_workers p ! j = Fetching job"
  by (auto simp: worker_job_def split: if_splits worker.splits)

lemma stop_inv:
  assumes "pool_inv f from blockCount p" and "worker_is p j Receiving"
    and "\<not> pl_producing p \<or> pl_cancelled p"
  shows "pool_inv f from blockCount (p\<lparr>pl_workers := (pl_workers p)[j := Stopped]\<rparr>)"
proof -
  have j: "j < length (pl_workers p)" "pl_workers p ! j = Receiving" using assms(2) by (auto simp: worker_is_def)
  have "Fetching job \<in> set ((pl_workers p)[j := Stopped]) \<longleftrightarrow> Fetching job \<in> set (pl_workers p)" for job
    using in_set_update [of "Fetching job" "pl_workers p" j Stopped] j
    by (auto dest: set_update_subset_insert [THEN subsetD])
  with assms show ?thesis unfolding pool_invs by (cases "pl_cancelled p") auto
qed

lemma send_inv:
  assumes inv: "pool_inv f from blockCount p" and can: "pool_can blockCount p (Send j)"
  shows "pool_inv f from blockCount (fst (pool_step f from (Send j) p w))"
proof -
  let ?job = "\<lparr>j_index = pl_next p, j_blockNumber = from + of_nat (pl_next p)\<rparr>"
  let ?ws = "(pl_workers p)[j := Fetching ?job]"
  have j: "j < length (pl_workers p)" "pl_workers p ! j = Receiving" "pl_next p < blockCount" "pl_producing p"
    using can by (auto simp: worker_is_def)
  have mem: "x \<in> set ?ws \<Longrightarrow> x = Fetching ?job \<or> x \<in> set (pl_workers p)" for x
    by (auto dest: set_update_subset_insert [THEN subsetD])
  have new: "Fetching ?job \<in> set ?ws" using j by (simp add: set_update_memI)
  have old: "Fetching job \<in> set (pl_workers p) \<Longrightarrow> Fetching job \<in> set ?ws" for job
    using in_set_update [of "Fetching job" "pl_workers p" j] j by simp
  let ?p = "p\<lparr>pl_next := Suc (pl_next p), pl_workers := ?ws\<rparr>"
  have "j_index job < Suc (pl_next p) \<and> j_blockNumber job = from + of_nat (j_index job)"
    if "Fetching job \<in> set ?ws" for job
    using mem [OF that] inv unfolding pool_inv_def jobs_inv_def by (auto intro: less_SucI)
  then have "jobs_inv from blockCount ?p"
    using inv j unfolding pool_inv_def jobs_inv_def by simp
  moreover have "work_inv f from blockCount ?p"
    unfolding work_inv_def
  proof (intro impI conjI allI)
    assume c: "\<not> pl_cancelled ?p"
    then have w: "\<forall>i < pl_next p. (\<exists>job. Fetching job \<in> set (pl_workers p) \<and> j_index job = i) \<or>
        fetched f (from + of_nat i) (pl_bundles p ! i)" "Stopped \<notin> set (pl_workers p)"
      using inv j by (auto simp: pool_inv_def work_inv_def)
    show "(\<exists>job. Fetching job \<in> set (pl_workers ?p) \<and> j_index job = i) \<or>
        fetched f (from + of_nat i) (pl_bundles ?p ! i)" if "i < pl_next ?p" for i
    proof (cases "i = pl_next p")
      case True
      then show ?thesis using new by (intro disjI1 exI [of _ ?job]) simp
    next
      case False
      with that have "i < pl_next p" by simp
      with w(1) have "(\<exists>job. Fetching job \<in> set (pl_workers p) \<and> j_index job = i) \<or>
          fetched f (from + of_nat i) (pl_bundles p ! i)" by blast
      with old have "(\<exists>job. Fetching job \<in> set ?ws \<and> j_index job = i) \<or>
          fetched f (from + of_nat i) (pl_bundles p ! i)" by blast
      then show ?thesis by simp
    qed
    show "Stopped \<notin> set (pl_workers ?p)" using mem [of Stopped] w(2) by auto
    show "pl_next ?p = blockCount" if "\<not> pl_producing ?p" using that j by simp
  qed
  moreover have "cancel_inv f from blockCount ?p" using inv by (simp add: pool_inv_def cancel_inv_def)
  ultimately show ?thesis by (simp add: pool_inv_def)
qed

lemma fetch_inv:
  assumes inv: "pool_inv f from blockCount p" and can: "pool_can blockCount p (Fetch j)"
  shows "pool_inv f from blockCount (fst (pool_step f from (Fetch j) p w))"
proof -
  obtain job where job: "worker_job p j = Some job" using can by auto
  note j = worker_job_nth [OF job]
  have in_ws: "Fetching job \<in> set (pl_workers p)" using j nth_mem by fastforce
  then have idx: "j_index job < pl_next p" "j_index job < blockCount" "length (pl_bundles p) = blockCount"
      "j_blockNumber job = from + of_nat (j_index job)"
    using inv by (auto simp: pool_inv_def jobs_inv_def)
  have mem: "Fetching k \<in> set ((pl_workers p)[j := x]) \<Longrightarrow> x \<noteq> Fetching k \<Longrightarrow> Fetching k \<in> set (pl_workers p)" for k x
    by (auto dest: set_update_subset_insert [THEN subsetD])
  have jobs: "jobs_inv from blockCount (p\<lparr>pl_workers := (pl_workers p)[j := x]\<rparr>)" if "\<And>k. x \<noteq> Fetching k" for x
    using inv mem that by (auto simp: pool_inv_def jobs_inv_def)
  obtain r w' where fetch: "FetchBlock f (j_blockNumber job) w = (r, w')" by fastforce
  show ?thesis
  proof (cases r)
    case (Inl e)
    have "fetch_failed f (from + of_nat (j_index job)) e"
      using fetch Inl idx by (auto simp: fetch_failed_def)
    then have "cancel_inv f from blockCount (fst (pool_step f from (Fetch j) p w))"
      using inv job fetch Inl idx by (auto simp: pool_inv_def cancel_inv_def split: option.splits)
    moreover have "jobs_inv from blockCount (fst (pool_step f from (Fetch j) p w))"
      using jobs [of Stopped] job fetch Inl by (simp add: jobs_inv_def)
    ultimately show ?thesis using job fetch Inl by (simp add: pool_inv_def work_inv_def)
  next
    case (Inr b)
    let ?p = "p\<lparr>pl_bundles := (pl_bundles p)[j_index job := b], pl_workers := (pl_workers p)[j := Receiving]\<rparr>"
    have got: "fetched f (from + of_nat (j_index job)) b"
      using fetch Inr idx by (auto simp: fetched_def)
    have "work_inv f from blockCount ?p"
      unfolding work_inv_def
    proof (intro impI conjI allI)
      assume "\<not> pl_cancelled ?p"
      then have w: "\<forall>i < pl_next p. (\<exists>job. Fetching job \<in> set (pl_workers p) \<and> j_index job = i) \<or>
          fetched f (from + of_nat i) (pl_bundles p ! i)"
          "pl_producing p \<Longrightarrow> Stopped \<notin> set (pl_workers p)" "\<not> pl_producing p \<Longrightarrow> pl_next p = blockCount"
        using inv by (auto simp: pool_inv_def work_inv_def)
      show "(\<exists>k. Fetching k \<in> set (pl_workers ?p) \<and> j_index k = i) \<or>
          fetched f (from + of_nat i) (pl_bundles ?p ! i)" if "i < pl_next ?p" for i
      proof (cases "i = j_index job")
        case True
        with got idx show ?thesis by simp
      next
        case False
        then have "Fetching k \<in> set ((pl_workers p)[j := Receiving])"
          if "Fetching k \<in> set (pl_workers p)" "j_index k = i" for k
          using that j in_set_update [of "Fetching k" "pl_workers p" j] by auto
        with False that w(1) show ?thesis by auto
      qed
      show "pl_next ?p = blockCount" if "\<not> pl_producing ?p" using that w(3) by simp
      show "Stopped \<notin> set (pl_workers ?p)" if "pl_producing ?p"
        using that w(2) by (auto dest: set_update_subset_insert [THEN subsetD])
    qed
    moreover have "jobs_inv from blockCount ?p" using jobs [of Receiving] by (simp add: jobs_inv_def)
    moreover have "cancel_inv f from blockCount ?p" using inv by (simp add: pool_inv_def cancel_inv_def)
    ultimately show ?thesis using job fetch Inr by (simp add: pool_inv_def)
  qed
qed

lemma pool_step_inv:
  assumes inv: "pool_inv f from blockCount p" and can: "pool_can blockCount p ev"
  shows "pool_inv f from blockCount (fst (pool_step f from ev p w))"
proof (cases ev)
  case (Send j)
  show ?thesis unfolding Send by (rule send_inv [OF inv can [unfolded Send]])
next
  case (Fetch j)
  show ?thesis unfolding Fetch by (rule fetch_inv [OF inv can [unfolded Fetch]])
next
  case ProducerDone
  then show ?thesis using inv can by (auto simp: pool_invs)
next
  case ProducerCancelled
  then show ?thesis using inv can by (auto simp: pool_invs)
next
  case (WorkerClosed j)
  then show ?thesis using stop_inv [OF inv] can by simp
next
  case (WorkerCancelled j)
  then show ?thesis using stop_inv [OF inv] can by simp
next
  case (ParentDone e)
  then show ?thesis using inv by (auto simp: pool_invs)
qed

section \<open>Runs\<close>

text \<open>
  What every step keeps holds at the end of a run; a step of the parent context is one that the
  environment announced.
\<close>

lemma run_pool_induct:
  assumes "I p"
    and "\<And>p w ev. I p \<Longrightarrow> pool_can blockCount p ev \<Longrightarrow>
      (\<forall>e. ev = ParentDone e \<longrightarrow> (\<exists>v. fst (env_ctx env v) = Some e)) \<Longrightarrow>
      I (fst (pool_step f from ev p w))"
  shows "I (fst (run_pool env f from blockCount p w))"
  using assms(1)
proof (induction "pool_weight blockCount p" arbitrary: p w rule: less_induct)
  case less
  obtain c w1 where c: "env_ctx env w = (c, w1)" by fastforce
  let ?evs = "pool_enabled blockCount c p"
  show ?case
  proof (cases "pool_finished p \<or> ?evs = []")
    case True
    then show ?thesis using less.prems c by (auto simp: run_pool.simps [of env f "from" blockCount p w])
  next
    case False
    obtain k w2 where k: "env_pick env w1 = (k, w2)" by fastforce
    let ?ev = "pool_pick k ?evs"
    obtain p' w3 where p': "pool_step f from ?ev p w2 = (p', w3)" by fastforce
    have can: "pool_can blockCount p ?ev" using False by (simp add: pool_pick_can)
    have "?ev \<in> set (pool_events c p)"
      using False pool_pick_in [of ?evs k] by (simp add: pool_enabled_def)
    then have "\<forall>e. ?ev = ParentDone e \<longrightarrow> (\<exists>v. fst (env_ctx env v) = Some e)"
      using c by (auto simp: pool_events_def split: option.splits intro: exI [of _ w])
    with less.prems can have "I p'" using assms(2) [of p ?ev w2] p' by simp
    moreover have "pool_weight blockCount p' < pool_weight blockCount p"
      using pool_step_weight [OF can, of f "from" w2] p' by simp
    ultimately have "I (fst (run_pool env f from blockCount p' w3))" using less.hyps by blast
    then show ?thesis using False c k p' by (simp add: run_pool.simps [of env f "from" blockCount p w])
  qed
qed

lemma run_pool_inv:
  assumes "pool_inv f from blockCount p"
  shows "pool_inv f from blockCount (fst (run_pool env f from blockCount p w))"
  by (rule run_pool_induct [where I = "pool_inv f from blockCount"]) (auto intro: pool_step_inv assms)

lemma pool_progress:
  assumes inv: "pool_inv f from blockCount p" and "\<not> pool_finished p"
  shows "pool_enabled blockCount c p \<noteq> []"
proof -
  have ev: "pool_can blockCount p ev \<Longrightarrow> ev \<in> set (pool_events c p) \<Longrightarrow> ?thesis" for ev
    by (auto simp: pool_enabled_def filter_empty_conv)
  have w: "ev \<in> set (pool_events c p)"
    if "j < length (pl_workers p)" "ev \<in> {Send j, WorkerClosed j, WorkerCancelled j, Fetch j}" for j ev
    using that by (auto simp: pool_events_def)
  show ?thesis
  proof (cases "pl_producing p \<and> \<not> pl_next p < blockCount")
    case True
    then show ?thesis by (intro ev [of ProducerDone]) (auto simp: pool_events_def)
  next
    case False
    show ?thesis
    proof (cases "\<exists>j < length (pl_workers p). pl_workers p ! j \<noteq> Stopped")
      case True
      then obtain j where j: "j < length (pl_workers p)" "pl_workers p ! j \<noteq> Stopped" by blast
      show ?thesis
      proof (cases "pl_workers p ! j")
        case Receiving
        have "pool_can blockCount p (if pl_producing p then Send j else WorkerClosed j)"
          using False Receiving j by (auto simp: worker_is_def)
        then show ?thesis by (rule ev) (rule w [OF j(1)], simp)
      next
        case (Fetching job)
        then have "pool_can blockCount p (Fetch j)" using j by (simp add: worker_job_def)
        then show ?thesis by (rule ev) (rule w [OF j(1)], simp)
      qed (use j in simp)
    next
      case stopped: False
      then have "Stopped \<in> set (pl_workers p)"
        using inv by (metis jobs_inv_def length_greater_0_conv nth_mem pool_inv_def)
      moreover have "pl_producing p"
        using stopped assms(2) by (auto simp: pool_finished_def list_all_length)
      ultimately have "pool_can blockCount p ProducerCancelled"
        using False inv by (auto simp: pool_inv_def work_inv_def)
      then show ?thesis by (rule ev) (simp add: pool_events_def)
    qed
  qed
qed

lemma run_pool_finished:
  assumes "pool_inv f from blockCount p"
  shows "pool_finished (fst (run_pool env f from blockCount p w))"
  using assms
proof (induction "pool_weight blockCount p" arbitrary: p w rule: less_induct)
  case less
  obtain c w1 where c: "env_ctx env w = (c, w1)" by fastforce
  let ?evs = "pool_enabled blockCount c p"
  show ?case
  proof (cases "pool_finished p")
    case True
    then show ?thesis by (simp add: run_pool.simps [of env f "from" blockCount p w])
  next
    case False
    then have evs: "?evs \<noteq> []" by (rule pool_progress [OF less.prems])
    obtain k w2 where k: "env_pick env w1 = (k, w2)" by fastforce
    let ?ev = "pool_pick k ?evs"
    obtain p' w3 where p': "pool_step f from ?ev p w2 = (p', w3)" by fastforce
    have can: "pool_can blockCount p ?ev" using evs by (simp add: pool_pick_can)
    have "pool_finished (fst (run_pool env f from blockCount p' w3))"
      using less.hyps pool_step_weight [OF can, of f "from" w2] pool_step_inv [OF less.prems can, of w2] p'
      by simp
    then show ?thesis using False evs c k p' by (simp add: run_pool.simps [of env f "from" blockCount p w])
  qed
qed

text \<open>A pool that ends without an error has every block.\<close>

lemma finished_complete:
  assumes "pool_inv f from blockCount p" and "pool_finished p" and "pl_errCh p = None" and "pl_parent p = None"
    and "i < blockCount"
  shows "fetched f (from + of_nat i) (pl_bundles p ! i)"
proof -
  have "\<not> pl_cancelled p" using assms by (auto simp: pool_inv_def cancel_inv_def)
  moreover have "Fetching job \<notin> set (pl_workers p)" for job
    using assms(2) by (auto simp: pool_finished_def list_all_iff)
  ultimately show ?thesis
    using assms by (auto simp: pool_inv_def work_inv_def pool_finished_def)
qed

section \<open>Validation of the range\<close>

lemma validate_fetched_iff:
  "validate_fetched from i previous bs = None \<longleftrightarrow>
     (\<forall>j < length bs. bb_Number (bs ! j) = from + of_nat (i + j)) \<and>
     (\<forall>p. previous = Some p \<longrightarrow> bs \<noteq> [] \<longrightarrow> bb_ParentHash (hd bs) = bb_Hash p) \<and>
     (\<forall>j. Suc j < length bs \<longrightarrow> bb_ParentHash (bs ! Suc j) = bb_Hash (bs ! j))"
proof (induction bs arbitrary: i previous)
  case (Cons b bs)
  have split: "(\<forall>j. Suc j < length (b # bs) \<longrightarrow> bb_ParentHash ((b # bs) ! Suc j) = bb_Hash ((b # bs) ! j)) \<longleftrightarrow>
      (bs \<noteq> [] \<longrightarrow> bb_ParentHash (hd bs) = bb_Hash b) \<and>
      (\<forall>j. Suc j < length bs \<longrightarrow> bb_ParentHash (bs ! Suc j) = bb_Hash (bs ! j))"
    by (cases bs) (auto simp: All_less_Suc2)
  show ?case
    unfolding split using Cons.IH [of "Suc i" "Some b"]
    by (auto simp: All_less_Suc2 Let_def split: option.splits)
qed simp

lemma validateFetchedBundles_iff:
  "validateFetchedBundles bs from = None \<longleftrightarrow>
     (\<forall>j < length bs. bb_Number (bs ! j) = from + of_nat j) \<and>
     (\<forall>j. Suc j < length bs \<longrightarrow> bb_ParentHash (bs ! Suc j) = bb_Hash (bs ! j))"
  by (simp add: validateFetchedBundles_def validate_fetched_iff)

lemma validate_fetched_error:
  "validate_fetched from i previous bs = Some e \<Longrightarrow> errors_Is e ErrInconsistentBlockData"
  by (induction bs arbitrary: i previous) (auto simp: Let_def split: if_splits)

lemma consecutive_numbers:
  assumes "\<forall>j < length bs. bb_Number (bs ! j) = n + of_nat j" and "unat n + length bs \<le> 2 ^ 64"
  shows "consecutive_from n bs"
  using assms
proof (induction bs arbitrary: n)
  case (Cons b bs)
  show ?case
  proof (cases "bs = []")
    case False
    then have "unat n + 1 < 2 ^ 64" using Cons.prems(2) by (cases bs) auto
    then have n: "n \<noteq> MaxUint64" by (auto simp: MaxUint64_def unsigned_minus_1_eq_mask mask_eq_exp_minus_1)
    have "consecutive_from (n + 1) bs"
      using Cons.prems unat_Suc_u64 [OF n] by (intro Cons.IH) (auto simp: All_less_Suc2 add.assoc)
    with n Cons.prems show ?thesis by (auto simp: All_less_Suc2)
  qed (use Cons.prems in simp)
qed simp

section \<open>FetchRange\<close>

lemma FetchRange_cases:
  assumes "from \<le> to" and "uint (to - from) < MaxInt64"
  obtains p w1 k where "pool_inv f from (Suc (unat (to - from))) p" and "pool_finished p" and "0 < k"
    and "run_pool env f from (Suc (unat (to - from))) (new_pool (Suc (unat (to - from))) k) w = (p, w1)"
    and "FetchRange env f from to concurrency w = range_outcome env from p w1"
proof -
  let ?n = "Suc (unat (to - from))" and ?c = "uint (to - from) + 1"
  let ?a = "if concurrency < 1 then 1 else concurrency"
  let ?k = "nat (if ?a > ?c then ?c else ?a)"
  have n: "nat ?c = ?n" by (simp add: nat_add_distrib)
  have k: "0 < ?k" by (auto simp: add_nonneg_pos)
  obtain p w1 where run: "run_pool env f from ?n (new_pool ?n ?k) w = (p, w1)" by fastforce
  have new: "pool_inv f from ?n (new_pool ?n ?k)" by (rule new_pool_inv [OF k])
  have inv: "pool_inv f from ?n p" using run_pool_inv [OF new, of env w] run by simp
  have fin: "pool_finished p" using run_pool_finished [OF new, of env w] run by simp
  have "FetchRange env f from to concurrency w = range_outcome env from p w1"
    unfolding FetchRange_def Let_def n run using assms fin by auto
  with that inv fin k run show thesis by blast
qed

lemma range_outcome_ok:
  assumes "range_outcome env from p w = (Inr bs, w')"
  shows "pl_errCh p = None" "pl_parent p = None" "bs = pl_bundles p" "validateFetchedBundles bs from = None"
  using assms by (auto simp: range_outcome_def parent_err_def split: option.splits prod.splits)

lemma range_outcome_error:
  assumes "range_outcome env from p w = (Inl e, w')"
  shows "pl_errCh p = Some e \<or>
    (\<exists>c. (pl_parent p = Some c \<or> fst (env_ctx env w) = Some c) \<and> e = ctx_err c) \<or>
    pl_errCh p = None \<and> pl_parent p = None \<and> validateFetchedBundles (pl_bundles p) from = Some e"
  using assms by (auto simp: range_outcome_def parent_err_def split: option.splits prod.splits)

lemma FetchRange_ok:
  assumes ok: "FetchRange env f from to concurrency w = (Inr bs, w')"
  shows "from \<le> to" "length bs = Suc (unat (to - from))"
    "validateFetchedBundles bs from = None"
    "\<And>i. i < length bs \<Longrightarrow> fetched f (from + of_nat i) (bs ! i)"
proof -
  show le: "from \<le> to" using assms by (auto simp: FetchRange_def split: if_splits)
  have small: "uint (to - from) < MaxInt64" using assms by (auto simp: FetchRange_def not_le split: if_splits)
  obtain p w1 where inv: "pool_inv f from (Suc (unat (to - from))) p" and fin: "pool_finished p"
    and eq: "FetchRange env f from to concurrency w = range_outcome env from p w1"
    using FetchRange_cases [OF le small, of f env w concurrency] by metis
  note out = range_outcome_ok [OF ok [unfolded eq]]
  show "validateFetchedBundles bs from = None" by (rule out)
  show len: "length bs = Suc (unat (to - from))" using inv out by (simp add: pool_inv_def jobs_inv_def)
  show "fetched f (from + of_nat i) (bs ! i)" if "i < length bs" for i
    using finished_complete [OF inv fin out(1,2)] that len out(3) by simp
qed

lemma FetchRange_consecutive:
  assumes ok: "FetchRange env f from to concurrency w = (Inr bs, w')"
  shows "consecutive_from from bs" "bs \<noteq> []" "bb_Number (last bs) = to"
proof -
  note r = FetchRange_ok [OF ok] and v = FetchRange_ok(3) [OF ok, unfolded validateFetchedBundles_iff]
  have top: "unat from + unat (to - from) = unat to" using r(1) by (simp add: unat_sub word_le_nat_alt)
  moreover have "unat to < 2 ^ 64" using unsigned_less [of to] by simp
  ultimately have "unat from + length bs \<le> 2 ^ 64" using r(2) by simp
  then show "consecutive_from from bs" using v by (intro consecutive_numbers) blast+
  show ne: "bs \<noteq> []" using r(2) by auto
  have "bb_Number (last bs) = from + of_nat (length bs - 1)" using v ne by (simp add: last_conv_nth)
  then show "bb_Number (last bs) = to" using r(2) by simp
qed

section \<open>Every schedule gives the same range\<close>

text \<open>A bundle without the time it was indexed at.\<close>

definition without_time :: "BlockBundle \<Rightarrow> BlockBundle" where
  "without_time b = b\<lparr>bb_Block := (bb_Block b)\<lparr>b_IndexedAt := zero_Time\<rparr>\<rparr>"

lemma without_time_sel [simp]:
  "bb_Number (without_time b) = bb_Number b" "bb_Hash (without_time b) = bb_Hash b"
  "bb_ParentHash (without_time b) = bb_ParentHash b"
  by (simp_all add: without_time_def)

text \<open>A node that answers every block of the range, each time with a block that fits \<open>Q\<close>.\<close>

definition answers :: "'w Fetcher \<Rightarrow> u64 \<Rightarrow> nat \<Rightarrow> (u64 \<Rightarrow> BlockBundle \<Rightarrow> bool) \<Rightarrow> bool" where
  "answers f from blockCount Q \<longleftrightarrow>
     (\<forall>i < blockCount. \<forall>w. \<exists>b w'. FetchBlock f (from + of_nat i) w = (Inr b, w') \<and> Q (from + of_nat i) b)"

lemma answers_pool:
  assumes "answers f from blockCount Q" and "\<And>w. fst (env_ctx env w) = None" and "0 < k"
    and run: "run_pool env f from blockCount (new_pool blockCount k) w = (p, w1)"
  shows "pl_errCh p = None" "pl_parent p = None"
proof -
  have "pool_inv f from blockCount p"
    using run_pool_inv [OF new_pool_inv [OF assms(3)], of f "from" blockCount env w] run by simp
  then have "\<exists>i < blockCount. \<exists>e' v v'. FetchBlock f (from + of_nat i) v = (Inl e', v')" if "pl_errCh p = Some e" for e
    using that unfolding pool_inv_def cancel_inv_def fetch_failed_def by blast
  moreover have "FetchBlock f (from + of_nat i) v \<noteq> (Inl e', v')" if "i < blockCount" for i e' v v'
    using assms(1) that unfolding answers_def by (metis old.sum.distinct(2) prod.inject)
  ultimately show "pl_errCh p = None" by (metis not_Some_eq)
  have "pl_parent (fst (run_pool env f from blockCount (new_pool blockCount k) w)) = None"
  proof (rule run_pool_induct [where I = "\<lambda>p. pl_parent p = None"])
    show "pl_parent (new_pool blockCount k) = None" by (simp add: new_pool_def)
    fix p :: Pool and v ev
    assume "pl_parent p = None" "\<forall>e. ev = ParentDone e \<longrightarrow> (\<exists>v. fst (env_ctx env v) = Some e)"
    with assms(2) show "pl_parent (fst (pool_step f from ev p v)) = None"
      by (cases ev) (auto split: option.splits prod.splits sum.splits)
  qed
  with run show "pl_parent p = None" by simp
qed

lemma answers_fetched:
  assumes "answers f from blockCount Q" and "i < blockCount" and "fetched f (from + of_nat i) b"
  shows "Q (from + of_nat i) b"
proof -
  obtain v v' where v: "FetchBlock f (from + of_nat i) v = (Inr b, v')" using assms(3) by (auto simp: fetched_def)
  obtain c v'' where "FetchBlock f (from + of_nat i) v = (Inr c, v'')" "Q (from + of_nat i) c"
    using assms(1,2) unfolding answers_def by blast
  with v show ?thesis by simp
qed

lemma FetchRange_live:
  assumes "from \<le> to" and "uint (to - from) < MaxInt64"
    and answers: "answers f from (Suc (unat (to - from))) Q" and ctx: "\<And>v. fst (env_ctx env v) = None"
    and links: "\<And>i b c. i < unat (to - from) \<Longrightarrow> Q (from + of_nat i) b \<Longrightarrow> Q (from + of_nat (Suc i)) c \<Longrightarrow>
      bb_ParentHash c = bb_Hash b"
  shows "\<exists>bs w'. FetchRange env f from to concurrency w = (Inr bs, w') \<and> length bs = Suc (unat (to - from)) \<and>
    (\<forall>i < length bs. Q (from + of_nat i) (bs ! i))"
proof -
  let ?n = "Suc (unat (to - from))"
  obtain p w1 k where inv: "pool_inv f from ?n p" and fin: "pool_finished p" and "0 < k"
    and run: "run_pool env f from ?n (new_pool ?n k) w = (p, w1)"
    and eq: "FetchRange env f from to concurrency w = range_outcome env from p w1"
    by (rule FetchRange_cases [OF assms(1,2), of f env w concurrency])
  note ok = answers_pool [OF answers ctx \<open>0 < k\<close> run]
  have len: "length (pl_bundles p) = ?n" using inv by (simp add: pool_inv_def jobs_inv_def)
  have got: "fetched f (from + of_nat i) (pl_bundles p ! i)" if "i < ?n" for i
    by (rule finished_complete [OF inv fin ok that])
  have Q: "Q (from + of_nat i) (pl_bundles p ! i)" if "i < ?n" for i
    by (rule answers_fetched [OF answers that got [OF that]])
  have "bb_ParentHash (pl_bundles p ! Suc j) = bb_Hash (pl_bundles p ! j)" if "Suc j < ?n" for j
    using links [of j] Q [of j] Q [of "Suc j"] that by simp
  then have "validateFetchedBundles (pl_bundles p) from = None"
    using len fetched_number [OF got] by (simp add: validateFetchedBundles_iff)
  moreover obtain w2 where "parent_err env p w1 = (None, w2)"
    using ok ctx by (metis option.simps(4) parent_err_def prod.collapse)
  ultimately have "range_outcome env from p w1 = (Inr (pl_bundles p), w2)" using ok by (simp add: range_outcome_def)
  then show ?thesis using eq Q len by auto
qed

text \<open>A node that answers the same way whenever it is asked.\<close>

definition steady :: "'w Fetcher \<Rightarrow> u64 \<Rightarrow> nat \<Rightarrow> (u64 \<Rightarrow> BlockBundle) \<Rightarrow> bool" where
  "steady f from blockCount B \<longleftrightarrow> answers f from blockCount (\<lambda>n b. without_time b = B n)"

section \<open>Properties\<close>

text \<open>
  C8: whatever the node answers and however the goroutines are scheduled, a range that
  \<open>FetchRange\<close> returns starts at \<open>from\<close>, ends at \<open>to\<close>, has every number in between once and in
  order, each block's parent hash is the hash of the block before it, and each block is the
  result of a fetch of its own number.
\<close>

theorem fetch_range_sound:
  assumes "FetchRange env f from to concurrency w = (Inr bs, w')"
  shows "from \<le> to \<and> length bs = Suc (unat (to - from)) \<and> consecutive_from from bs \<and>
    bb_Number (last bs) = to \<and>
    (\<forall>j. Suc j < length bs \<longrightarrow> bb_ParentHash (bs ! Suc j) = bb_Hash (bs ! j)) \<and>
    (\<forall>j < length bs. \<exists>v v'. FetchBlock f (from + of_nat j) v = (Inr (bs ! j), v'))"
  using FetchRange_ok [OF assms] FetchRange_consecutive [OF assms]
  by (simp add: validateFetchedBundles_iff fetched_def)

text \<open>The sample environment picks the next goroutine by the call counter and is never cancelled.\<close>

definition sample_env :: "nat Env" where
  "sample_env = \<lparr>env_pick = (\<lambda>w. (7 * w + 3, Suc w)), env_ctx = (\<lambda>w. (None, Suc w)),
     env_timer = (\<lambda>d w. Suc w)\<rparr>"

theorem fetch_range_sound_witness:
  "\<exists>bs w'. FetchRange sample_env (sample_fetcher 20) 10 12 2 0 = (Inr bs, w') \<and> length bs = 3 \<and>
     bb_Number (last bs) = 12"
proof -
  have "\<not> isl (fst (FetchRange sample_env (sample_fetcher 20) 10 12 2 0))" by code_simp
  then obtain bs w' where "FetchRange sample_env (sample_fetcher 20) 10 12 2 0 = (Inr bs, w')"
    by (cases "FetchRange sample_env (sample_fetcher 20) 10 12 2 0";
        cases "fst (FetchRange sample_env (sample_fetcher 20) 10 12 2 0)") auto
  then show ?thesis using fetch_range_sound by fastforce
qed

text \<open>
  C22: the pool loses nothing to concurrency. Against a node that answers steadily and under a
  context that is not cancelled, every schedule and every number of workers ends, without deadlock,
  with the same blocks as fetching one after the other.
\<close>

theorem fetch_range_any_schedule:
  assumes "from \<le> to" and "uint (to - from) < MaxInt64"
    and "steady f from (Suc (unat (to - from))) B" and "\<forall>v. fst (env_ctx env v) = None"
    and "\<forall>i < unat (to - from). bb_ParentHash (B (from + of_nat (Suc i))) = bb_Hash (B (from + of_nat i))"
  shows "\<exists>bs w'. FetchRange env f from to concurrency w = (Inr bs, w') \<and>
    map without_time bs = map (\<lambda>i. B (from + of_nat i)) [0..<Suc (unat (to - from))]"
proof -
  let ?n = "Suc (unat (to - from))"
  have links: "bb_ParentHash c = bb_Hash b"
    if "i < unat (to - from)" "without_time b = B (from + of_nat i)" "without_time c = B (from + of_nat (Suc i))" for i b c
    using assms(5) that without_time_sel(2,3) by metis
  have "\<exists>bs w'. FetchRange env f from to concurrency w = (Inr bs, w') \<and> length bs = ?n \<and>
      (\<forall>i < length bs. without_time (bs ! i) = B (from + of_nat i))"
    by (rule FetchRange_live [OF assms(1,2) assms(3) [unfolded steady_def] spec [OF assms(4)] links])
  then obtain bs w' where bs: "FetchRange env f from to concurrency w = (Inr bs, w')" "length bs = ?n"
      "\<forall>i < length bs. without_time (bs ! i) = B (from + of_nat i)" by blast
  then have "map without_time bs = map (\<lambda>i. B (from + of_nat i)) [0..<?n]"
    by (intro nth_equalityI) (auto simp del: upt_Suc)
  with bs(1) show ?thesis by blast
qed

definition sample_fetched :: "u64 \<Rightarrow> BlockBundle" where
  "sample_fetched n = (case fst (FetchBlock (sample_fetcher 20) n 0) of Inr b \<Rightarrow> b | Inl e \<Rightarrow> zero_BlockBundle)"

lemma sample_fetch_world: "fst (FetchBlock (sample_fetcher h) n w) = fst (FetchBlock (sample_fetcher h) n v)"
  by (auto simp: FetchBlock_def sample_fetcher_def NewFetcher_def sample_reader_def Let_def
      split: option.splits sum.splits)

lemma sample_steady: "steady (sample_fetcher 20) 10 3 (without_time \<circ> sample_fetched)"
proof -
  have ok: "\<not> isl (fst (FetchBlock (sample_fetcher 20) (10 + of_nat i) 0))" if "i < 3" for i
  proof -
    have "i = 0 \<or> i = 1 \<or> i = 2" using that by auto
    moreover have "\<not> isl (fst (FetchBlock (sample_fetcher 20) 10 0))"
      "\<not> isl (fst (FetchBlock (sample_fetcher 20) 11 0))"
      "\<not> isl (fst (FetchBlock (sample_fetcher 20) 12 0))" by code_simp+
    ultimately show ?thesis by auto
  qed
  have "\<exists>b. fst (FetchBlock (sample_fetcher 20) (10 + of_nat i) w) = Inr b \<and> b = sample_fetched (10 + of_nat i)"
    if "i < 3" for i w
    using ok [OF that] sample_fetch_world [of 20 "10 + of_nat i" w 0]
    by (auto simp: sample_fetched_def split: sum.splits)
  then show ?thesis unfolding steady_def answers_def by (metis comp_apply prod.collapse)
qed

theorem fetch_range_any_schedule_witness:
  "\<exists>bs w'. FetchRange sample_env (sample_fetcher 20) 10 12 2 5 = (Inr bs, w') \<and>
     map without_time bs = map (\<lambda>i. without_time (sample_fetched (10 + of_nat i))) [0..<3]"
proof -
  have "bb_ParentHash (sample_fetched 11) = bb_Hash (sample_fetched 10)"
    "bb_ParentHash (sample_fetched 12) = bb_Hash (sample_fetched 11)" by code_simp+
  then have "\<forall>i < 2. bb_ParentHash (without_time (sample_fetched (10 + of_nat (Suc i)))) =
      bb_Hash (without_time (sample_fetched (10 + of_nat i)))" by (auto simp: less_2_cases_iff)
  moreover have "\<forall>v. fst (env_ctx sample_env v) = None" by (simp add: sample_env_def)
  moreover have "unat (12 - 10 :: u64) = 2" "uint (12 - 10 :: u64) < MaxInt64" "(10 :: u64) \<le> 12" by code_simp+
  ultimately show ?thesis
    using fetch_range_any_schedule [of 10 12 "sample_fetcher 20" "without_time \<circ> sample_fetched" sample_env 2 5]
      sample_steady by (simp add: numeral_3_eq_3 del: upt_Suc)
qed

lemma run_pool_parent:
  assumes "run_pool env f from blockCount (new_pool blockCount k) w = (p, w1)" and "pl_parent p = Some c"
  shows "\<exists>v. fst (env_ctx env v) = Some c"
proof -
  let ?I = "\<lambda>p. \<forall>c. pl_parent p = Some c \<longrightarrow> (\<exists>v. fst (env_ctx env v) = Some c)"
  have "?I (fst (run_pool env f from blockCount (new_pool blockCount k) w))"
  proof (rule run_pool_induct [where I = ?I])
    show "?I (new_pool blockCount k)" by (simp add: new_pool_def)
    fix p :: Pool and v ev
    assume "?I p" "\<forall>e. ev = ParentDone e \<longrightarrow> (\<exists>v. fst (env_ctx env v) = Some e)"
    then show "?I (fst (pool_step f from ev p v))"
      by (cases ev) (auto split: option.splits prod.splits sum.splits)
  qed
  with assms show ?thesis by simp
qed

text \<open>
  C23: every way \<open>FetchRange\<close> can fail, under every schedule: the range is empty or too large, a fetch
  of one of its blocks failed, the caller's context is done, or the fetched blocks are not linked.
  It never deadlocks and never returns a partial range.
\<close>

theorem fetch_range_errors:
  assumes "FetchRange env f from to concurrency w = (Inl e, w')"
  shows "to < from \<and> errors_Is e ErrInvalidLowFetchRange \<or>
    MaxInt64 \<le> uint (to - from) \<and> errors_Is e ErrInvalidLargeFetchRange \<or>
    (\<exists>i \<le> unat (to - from). \<exists>e' v v'. FetchBlock f (from + of_nat i) v = (Inl e', v') \<and>
       e = Errorf ''failed to fetch block %d: %w'' [e']) \<or>
    (\<exists>c v. fst (env_ctx env v) = Some c \<and> e = ctx_err c) \<or>
    errors_Is e ErrInconsistentBlockData \<and>
      (\<exists>bs. (\<forall>j < length bs. fetched f (from + of_nat j) (bs ! j)) \<and> length bs = Suc (unat (to - from)) \<and>
         (\<exists>j. Suc j < length bs \<and> bb_ParentHash (bs ! Suc j) \<noteq> bb_Hash (bs ! j)))"
proof (cases "to < from \<or> MaxInt64 \<le> uint (to - from)")
  case True
  with assms show ?thesis by (auto simp: FetchRange_def split: if_splits)
next
  case False
  let ?n = "Suc (unat (to - from))"
  obtain p w1 k where inv: "pool_inv f from ?n p" and fin: "pool_finished p" and "0 < k"
    and run: "run_pool env f from ?n (new_pool ?n k) w = (p, w1)"
    and eq: "FetchRange env f from to concurrency w = range_outcome env from p w1"
    using FetchRange_cases [of "from" to f env w concurrency] False by (metis not_less not_le)
  have len: "length (pl_bundles p) = ?n" using inv by (simp add: pool_inv_def jobs_inv_def)
  consider (fetch) "pl_errCh p = Some e" | (ctx) c v where "fst (env_ctx env v) = Some c" "e = ctx_err c"
    | (links) "pl_errCh p = None" "pl_parent p = None" "validateFetchedBundles (pl_bundles p) from = Some e"
    using range_outcome_error [OF assms [unfolded eq]] run_pool_parent [OF run] by metis
  then show ?thesis
  proof cases
    case fetch
    then have "\<exists>i < ?n. \<exists>e'. fetch_failed f (from + of_nat i) e' \<and> e = Errorf ''failed to fetch block %d: %w'' [e']"
      using inv unfolding pool_inv_def cancel_inv_def by blast
    then show ?thesis unfolding fetch_failed_def less_Suc_eq_le by blast
  next
    case ctx
    then show ?thesis by blast
  next
    case links
    have got: "fetched f (from + of_nat j) (pl_bundles p ! j)" if "j < ?n" for j
      by (rule finished_complete [OF inv fin links(1,2) that])
    have "bb_Number (pl_bundles p ! j) = from + of_nat j" if "j < ?n" for j
      by (rule fetched_number [OF got [OF that]])
    then have "\<exists>j. Suc j < ?n \<and> bb_ParentHash (pl_bundles p ! Suc j) \<noteq> bb_Hash (pl_bundles p ! j)"
      using links(3) validateFetchedBundles_iff [of "pl_bundles p" "from"] len by auto
    moreover have "errors_Is e ErrInconsistentBlockData"
      using links(3) validate_fetched_error by (auto simp: validateFetchedBundles_def)
    ultimately show ?thesis
      using got len by (intro disjI2 conjI exI [of _ "pl_bundles p"]) simp_all
  qed
qed

theorem fetch_range_errors_witness:
  "\<exists>e w'. FetchRange sample_env (sample_fetcher 11) 10 12 2 0 = (Inl e, w') \<and>
     (\<exists>i \<le> 2. \<exists>e' v v'. FetchBlock (sample_fetcher 11) (10 + of_nat i) v = (Inl e', v') \<and>
        e = Errorf ''failed to fetch block %d: %w'' [e'])"
proof -
  let ?e = "Errorf ''failed to fetch block %d: %w'' [Errorf ''fetch block %d: %w'' [Foreign ''not found'']]"
  have "fst (FetchRange sample_env (sample_fetcher 11) 10 12 2 0) = Inl ?e" by code_simp
  then obtain w' where r: "FetchRange sample_env (sample_fetcher 11) 10 12 2 0 = (Inl ?e, w')"
    by (metis prod.collapse)
  have "unat (12 - 10 :: u64) = 2" "\<not> MaxInt64 \<le> uint (12 - 10 :: u64)" "\<not> (12 :: u64) < 10" by code_simp+
  moreover have "\<not> errors_Is ?e ErrInconsistentBlockData" by simp
  moreover have "fst (env_ctx sample_env v) \<noteq> Some c" for c v by (simp add: sample_env_def)
  ultimately have "\<exists>i \<le> 2. \<exists>e' v v'. FetchBlock (sample_fetcher 11) (10 + of_nat i) v = (Inl e', v') \<and>
      ?e = Errorf ''failed to fetch block %d: %w'' [e']"
    using fetch_range_errors [OF r] by metis
  with r show ?thesis by blast
qed

end
