(* ===== verification/Syncer_Props.thy ===== *)
theory Syncer_Props
  imports Memory_Theorems Ranger_Props Syncer
begin

text \<open>
  What one synchronization cycle guarantees, for every store that keeps the contract of
  \<open>Index_Store\<close>, every node and every schedule.
\<close>

section \<open>The window\<close>

lemma windowStart_le: "0 < b \<Longrightarrow> windowStart h b \<le> h"
proof -
  assume "0 < b"
  show ?thesis
  proof (cases "b - 1 > h")
    case False
    then have "b - 1 \<le> h" by simp
    then show ?thesis using word_sub_le [of "b - 1" h] by (simp add: windowStart_def)
  qed (simp add: windowStart_def)
qed

lemma windowStart_size:
  assumes "0 < b"
  shows "Suc (unat h - unat (windowStart h b)) = min (unat b) (Suc (unat h))"
proof -
  have b: "unat (b - 1) = unat b - 1" "0 < unat b" using assms by (auto simp: unat_minus_one unat_gt_0)
  show ?thesis
  proof (cases "b - 1 > h")
    case True
    then have "unat h < unat b - 1" using b by (simp add: word_less_nat_alt)
    then show ?thesis using True by (simp add: windowStart_def)
  next
    case False
    then have "unat b - 1 \<le> unat h" using b by (simp add: word_less_nat_alt)
    moreover have "unat (h - (b - 1)) = unat h - (unat b - 1)"
      using False b by (simp add: unat_sub not_less)
    ultimately show ?thesis using False b by (simp add: windowStart_def)
  qed
qed

section \<open>The common ancestor\<close>

text \<open>What the two reads answered for one height, at some point of the walk.\<close>

definition stored_as ::
  "('x, 'w) Context \<Rightarrow> ('x, 's, 'w) Syncer \<Rightarrow> ChainTip \<Rightarrow> 's \<Rightarrow> u64 \<Rightarrow> hash \<Rightarrow> bool" where
  "stored_as ctx sy tip s n h \<longleftrightarrow> (\<exists>w w'. storedHash ctx sy tip n s w = (Inr h, w'))"

definition canonical_as :: "('x, 's, 'w) Syncer \<Rightarrow> u64 \<Rightarrow> hash \<Rightarrow> u64 \<Rightarrow> hash \<Rightarrow> bool" where
  "canonical_as sy headNumber headHash n h \<longleftrightarrow> (\<exists>w w'. chainHash sy n headNumber headHash w = (Inr h, w'))"

lemma commonAncestor_step:
  assumes "storedHash ctx sy tip number s w = (Inr stored, w1)"
    and "chainHash sy number headNumber headHash w1 = (Inr canonical, w2)"
  shows "commonAncestor_loop ctx sy tip headNumber headHash retainFrom number s w =
    (if stored = canonical then (Inr (Some \<lparr>tip_Number = number, tip_Hash = stored\<rparr>), w2)
     else if number = retainFrom then (Inr None, w2)
     else commonAncestor_loop ctx sy tip headNumber headHash retainFrom (number - 1) s w2)"
  using assms by (simp add: commonAncestor_loop.simps [of ctx sy tip headNumber headHash retainFrom number s w])

lemma commonAncestor_reads:
  assumes "commonAncestor_loop ctx sy tip headNumber headHash retainFrom number s w = (Inr (Some a), w')"
  obtains stored w1 canonical w2 where "storedHash ctx sy tip number s w = (Inr stored, w1)"
    and "chainHash sy number headNumber headHash w1 = (Inr canonical, w2)"
proof -
  obtain r w1 where st: "storedHash ctx sy tip number s w = (r, w1)" by fastforce
  obtain r' w2 where can: "chainHash sy number headNumber headHash w1 = (r', w2)" by fastforce
  show thesis
    using that assms st can
    by (cases r; cases r')
      (auto simp: commonAncestor_loop.simps [of ctx sy tip headNumber headHash retainFrom number s w] split: if_splits)
qed

lemma pred_u64: "lo < n \<Longrightarrow> lo \<le> n - 1 \<and> n - 1 < n \<and> (\<forall>k. n - 1 < k \<longrightarrow> k \<le> n \<longrightarrow> k = n)" for lo n :: u64
proof -
  assume "lo < n"
  then have n: "n \<noteq> 0" by auto
  then have "unat (n - 1) = unat n - 1" "0 < unat n" by (auto simp: unat_minus_one unat_gt_0)
  with \<open>lo < n\<close> show ?thesis by (auto simp: word_less_nat_alt word_le_nat_alt word_unat_eq_iff)
qed

lemma commonAncestor_loop_found:
  assumes "commonAncestor_loop ctx sy tip headNumber headHash retainFrom number s w = (Inr (Some a), w')"
    and "retainFrom \<le> number"
  shows "retainFrom \<le> tip_Number a \<and> tip_Number a \<le> number \<and>
    stored_as ctx sy tip s (tip_Number a) (tip_Hash a) \<and>
    canonical_as sy headNumber headHash (tip_Number a) (tip_Hash a) \<and>
    (\<forall>n. tip_Number a < n \<longrightarrow> n \<le> number \<longrightarrow>
       (\<exists>h h'. stored_as ctx sy tip s n h \<and> canonical_as sy headNumber headHash n h' \<and> h \<noteq> h'))"
  using assms
proof (induction "unat (number - retainFrom)" arbitrary: number w rule: less_induct)
  case less
  obtain stored w1 canonical w2 where st: "storedHash ctx sy tip number s w = (Inr stored, w1)"
    and can: "chainHash sy number headNumber headHash w1 = (Inr canonical, w2)"
    by (rule commonAncestor_reads [OF less.prems(1)])
  note loop = less.prems(1) [unfolded commonAncestor_step [OF st can]]
  have as: "stored_as ctx sy tip s number stored" "canonical_as sy headNumber headHash number canonical"
    using st can by (auto simp: stored_as_def canonical_as_def)
  show ?case
  proof (cases "stored = canonical")
    case True
    then have "a = \<lparr>tip_Number = number, tip_Hash = stored\<rparr>" using loop by simp
    then show ?thesis using as True less.prems(2) by auto
  next
    case False
    then have ne: "number \<noteq> retainFrom"
      and rec: "commonAncestor_loop ctx sy tip headNumber headHash retainFrom (number - 1) s w2 = (Inr (Some a), w')"
      using loop by (auto split: if_splits)
    have pred: "retainFrom \<le> number - 1" "number - 1 < number" "\<And>k. number - 1 < k \<Longrightarrow> k \<le> number \<Longrightarrow> k = number"
      using pred_u64 [of retainFrom number] ne less.prems(2) by auto
    note IH = less.hyps [OF countdown [OF ne] rec pred(1)]
    have "\<exists>h h'. stored_as ctx sy tip s n h \<and> canonical_as sy headNumber headHash n h' \<and> h \<noteq> h'"
      if n: "tip_Number a < n" "n \<le> number" for n
    proof (cases "n \<le> number - 1")
      case True
      with IH n show ?thesis by blast
    next
      case False
      then have "n = number" using pred(3) n by simp
      with as \<open>stored \<noteq> canonical\<close> show ?thesis by blast
    qed
    moreover have "tip_Number a \<le> number" using IH pred(2) by (meson less_imp_le order_trans)
    ultimately show ?thesis using IH by blast
  qed
qed

text \<open>What a plan promises: it starts inside the window, and past the head only when nothing is missing.\<close>

lemma stored_as_tip: "stored_as ctx sy tip s (tip_Number tip) h \<longleftrightarrow> h = tip_Hash tip"
  by (auto simp: stored_as_def storedHash_def)

lemma canonical_as_head: "canonical_as sy headNumber headHash headNumber h \<longleftrightarrow> h = headHash"
  by (auto simp: canonical_as_def chainHash_def)

lemma replacementStart_bounds:
  assumes plan: "replacementStart ctx sy storedTip headNumber headHash retainFrom s w = (Inr plan, w')"
    and window: "retainFrom \<le> headNumber"
  shows "retainFrom \<le> rp_From plan \<and>
    (rp_From plan \<le> headNumber \<or>
     rp_From plan = headNumber + 1 \<and> headNumber \<noteq> MaxUint64 \<and>
       storedTip = Some \<lparr>tip_Number = headNumber, tip_Hash = headHash\<rparr>)"
proof (cases storedTip)
  case None
  with plan window show ?thesis by (auto simp: replacementStart_def)
next
  case (Some tip)
  show ?thesis
  proof (cases "tip_Number tip > headNumber \<or> tip_Number tip < retainFrom")
    case True
    with plan Some window show ?thesis by (auto simp: replacementStart_def)
  next
    case inside: False
    show ?thesis
    proof (cases "tip_Number tip = headNumber \<and> tip_Hash tip = headHash")
      case True
      then have "plan = \<lparr>rp_From = headNumber + 1, rp_Mode = SyncModeCurrent, rp_Reorg = None\<rparr>"
          "headNumber \<noteq> MaxUint64"
        using plan Some inside by (auto simp: replacementStart_def split: if_splits)
      moreover have "retainFrom \<le> headNumber + 1"
        using window less_Suc_u64 [OF calculation(2)] by (meson less_imp_le order_trans)
      ultimately show ?thesis using True Some by (cases tip) auto
    next
      case False
      obtain r w1 where anc: "commonAncestor ctx sy tip headNumber headHash retainFrom s w = (r, w1)" by fastforce
      show ?thesis
      proof (cases "\<exists>a. r = Inr (Some a)")
        case True
        then obtain a where a: "r = Inr (Some a)" by blast
        have start: "retainFrom \<le> min (tip_Number tip) headNumber" using inside window by (simp add: not_less)
        note found = commonAncestor_loop_found [OF anc [unfolded a commonAncestor_def Let_def] start]
        have "tip_Number a \<noteq> headNumber"
        proof
          assume eq: "tip_Number a = headNumber"
          then have "tip_Number tip = headNumber" using found inside by (auto simp: min_def split: if_splits)
          then show False using found False eq stored_as_tip [of ctx sy tip s] canonical_as_head
            by metis
        qed
        then have lt: "tip_Number a < headNumber" using found by (simp add: order.strict_iff_order)
        have "rp_From plan = tip_Number a + 1"
          using plan Some inside False anc a by (auto simp: replacementStart_def Let_def split: if_splits)
        moreover have "tip_Number a + 1 \<le> headNumber" using lt by (rule inc_le)
        moreover have "retainFrom \<le> tip_Number a + 1"
          using found less_Suc_u64 [OF less_imp_neq_MaxUint64 [OF lt]] by (meson less_imp_le order_trans)
        ultimately show ?thesis by simp
      next
        case none: False
        then have "rp_From plan = retainFrom"
          using plan Some inside False anc
          by (cases r) (auto simp: replacementStart_def split: option.splits)
        with window show ?thesis by simp
      qed
    qed
  qed
qed

section \<open>The blocks to apply\<close>

lemma fetch_missing_ok:
  assumes "fetch_missing ctx sy replaceFrom headNumber selectedHash w = (Inr bs, w')"
  shows "if replaceFrom \<le> headNumber
    then (\<exists>f v. y_fetcher sy = Some f \<and>
            FetchRange (cx_env ctx) f replaceFrom headNumber (c_RPCConcurrency (y_config sy)) w = (Inr bs, v)) \<and>
         bb_Hash (last bs) = selectedHash
    else bs = []"
  using assms by (auto simp: fetch_missing_def split: if_splits option.splits prod.splits sum.splits)

lemma fetch_missing_range:
  assumes "fetch_missing ctx sy replaceFrom headNumber selectedHash w = (Inr bs, w')" and "replaceFrom \<le> headNumber"
  shows "consecutive_from replaceFrom bs" "bs \<noteq> []" "bb_Number (last bs) = headNumber" "bb_Hash (last bs) = selectedHash"
proof -
  obtain f v where fr:
      "FetchRange (cx_env ctx) f replaceFrom headNumber (c_RPCConcurrency (y_config sy)) w = (Inr bs, v)"
      "bb_Hash (last bs) = selectedHash"
    using fetch_missing_ok [OF assms(1)] assms(2) by auto
  then show "consecutive_from replaceFrom bs" "bs \<noteq> []" "bb_Number (last bs) = headNumber" "bb_Hash (last bs) = selectedHash"
    using FetchRange_consecutive [OF fr(1)] by auto
qed

section \<open>The steps of a cycle\<close>

lemma validHeaderNumber_iff: "validHeaderNumber h = Inr n \<longleftrightarrow> h_Number h = Some (uint n)"
proof -
  have "IsUint64 i \<and> big_Uint64 i = n \<longleftrightarrow> i = uint n" for i by (rule block_number_iff)
  then show ?thesis by (auto simp: validHeaderNumber_def split: option.splits)
qed

lemma SyncOnce_ok:
  assumes "SyncOnce ctx sy s w = (Inr r, s', w')"
  obtains st head w1 headNumber x tip w2 plan w3 bs w4 t w5 y where
    "validateSyncOnceConfig sy = None" "y_store sy = Some st"
    "selectedHead sy w = (Inr head, w1)" "validHeaderNumber head = Inr headNumber"
    "is_CanonicalTip st x s = Inr tip"
    "replacementStart ctx sy tip headNumber (h_Hash head)
       (windowStart headNumber (c_BlockWindow (y_config sy))) s w2 = (Inr plan, w3)"
    "fetch_missing ctx sy (rp_From plan) headNumber (h_Hash head) w3 = (Inr bs, w4)"
    "y_now sy w4 = (t, w5)"
    "is_ApplyCanonicalUpdate st y \<lparr>u_ChainID = c_ChainID (y_config sy), u_ReplaceFrom = rp_From plan,
       u_RetainFrom = windowStart headNumber (c_BlockWindow (y_config sy)), u_Blocks = bs,
       u_SyncedAt = Time_UTC t\<rparr> s = (None, s')"
    "r = sync_result headNumber (h_Hash head) tip plan
       (windowStart headNumber (c_BlockWindow (y_config sy))) bs (Time_UTC t)"
proof -
  have v: "validateSyncOnceConfig sy = None"
    using assms by (auto simp: SyncOnce_def split: option.splits)
  then obtain st where st: "y_store sy = Some st"
    by (auto simp: validateSyncOnceConfig_def Let_def Option.is_none_def split: option.splits if_splits)
  obtain head w1 where head: "selectedHead sy w = (Inr head, w1)"
    using assms v by (auto simp: SyncOnce_def split: prod.splits sum.splits)
  obtain n where n: "validHeaderNumber head = Inr n"
    using assms v head by (auto simp: SyncOnce_def split: sum.splits)
  let ?lo = "windowStart n (c_BlockWindow (y_config sy))"
  obtain tip w2 where tip: "storedTip_read ctx sy s w1 = (Inr tip, w2)"
    using assms v head n by (auto simp: SyncOnce_def Let_def split: prod.splits sum.splits)
  obtain plan w3 where plan: "replacementStart ctx sy tip n (h_Hash head) ?lo s w2 = (Inr plan, w3)"
    using assms v head n tip by (auto simp: SyncOnce_def Let_def split: prod.splits sum.splits)
  obtain bs w4 where bs: "fetch_missing ctx sy (rp_From plan) n (h_Hash head) w3 = (Inr bs, w4)"
    using assms v head n tip plan by (auto simp: SyncOnce_def Let_def split: prod.splits sum.splits)
  obtain t w5 where t: "y_now sy w4 = (t, w5)" by fastforce
  let ?u = "\<lparr>u_ChainID = c_ChainID (y_config sy), u_ReplaceFrom = rp_From plan, u_RetainFrom = ?lo,
    u_Blocks = bs, u_SyncedAt = Time_UTC t\<rparr>"
  have app: "\<exists>w6. apply_update ctx sy ?u s w5 = (None, s', w6) \<and> r = sync_result n (h_Hash head) tip plan ?lo bs (Time_UTC t)"
    using assms v head n tip plan bs t by (auto simp: SyncOnce_def Let_def split: prod.splits option.splits)
  obtain x where x: "is_CanonicalTip st x s = Inr tip"
    using tip st by (auto simp: storedTip_read_def split: prod.splits sum.splits)
  obtain y where y: "is_ApplyCanonicalUpdate st y ?u s = (None, s')"
    using app st by (auto simp: apply_update_def split: prod.splits option.splits)
  show thesis using that [OF v st head n x plan bs t y] app by blast
qed

text \<open>
  The head a cycle works for: the node was asked for the block the head mode names, the latest one
  or a tag, and answered with this number and hash.
\<close>

definition head_reported :: "('x, 's, 'w) Syncer \<Rightarrow> 'w \<Rightarrow> ChainTip \<Rightarrow> bool" where
  "head_reported sy w tip \<longleftrightarrow>
     (\<exists>chain tag head w1. y_chain sy = Some chain \<and>
        (c_HeadMode (y_config sy) = ''latest'' \<and> tag = None \<or>
         c_HeadMode (y_config sy) = ''safe'' \<and> tag = Some (g_SafeBlockNumber (y_geth sy)) \<or>
         c_HeadMode (y_config sy) = ''finalized'' \<and> tag = Some (g_FinalizedBlockNumber (y_geth sy))) \<and>
        r_HeaderByNumber chain tag w = (Inr (Some head), w1) \<and>
        h_Number head = Some (uint (tip_Number tip)) \<and> h_Hash head = tip_Hash tip)"

lemma selected_reported:
  assumes "validateSyncOnceConfig sy = None" and "selectedHead sy w = (Inr head, w1)"
    and "validHeaderNumber head = Inr n"
  shows "head_reported sy w \<lparr>tip_Number = n, tip_Hash = h_Hash head\<rparr>"
proof -
  have mode: "c_HeadMode (y_config sy) \<in> {HeadLatest, HeadSafe, HeadFinalized}"
    using assms(1) by (auto simp: validateSyncOnceConfig_def Let_def split: option.splits if_splits)
  obtain chain where chain: "y_chain sy = Some chain" "r_HeaderByNumber chain (head_selector sy) w = (Inr (Some head), w1)"
    using assms(2) by (auto simp: selectedHead_def split: option.splits prod.splits sum.splits)
  have "h_Number head = Some (uint n)"
    using assms(3) block_number_iff by (auto simp: validHeaderNumber_def split: option.splits if_splits)
  then show ?thesis
    using chain mode
    by (auto simp: head_reported_def head_selector_def HeadLatest_def HeadSafe_def HeadFinalized_def)
qed

text \<open>The update \<open>u\<close> a cycle sends to the store for the head \<open>tip\<close>, once everything before has worked.\<close>

definition planned ::
  "('x, 'w) Context \<Rightarrow> ('x, 's, 'w) Syncer \<Rightarrow> 's \<Rightarrow> 'w \<Rightarrow> ('x, 's) IndexStore \<Rightarrow> CanonicalUpdate \<Rightarrow> ChainTip \<Rightarrow> bool" where
  "planned ctx sy s w st u tip \<longleftrightarrow>
     (\<exists>x stored w2 plan w3 bs w4 t. validateSyncOnceConfig sy = None \<and> y_store sy = Some st \<and> head_reported sy w tip \<and>
        is_CanonicalTip st x s = Inr stored \<and>
        replacementStart ctx sy stored (tip_Number tip) (tip_Hash tip)
          (windowStart (tip_Number tip) (c_BlockWindow (y_config sy))) s w2 = (Inr plan, w3) \<and>
        fetch_missing ctx sy (rp_From plan) (tip_Number tip) (tip_Hash tip) w3 = (Inr bs, w4) \<and>
        u = \<lparr>u_ChainID = c_ChainID (y_config sy), u_ReplaceFrom = rp_From plan,
          u_RetainFrom = windowStart (tip_Number tip) (c_BlockWindow (y_config sy)), u_Blocks = bs, u_SyncedAt = t\<rparr>)"

lemma SyncOnce_planned:
  assumes "SyncOnce ctx sy s w = (Inr r, s', w')"
  obtains st y u where "planned ctx sy s w st u (sr_Head r)" "is_ApplyCanonicalUpdate st y u s = (None, s')"
    "y_store sy = Some st" "sr_FromBlock r = u_RetainFrom u"
proof (rule SyncOnce_ok [OF assms])
  fix st head w1 n x tip w2 plan w3 bs w4 t w5 y
  assume 1: "validateSyncOnceConfig sy = None" "y_store sy = Some st"
    "selectedHead sy w = (Inr head, w1)" "validHeaderNumber head = Inr n"
    "is_CanonicalTip st x s = Inr tip"
    "replacementStart ctx sy tip n (h_Hash head)
       (windowStart n (c_BlockWindow (y_config sy))) s w2 = (Inr plan, w3)"
    "fetch_missing ctx sy (rp_From plan) n (h_Hash head) w3 = (Inr bs, w4)"
    "y_now sy w4 = (t, w5)"
    "is_ApplyCanonicalUpdate st y \<lparr>u_ChainID = c_ChainID (y_config sy), u_ReplaceFrom = rp_From plan,
       u_RetainFrom = windowStart n (c_BlockWindow (y_config sy)), u_Blocks = bs,
       u_SyncedAt = Time_UTC t\<rparr> s = (None, s')"
    "r = sync_result n (h_Hash head) tip plan
       (windowStart n (c_BlockWindow (y_config sy))) bs (Time_UTC t)"
  note reported = selected_reported [OF 1(1,3,4)]
  show thesis
  proof (rule that [OF _ 1(9,2)])
    show "planned ctx sy s w st \<lparr>u_ChainID = c_ChainID (y_config sy), u_ReplaceFrom = rp_From plan,
        u_RetainFrom = windowStart n (c_BlockWindow (y_config sy)), u_Blocks = bs, u_SyncedAt = Time_UTC t\<rparr> (sr_Head r)"
      using 1 reported by (fastforce simp: planned_def sync_result_def)
  qed (simp add: 1(10) sync_result_def)
qed

lemma SyncOnce_error:
  assumes "SyncOnce ctx sy s w = (Inl e, s', w')"
  shows "s' = s \<or> (\<exists>st x u e' tip. y_store sy = Some st \<and> planned ctx sy s w st u tip \<and>
    is_ApplyCanonicalUpdate st x u s = (Some e', s'))"
proof (cases "s' = s")
  case changed: False
  have v: "validateSyncOnceConfig sy = None"
    using assms changed by (auto simp: SyncOnce_def split: option.splits)
  then obtain st where st: "y_store sy = Some st"
    by (auto simp: validateSyncOnceConfig_def Let_def Option.is_none_def split: option.splits if_splits)
  obtain head w1 where head: "selectedHead sy w = (Inr head, w1)"
    using assms v changed by (auto simp: SyncOnce_def split: prod.splits sum.splits)
  obtain n where n: "validHeaderNumber head = Inr n"
    using assms v head changed by (auto simp: SyncOnce_def split: sum.splits)
  let ?lo = "windowStart n (c_BlockWindow (y_config sy))"
  obtain tip w2 where tip: "storedTip_read ctx sy s w1 = (Inr tip, w2)"
    using assms v head n changed by (auto simp: SyncOnce_def Let_def split: prod.splits sum.splits)
  obtain plan w3 where plan: "replacementStart ctx sy tip n (h_Hash head) ?lo s w2 = (Inr plan, w3)"
    using assms v head n tip changed by (auto simp: SyncOnce_def Let_def split: prod.splits sum.splits)
  obtain bs w4 where bs: "fetch_missing ctx sy (rp_From plan) n (h_Hash head) w3 = (Inr bs, w4)"
    using assms v head n tip plan changed by (auto simp: SyncOnce_def Let_def split: prod.splits sum.splits)
  obtain t w5 where t: "y_now sy w4 = (t, w5)" by fastforce
  let ?u = "\<lparr>u_ChainID = c_ChainID (y_config sy), u_ReplaceFrom = rp_From plan, u_RetainFrom = ?lo,
    u_Blocks = bs, u_SyncedAt = Time_UTC t\<rparr>"
  obtain y e' where "is_ApplyCanonicalUpdate st y ?u s = (Some e', s')"
    using assms v head n tip plan bs t st
    by (auto simp: SyncOnce_def Let_def apply_update_def split: prod.splits option.splits)
  moreover obtain x where x: "is_CanonicalTip st x s = Inr tip"
    using tip st by (auto simp: storedTip_read_def split: prod.splits sum.splits)
  moreover have "planned ctx sy s w st ?u \<lparr>tip_Number = n, tip_Hash = h_Hash head\<rparr>"
    unfolding planned_def using v st selected_reported [OF v head n] x plan bs by fastforce
  ultimately show ?thesis using st by blast
qed simp

lemma validated_window:
  assumes "validateSyncOnceConfig sy = None"
  shows "0 < c_BlockWindow (y_config sy)" "c_BlockWindow (y_config sy) \<le> MaxBlockWindow" "c_ChainID (y_config sy) \<noteq> 0"
  using assms by (auto simp: validateSyncOnceConfig_def Let_def word_gt_0 not_less split: option.splits if_splits)

section \<open>A cycle over any store\<close>

text \<open>Block hashes bind their parents, so a linked chain is known from its top.\<close>

lemma linked_chain_top:
  assumes linked: "linked_chain C" and at_hi: "C hi = Some (H hi, p)"
    and binds: "\<forall>n h p. C n = Some (h, p) \<longrightarrow> p = parent h"
    and chain: "\<forall>n < hi. H n = parent (H (n + 1))"
    and n: "C n = Some (h, q)" "n \<le> hi"
  shows "h = H n"
  using n
proof (induction "unat hi - unat n" arbitrary: n h q)
  case 0
  then have "unat hi \<le> unat n" "unat n \<le> unat hi" by (simp_all add: word_le_nat_alt)
  then have "n = hi" by (simp add: word_unat_eq_iff)
  with 0 at_hi show ?case by simp
next
  case (Suc d)
  then have lt: "n < hi" by (simp add: word_less_nat_alt)
  note ne = less_imp_neq_MaxUint64 [OF lt]
  have le: "n + 1 \<le> hi" using lt by (rule inc_le)
  have "n + 1 \<in> dom C"
    using linked at_hi Suc.prems less_imp_le [OF less_Suc_u64 [OF ne]] le unfolding linked_chain_def by blast
  then obtain h' q' where h': "C (n + 1) = Some (h', q')" by auto
  have "h' = H (n + 1)"
    using Suc.hyps(1) [OF _ h' le] Suc.hyps(2) by (simp add: unat_Suc_u64 [OF ne])
  moreover have "q' = h" using linked ne Suc.prems(1) h' unfolding linked_chain_def by blast
  moreover have "q' = parent h'" using binds h' by blast
  ultimately show ?case using chain lt by metis
qed

lemma updated_interval:
  assumes "consecutive_from (u_ReplaceFrom u) (u_Blocks u)" and "updated f u M n = Some x"
    and "u_RetainFrom u \<le> u_ReplaceFrom u"
  shows "u_RetainFrom u \<le> n" "n < u_ReplaceFrom u \<or> u_Blocks u \<noteq> [] \<and> n \<le> bb_Number (last (u_Blocks u))"
proof -
  from updated_Some [OF assms(2)] consider "u_RetainFrom u \<le> n" "n < u_ReplaceFrom u"
    | b where "b \<in> set (u_Blocks u)" "bb_Number b = n" by blast
  then have "u_RetainFrom u \<le> n \<and> (n < u_ReplaceFrom u \<or> u_Blocks u \<noteq> [] \<and> n \<le> bb_Number (last (u_Blocks u)))"
  proof cases
    case (2 b)
    then show ?thesis
      using consecutive_from_ge [OF assms(1) 2(1)] consecutive_from_last [OF assms(1) 2(1)] assms(3) by auto
  qed simp
  then show "u_RetainFrom u \<le> n" "n < u_ReplaceFrom u \<or> u_Blocks u \<noteq> [] \<and> n \<le> bb_Number (last (u_Blocks u))"
    by blast+
qed

context index_store
begin

lemma planned_window:
  assumes inv: "inv s" and p: "planned ctx sy s w S u tip" and "consecutive_from (u_ReplaceFrom u) (u_Blocks u)"
    and upd: "chain s' = updated header u (chain s)"
  shows "\<exists>p. chain s' (tip_Number tip) = Some (tip_Hash tip, p)"
    and "\<forall>n \<in> dom (chain s'). u_RetainFrom u \<le> n \<and> n \<le> tip_Number tip"
    and "u_RetainFrom u = windowStart (tip_Number tip) (c_BlockWindow (y_config sy))" and "head_reported sy w tip"
    and "validateSyncOnceConfig sy = None"
proof -
  let ?n = "tip_Number tip"
  let ?lo = "windowStart ?n (c_BlockWindow (y_config sy))"
  obtain x stored w2 plan w3 bs w4 t where
    v: "validateSyncOnceConfig sy = None" and reported: "head_reported sy w tip"
    and tip: "is_CanonicalTip S x s = Inr stored"
    and plan: "replacementStart ctx sy stored ?n (tip_Hash tip) ?lo s w2 = (Inr plan, w3)"
    and bs: "fetch_missing ctx sy (rp_From plan) ?n (tip_Hash tip) w3 = (Inr bs, w4)"
    and u: "u = \<lparr>u_ChainID = c_ChainID (y_config sy), u_ReplaceFrom = rp_From plan, u_RetainFrom = ?lo,
      u_Blocks = bs, u_SyncedAt = t\<rparr>"
    using p unfolding planned_def by blast
  show "validateSyncOnceConfig sy = None" "head_reported sy w tip" "u_RetainFrom u = ?lo" using v reported u by simp_all
  have cons: "consecutive_from (rp_From plan) bs" using assms(3) u by simp
  have lo: "?lo \<le> ?n" by (rule windowStart_le) (rule validated_window(1) [OF v])
  note bounds = replacementStart_bounds [OF plan lo]
  show "\<exists>p. chain s' ?n = Some (tip_Hash tip, p)"
  proof (cases "rp_From plan \<le> ?n")
    case True
    note range = fetch_missing_range [OF bs True]
    have "updated header u (chain s) (bb_Number (last bs)) = Some (header (last bs))"
      using updated_block [of "rp_From plan" u "last bs"] range u by simp
    then show ?thesis using range upd by (simp add: header_def)
  next
    case False
    with bounds have b: "rp_From plan = ?n + 1" "?n \<noteq> MaxUint64" "stored = Some \<lparr>tip_Number = ?n, tip_Hash = tip_Hash tip\<rparr>"
      by auto
    then obtain p where "chain s ?n = Some (tip_Hash tip, p)" using tip_Some [OF inv] tip by fastforce
    moreover have "bs = []" using fetch_missing_ok [OF bs] False by simp
    ultimately show ?thesis using upd u lo b less_Suc_u64 [OF b(2)] by (simp add: updated_def)
  qed
  show "\<forall>n \<in> dom (chain s'). u_RetainFrom u \<le> n \<and> n \<le> ?n"
  proof
    fix k assume "k \<in> dom (chain s')"
    then obtain z where k: "updated header u (chain s) k = Some z" using upd by auto
    have in_range: "?lo \<le> k" "k < rp_From plan \<or> bs \<noteq> [] \<and> k \<le> bb_Number (last bs)"
      using updated_interval [OF _ k] cons bounds u by auto
    have "k \<le> ?n"
    proof (cases "rp_From plan \<le> ?n")
      case True
      then show ?thesis using in_range(2) fetch_missing_range [OF bs True] by auto
    next
      case False
      then have "rp_From plan = ?n + 1" "bs = []" using bounds fetch_missing_ok [OF bs] by auto
      then show ?thesis using in_range(2) by (metis between_Suc_u64 inc_le leI less_le_not_le)
    qed
    with in_range(1) show "u_RetainFrom u \<le> k \<and> k \<le> ?n" by (simp add: u)
  qed
qed

lemma sync_ok:
  assumes inv: "inv s" and S: "y_store sy = Some S" and ok: "SyncOnce ctx sy s w = (Inr r, s', w')"
  shows "inv s'"
    and "\<exists>p. chain s' (tip_Number (sr_Head r)) = Some (tip_Hash (sr_Head r), p)"
    and "\<forall>n \<in> dom (chain s'). sr_FromBlock r \<le> n \<and> n \<le> tip_Number (sr_Head r)"
    and "sr_FromBlock r = windowStart (tip_Number (sr_Head r)) (c_BlockWindow (y_config sy))"
    and "head_reported sy w (sr_Head r)"
proof -
  obtain st y u where u: "planned ctx sy s w st u (sr_Head r)" "is_ApplyCanonicalUpdate st y u s = (None, s')"
    "y_store sy = Some st" and lo: "sr_FromBlock r = u_RetainFrom u"
    by (rule SyncOnce_planned [OF ok])
  have [simp]: "st = S" using S u(3) by simp
  note app = u(2) [unfolded \<open>st = S\<close>] and p = u(1) [unfolded \<open>st = S\<close>]
  note new = apply_done [OF inv app]
  show "inv s'" by (rule apply_inv [OF inv app])
  note window = planned_window [OF inv p conjunct1 [OF conjunct2 [OF new]] conjunct2 [OF conjunct2 [OF new]]]
  show "\<exists>p. chain s' (tip_Number (sr_Head r)) = Some (tip_Hash (sr_Head r), p)"
    "\<forall>n \<in> dom (chain s'). sr_FromBlock r \<le> n \<and> n \<le> tip_Number (sr_Head r)"
    "sr_FromBlock r = windowStart (tip_Number (sr_Head r)) (c_BlockWindow (y_config sy))" "head_reported sy w (sr_Head r)"
    using window lo by simp_all
qed

lemma sync_failed:
  assumes inv: "inv s" and S: "y_store sy = Some S" and failed: "SyncOnce ctx sy s w = (Inl e, s', w')"
  shows "inv s' \<and> (chain s' = chain s \<or>
    (\<exists>u tip p. chain s' = updated header u (chain s) \<and> head_reported sy w tip \<and>
       chain s' (tip_Number tip) = Some (tip_Hash tip, p) \<and>
       dom (chain s') \<subseteq> {windowStart (tip_Number tip) (c_BlockWindow (y_config sy)) .. tip_Number tip}))"
proof (cases "s' = s")
  case False
  then obtain x u e' tip where u: "planned ctx sy s w S u tip" and app: "is_ApplyCanonicalUpdate S x u s = (Some e', s')"
    using SyncOnce_error [OF failed] S by auto
  show ?thesis
  proof (cases "chain s' = chain s")
    case False
    then have new: "consecutive_from (u_ReplaceFrom u) (u_Blocks u)" "chain s' = updated header u (chain s)"
      using apply_failed [OF inv app] by blast+
    note window = planned_window [OF inv u new]
    have "dom (chain s') \<subseteq> {windowStart (tip_Number tip) (c_BlockWindow (y_config sy)) .. tip_Number tip}"
      using window(2,3) by auto
    then show ?thesis using window(1,4) new(2) apply_inv [OF inv app] by blast
  qed (use apply_inv [OF inv app] in simp)
qed (use inv in simp)

end

section \<open>A node and a store for examples\<close>

definition sample_config :: Config where
  "sample_config = \<lparr>c_ChainID = 1, c_PollInterval = 12000000000, c_BlockWindow = 3, c_HeadMode = HeadLatest,
     c_RPCTimeout = 5000000000, c_RPCConcurrency = 2, c_RetryAttempts = 2, c_RetryMinBackoff = 100,
     c_RetryMaxBackoff = 300\<rparr>"

definition sample_syncer :: "u64 \<Rightarrow> (ctx, Memory, nat) Syncer" where
  "sample_syncer head = NewSyncer sample_geth (\<lambda>w. (zero_Time, Suc w)) (Some (sample_fetcher head))
     (Some (sample_reader head)) (Some MemoryIndexStore) sample_config (\<lambda>e w. w)"

definition sample_context :: "(ctx, nat) Context" where
  "sample_context = \<lparr>cx_env = sample_env, cx_call = (\<lambda>w. (None, Suc w))\<rparr>"

definition sample_synced :: Memory where
  "sample_synced = fst (snd (SyncOnce sample_context (sample_syncer 20) NewMemory 0))"

lemma sample_sync:
  "\<exists>r w'. SyncOnce sample_context (sample_syncer 20) NewMemory 0 = (Inr r, sample_synced, w') \<and>
     sr_Head r = \<lparr>tip_Number = 20, tip_Hash = 120\<rparr> \<and> sr_Mode r = SyncModeInitialLoad \<and> sr_BlockCount r = 3"
proof -
  have "(case fst (SyncOnce sample_context (sample_syncer 20) NewMemory 0) of
      Inl e \<Rightarrow> False | Inr r \<Rightarrow> sr_Head r = \<lparr>tip_Number = 20, tip_Hash = 120\<rparr> \<and>
        sr_Mode r = SyncModeInitialLoad \<and> sr_BlockCount r = 3)" by code_simp
  moreover obtain r m w' where r: "SyncOnce sample_context (sample_syncer 20) NewMemory 0 = (r, m, w')"
    using prod_cases3 by blast
  ultimately show ?thesis by (cases r) (simp_all add: sample_synced_def)
qed

end
