(* ===== verification/Syncer_Theorems.thy ===== *)
theory Syncer_Theorems
  imports Syncer_Props
begin

text \<open>
  The properties of a synchronization cycle over the in-memory store, which keeps the contract of
  \<open>Index_Store\<close>. The node, the clock and the scheduler may do anything unless a hypothesis says
  otherwise.
\<close>

section \<open>Safety of a cycle\<close>

lemma card_window:
  assumes "D \<subseteq> {lo .. hi :: u64}"
  shows "finite D" "card D \<le> Suc (unat hi - unat lo)"
proof -
  have "unat ` D \<subseteq> {unat lo .. unat hi}" using assms by (auto simp: word_le_nat_alt)
  then have "card (unat ` D) \<le> Suc (unat hi - unat lo)"
    using card_mono [of "{unat lo .. unat hi}" "unat ` D"] by simp
  moreover have "inj_on unat D" by (auto simp: inj_on_def word_unat_eq_iff)
  ultimately show "card D \<le> Suc (unat hi - unat lo)" by (simp add: card_image)
  show "finite D" by simp
qed

lemma tip_of_head:
  assumes inv: "memory_inv m" and "memory_chain m n = Some (h, p)" and "\<forall>k \<in> dom (memory_chain m). k \<le> n"
  shows "Memory_CanonicalTip None m = Inr (Some \<lparr>tip_Number = n, tip_Hash = h\<rparr>)"
proof -
  have "\<exists>t. Memory_CanonicalTip None m = Inr t"
    by (auto simp: Memory_CanonicalTip_def split: prod.splits)
  then obtain t where t: "Memory_CanonicalTip None m = Inr t" by blast
  moreover have "m_bundles m \<noteq> []" using assms(2) by (auto simp: memory_chain_def)
  ultimately obtain tip where tip: "t = Some tip" using CanonicalTip_cases(1) [of m] by (cases t) auto
  have "is_CanonicalTip MemoryIndexStore None m = Inr (Some tip)" using t tip by (simp add: MemoryIndexStore_def)
  from mem.tip_Some [OF inv this] obtain q where q: "memory_chain m (tip_Number tip) = Some (tip_Hash tip, q)"
    and top: "\<forall>k \<in> dom (memory_chain m). k \<le> tip_Number tip" by blast
  have "tip_Number tip = n" using q top assms(2,3) by (meson domI order_antisym)
  then show ?thesis using q t tip assms(2) by (cases tip) simp
qed

text \<open>
  C2: after a successful cycle the store holds one canonical chain. Its tip, the head the cycle
  reports, is the header the node answered with when asked for the configured head (latest, safe or
  finalized); every block lies in the configured window below that head, and there are at most
  \<open>MaxBlockWindow\<close> of them. This holds whatever was stored before and whatever the node answered.
\<close>

theorem sync_success_window:
  assumes "memory_inv m" and "y_store sy = Some MemoryIndexStore"
    and "SyncOnce ctx sy m w = (Inr r, m', w')"
  shows "canonical_bundles (map_of (m_bundles m')) \<and>
    Memory_CanonicalTip None m' = Inr (Some (sr_Head r)) \<and> head_reported sy w (sr_Head r) \<and>
    dom (memory_chain m') \<subseteq>
      {windowStart (tip_Number (sr_Head r)) (c_BlockWindow (y_config sy)) .. tip_Number (sr_Head r)} \<and>
    card (dom (memory_chain m')) \<le> unat (c_BlockWindow (y_config sy)) \<and>
    c_BlockWindow (y_config sy) \<le> MaxBlockWindow"
proof -
  note ok = mem.sync_ok [OF assms]
  let ?hi = "tip_Number (sr_Head r)" and ?b = "c_BlockWindow (y_config sy)"
  obtain p where p: "memory_chain m' ?hi = Some (tip_Hash (sr_Head r), p)" using ok(2) by blast
  have v: "validateSyncOnceConfig sy = None" by (rule SyncOnce_ok [OF assms(3)])
  note window = validated_window [OF v]
  have dom: "dom (memory_chain m') \<subseteq> {windowStart ?hi ?b .. ?hi}" using ok(3,4) by auto
  have "card (dom (memory_chain m')) \<le> unat ?b"
    using card_window(2) [OF dom] windowStart_size [OF window(1), of ?hi] by simp
  moreover have "Memory_CanonicalTip None m' = Inr (Some (sr_Head r))"
    using tip_of_head [OF ok(1) p] ok(3) by (cases "sr_Head r") auto
  moreover have "canonical_bundles (map_of (m_bundles m'))" using ok(1) by (simp add: memory_inv_def)
  ultimately show ?thesis using dom window(2) ok(5) by blast
qed

lemma sample_store [simp]: "y_store (sample_syncer n) = Some MemoryIndexStore"
  by (simp add: sample_syncer_def NewSyncer_def)

theorem sync_success_window_witness:
  "Memory_CanonicalTip None sample_synced = Inr (Some \<lparr>tip_Number = 20, tip_Hash = 120\<rparr>) \<and>
   canonical_bundles (map_of (m_bundles sample_synced))"
proof -
  obtain r w' where r: "SyncOnce sample_context (sample_syncer 20) NewMemory 0 = (Inr r, sample_synced, w')"
    "sr_Head r = \<lparr>tip_Number = 20, tip_Hash = 120\<rparr>" using sample_sync by blast
  show ?thesis using sync_success_window [OF NewMemory_inv sample_store r(1)] r(2) by simp
qed

lemma SyncOnce_memory_failed:
  assumes "memory_inv m" and "y_store sy = Some MemoryIndexStore" and "SyncOnce ctx sy m w = (Inl e, m', w')"
  shows "m' = m"
proof -
  have "m' = m" if "Memory_ApplyCanonicalUpdate x u m = (Some e', m')" for x u e'
    using Memory_Apply_chain(2) [OF assms(1) that] by simp
  then show ?thesis using SyncOnce_error [OF assms(3)] assms(2) by (auto simp: MemoryIndexStore_def)
qed

text \<open>
  C24: a cycle that fails, at whatever point, leaves the store as it was: a reader never sees a
  partial update, and the next cycle starts from the same chain.
\<close>

theorem sync_failure_unchanged:
  assumes "memory_inv m" and "y_store sy = Some MemoryIndexStore"
    and "SyncOnce ctx sy m w = (Inl e, m', w')"
  shows "m' = m"
  using assms by (rule SyncOnce_memory_failed)

theorem sync_failure_unchanged_witness:
  "fst (snd (SyncOnce sample_context ((sample_syncer 20)\<lparr>y_fetcher := Some (sample_fetcher 19)\<rparr>) sample_memory 0)) =
     sample_memory"
proof -
  let ?r = "SyncOnce sample_context ((sample_syncer 20)\<lparr>y_fetcher := Some (sample_fetcher 19)\<rparr>) sample_memory 0"
  have "isl (fst ?r)" by code_simp
  then obtain e where "fst ?r = Inl e" by (auto simp: isl_def)
  then have r: "?r = (Inl e, fst (snd ?r), snd (snd ?r))" by (metis prod.collapse)
  show ?thesis by (rule sync_failure_unchanged [OF sample_memory_inv _ r]) simp
qed

text \<open>
  C25: block hashes bind their parents. If \<open>H\<close> is the chain of ancestors of the head the node
  reported, then after a successful cycle every stored block is the block of that chain at its
  height: no block of an abandoned fork is left, wherever the fork began.
\<close>

theorem sync_follows_head:
  assumes "memory_inv m" and "y_store sy = Some MemoryIndexStore"
    and "SyncOnce ctx sy m w = (Inr r, m', w')"
    and "\<forall>n h p. memory_chain m' n = Some (h, p) \<longrightarrow> p = parent h"
    and "H (tip_Number (sr_Head r)) = tip_Hash (sr_Head r)"
    and "\<forall>n < tip_Number (sr_Head r). H n = parent (H (n + 1))"
  shows "\<forall>n h p. memory_chain m' n = Some (h, p) \<longrightarrow> h = H n"
proof -
  note ok = mem.sync_ok [OF assms(1-3)]
  obtain p where p: "memory_chain m' (tip_Number (sr_Head r)) = Some (H (tip_Number (sr_Head r)), p)"
    using ok(2) assms(5) by auto
  show ?thesis
    using linked_chain_top [OF mem.chain_linked [OF ok(1)] p assms(4,6)] ok(3) by blast
qed

lemma sample_synced_chain:
  "map (\<lambda>(n, b). (n, header b)) (m_bundles sample_synced) = [(18, 118, 117), (19, 119, 118), (20, 120, 119)]"
  by code_simp

theorem sync_follows_head_witness:
  "memory_chain sample_synced 19 = Some (119, 118) \<and> (119 :: hash) = 100 + ucast (19 :: u64)"
proof -
  obtain r w' where r: "SyncOnce sample_context (sample_syncer 20) NewMemory 0 = (Inr r, sample_synced, w')"
    "sr_Head r = \<lparr>tip_Number = 20, tip_Hash = 120\<rparr>" using sample_sync by blast
  have "map_option header (map_of (m_bundles sample_synced) n) =
      map_of (map (\<lambda>(n, b). (n, header b)) (m_bundles sample_synced)) n" for n
    by (induction "m_bundles sample_synced") (auto simp: map_of_map)
  then have chain: "memory_chain sample_synced n = map_of [(18, 118, 117), (19, 119, 118), (20, 120, 119)] n" for n
    unfolding memory_chain_def sample_synced_chain by simp
  have binds: "\<forall>n h p. memory_chain sample_synced n = Some (h, p) \<longrightarrow> p = h - 1"
    unfolding chain by (auto split: if_splits)
  have up: "100 + ucast n = (100 + ucast (n + 1)) - (1 :: hash)" if "n < 20" for n :: u64
  proof -
    have "n \<noteq> MaxUint64" using that by (rule less_imp_neq_MaxUint64)
    then have "(of_nat (unat (n + 1)) :: hash) = of_nat (unat n) + 1" by (simp add: unat_Suc_u64 del: of_nat_unat)
    then show ?thesis by simp
  qed
  have "\<forall>n h p. memory_chain sample_synced n = Some (h, p) \<longrightarrow> h = 100 + ucast n"
  proof (rule sync_follows_head [OF NewMemory_inv sample_store r(1), where parent = "\<lambda>h. h - 1"])
    show "\<forall>n h p. memory_chain sample_synced n = Some (h, p) \<longrightarrow> p = h - 1" by (rule binds)
    show "100 + ucast (tip_Number (sr_Head r)) = tip_Hash (sr_Head r)" by (simp add: r(2))
    show "\<forall>n < tip_Number (sr_Head r). 100 + ucast n = 100 + ucast (n + 1) - (1 :: hash)"
      unfolding r(2) ChainTip.simps using up by blast
  qed
  moreover have "memory_chain sample_synced 19 = Some (119, 118)" by (simp add: chain)
  ultimately show ?thesis by blast
qed

text \<open>
  When the stored tip is the head, nothing is fetched, however few blocks below it are stored: a window that
  was made larger fills up only as the chain grows.
\<close>

lemma enlarged_window_kept:
  assumes "headNumber \<noteq> MaxUint64" and "retainFrom \<le> headNumber"
  shows "replacementStart ctx sy (Some \<lparr>tip_Number = headNumber, tip_Hash = headHash\<rparr>) headNumber headHash retainFrom s w =
    (Inr \<lparr>rp_From = headNumber + 1, rp_Mode = SyncModeCurrent, rp_Reorg = None\<rparr>, w)"
  using assms by (auto simp: replacementStart_def)

text \<open>
  C10: the walk back finds the nearest common ancestor. When the plan names one, the block is stored
  and on the node's chain under the same hash, and at every height above it, up to the lower of the
  two tips, the stored block and the node's block differ. The plan replaces from the next height
  on and its count is the number of stored heights it gives up.
\<close>

theorem reorg_nearest_ancestor:
  assumes "replacementStart ctx sy (Some tip) headNumber headHash retainFrom s w = (Inr plan, w')"
    and "rp_Reorg plan = Some reorg" and "rr_CommonAncestor reorg = Some a" and "retainFrom \<le> headNumber"
  shows "retainFrom \<le> tip_Number a \<and> tip_Number a < tip_Number tip \<and>
    rp_From plan = tip_Number a + 1 \<and> rr_ReplacedFrom reorg = rp_From plan \<and>
    unat (rr_ReplacedBlockCount reorg) = unat (tip_Number tip) - unat (tip_Number a) \<and>
    stored_as ctx sy tip s (tip_Number a) (tip_Hash a) \<and>
    canonical_as sy headNumber headHash (tip_Number a) (tip_Hash a) \<and>
    (\<forall>n. tip_Number a < n \<longrightarrow> n \<le> min (tip_Number tip) headNumber \<longrightarrow>
       (\<exists>h h'. stored_as ctx sy tip s n h \<and> canonical_as sy headNumber headHash n h' \<and> h \<noteq> h'))"
proof -
  have inside: "\<not> (tip_Number tip > headNumber \<or> tip_Number tip < retainFrom)"
    and ne: "\<not> (tip_Number tip = headNumber \<and> tip_Hash tip = headHash)"
    using assms(1,2) by (auto simp: replacementStart_def split: if_splits)
  obtain q w1 where q: "commonAncestor ctx sy tip headNumber headHash retainFrom s w = (q, w1)" by fastforce
  then obtain x where x: "q = Inr x" using assms(1) inside ne by (cases q) (auto simp: replacementStart_def)
  obtain b where b: "x = Some b"
    using assms(1-3) inside ne q x by (cases x) (auto simp: replacementStart_def)
  have plan: "a = b" "tip_Number b \<noteq> MaxUint64" "tip_Number b \<noteq> tip_Number tip" "rp_From plan = tip_Number b + 1"
      "rr_ReplacedFrom reorg = rp_From plan" "rr_ReplacedBlockCount reorg = tip_Number tip - (tip_Number b + 1) + 1"
    using assms(1-3) inside ne q x b
    by (auto simp: replacementStart_def cloneChainTip_def Let_def split: if_splits)
  have start: "retainFrom \<le> min (tip_Number tip) headNumber" using inside assms(4) by (simp add: not_less)
  note found = commonAncestor_loop_found [OF q [unfolded x b commonAncestor_def Let_def] start]
  have lt: "tip_Number b < tip_Number tip" using found plan(3) by (simp add: order.strict_iff_order)
  have "unat (tip_Number tip - tip_Number b) = unat (tip_Number tip) - unat (tip_Number b)"
    using lt by (simp add: unat_sub less_imp_le)
  then show ?thesis using plan found lt by simp
qed

definition sample_fork :: Memory where
  "sample_fork = \<lparr>m_chainID = 1,
     m_bundles = [(19, sample_bundle 19 119 118 1019), (20, sample_bundle 20 777 119 5020)],
     m_lastSyncedAt = zero_Time\<rparr>"

theorem reorg_nearest_ancestor_witness:
  "\<exists>plan w'. replacementStart sample_context (sample_syncer 21) (Some \<lparr>tip_Number = 20, tip_Hash = 777\<rparr>)
       21 121 19 sample_fork 0 = (Inr plan, w') \<and> rp_From plan = 20 \<and>
     stored_as sample_context (sample_syncer 21) \<lparr>tip_Number = 20, tip_Hash = 777\<rparr> sample_fork 19 119"
proof -
  let ?tip = "\<lparr>tip_Number = 20, tip_Hash = 777\<rparr>" and ?a = "\<lparr>tip_Number = 19, tip_Hash = 119\<rparr>"
  let ?plan = "\<lparr>rp_From = 20, rp_Mode = SyncModeReorg, rp_Reorg = Some \<lparr>rr_CommonAncestor = Some ?a,
    rr_ReplacedFrom = 20, rr_ReplacedTo = 20, rr_ReplacedBlockCount = 1\<rparr>\<rparr>"
  have "fst (replacementStart sample_context (sample_syncer 21) (Some ?tip) 21 121 19 sample_fork 0) = Inr ?plan"
    by code_simp
  then obtain w' where p: "replacementStart sample_context (sample_syncer 21) (Some ?tip) 21 121 19 sample_fork 0 =
      (Inr ?plan, w')" by (metis prod.collapse)
  show ?thesis using p reorg_nearest_ancestor [OF p, of "the (rp_Reorg ?plan)" ?a] by simp
qed

end
