(* ===== verification/Postgres_Props.thy ===== *)
theory Postgres_Props
  imports Postgres Syncer_Theorems
begin

text \<open>
  The proofs about the PostgreSQL store: rows decode to the values they were made of, batching does
  not change what is inserted, and an update that commits turns the stored chain into the one the
  contract of \<open>IndexStore\<close> promises.
\<close>

section \<open>Drivers\<close>

text \<open>What the store relies on: bytes make the hash or address with those bytes, and a scanned numeric is its value.\<close>

definition drivers_ok :: "Drivers \<Rightarrow> bool" where
  "drivers_ok d \<longleftrightarrow> (\<forall>bs. length bs = 32 \<longrightarrow> dr_BytesToHash d bs = be_word bs) \<and>
     (\<forall>bs. length bs = 20 \<longrightarrow> dr_BytesToAddress d bs = be_word bs) \<and>
     (\<forall>v. 0 \<le> v \<longrightarrow> v < 2 ^ 256 \<longrightarrow>
        (let n = dr_ScanNumeric d v in nm_Valid n \<and> \<not> nm_NaN n \<and> nm_Finite n \<and> 0 \<le> nm_Exp n \<and> nm_Exp n \<le> 78 \<and>
           (\<exists>i. nm_Int n = Some i \<and> i * 10 ^ nat (nm_Exp n) = v)))"

lemma decodeHash_bytes: "drivers_ok d \<Longrightarrow> decodeHash d (be_bytes 32 h) = Inr h"
  by (simp add: drivers_ok_def decodeHash_def be_word_bytes)

lemma decodeAddress_bytes: "drivers_ok d \<Longrightarrow> decodeAddress d (be_bytes 20 a) = Inr a"
  by (simp add: drivers_ok_def decodeAddress_def be_word_bytes)

lemma decodeOptionalAddress_bytes: "drivers_ok d \<Longrightarrow> decodeOptionalAddress d (postgresAddress a) = Inr a"
  by (simp add: decodeOptionalAddress_def postgresAddress_def decodeAddress_bytes split: option.splits)

lemma decode_all_map:
  "(\<And>x. x \<in> set xs \<Longrightarrow> f (g x) = Inr (h x)) \<Longrightarrow> decode_all f msg (map g xs) = Inr (map h xs)"
  by (induction xs) auto

lemma decodeTopics_bytes: "drivers_ok d \<Longrightarrow> length ts \<le> 4 \<Longrightarrow> decodeTopics d (map (be_bytes 32) ts) = Inr ts"
  using decode_all_map [of ts "decodeHash d" "be_bytes 32" id] by (simp add: decodeTopics_def decodeHash_bytes)

lemma postgresInt64_Inr [simp]: "postgresInt64 v = Inr i \<longleftrightarrow> uint v \<le> MaxInt64 \<and> i = uint v"
  by (auto simp: postgresInt64_def)

lemma postgresInt32_Inr [simp]: "postgresInt32 v = Inr i \<longleftrightarrow> uint v \<le> MaxInt32 \<and> i = uint v"
  by (auto simp: postgresInt32_def)

lemma postgresCount_Inr [simp]: "postgresCount v = Inr i \<longleftrightarrow> 0 \<le> v \<and> v \<le> MaxInt32 \<and> i = v"
  by (auto simp: postgresCount_def)

lemma decode_uint [simp]:
  "decodePostgresUint64 (uint n) = Inr n" "decodePostgresUint32 (uint k) = Inr k" "decodePostgresUint8 (uint t) = Inr t"
  using unsigned_less [of t, where 'a = int]
  by (simp_all add: decodePostgresUint64_def decodePostgresUint32_def decodePostgresUint8_def not_less)

lemma validateUint256_None:
  "validateUint256 name v required = None \<longleftrightarrow> (case v of None \<Rightarrow> \<not> required | Some i \<Rightarrow> 0 \<le> i \<and> i < 2 ^ 256)"
  by (auto simp: validateUint256_def split: option.splits)

lemma numeric_column_numeric [simp]: "numeric_column (postgresNumeric v) = v"
  by (cases v) (simp_all add: numeric_column_def postgresNumeric_def)

lemma decode_numeric:
  assumes d: "drivers_ok d" and v: "validateUint256 name v required = None"
  shows "decodePostgresNumeric name (scan_numeric d v) required = Inr v"
proof (cases v)
  case None
  with v show ?thesis
    by (simp add: validateUint256_None scan_numeric_def null_numeric_def decodePostgresNumeric_def)
next
  case (Some i)
  then have i: "0 \<le> i" "i < 2 ^ 256" using v by (simp_all add: validateUint256_None)
  let ?n = "dr_ScanNumeric d i"
  have n: "nm_Valid ?n" "\<not> nm_NaN ?n" "nm_Finite ?n" "0 \<le> nm_Exp ?n" "nm_Exp ?n \<le> 78"
    and "\<exists>k. nm_Int ?n = Some k \<and> k * 10 ^ nat (nm_Exp ?n) = i"
    using d i unfolding drivers_ok_def Let_def by blast+
  then obtain k where k: "nm_Int ?n = Some k" "k * 10 ^ nat (nm_Exp ?n) = i" by blast
  have scan: "scan_numeric d (Some i) = ?n" by (simp add: scan_numeric_def)
  show ?thesis
  proof (cases "nm_Exp ?n = 0")
    case True
    then have "k = i" using k by simp
    then show ?thesis using n k True i Some by (simp add: scan decodePostgresNumeric_def Let_def)
  next
    case False
    then have "0 < nm_Exp ?n" using n by simp
    then show ?thesis using n k i Some by (simp add: scan decodePostgresNumeric_def Let_def)
  qed
qed

section \<open>Rows\<close>

text \<open>What reading a stored value back changes: instants lose the part below a microsecond and their zone, empty payloads become nil.\<close>

definition stored_time :: "Time \<Rightarrow> Time" where
  "stored_time t = \<lparr>t_unixNano = t_unixNano t div 1000 * 1000, t_location = Local\<rparr>"

definition stored_block :: "Block \<Rightarrow> Block" where
  "stored_block b = b\<lparr>b_IndexedAt := stored_time (b_IndexedAt b)\<rparr>"

definition stored_transaction :: "Transaction \<Rightarrow> Transaction" where
  "stored_transaction t = t\<lparr>t_Input := append_nil (t_Input t)\<rparr>"

definition stored_event :: "Event \<Rightarrow> Event" where
  "stored_event e = e\<lparr>e_Data := append_nil (e_Data e)\<rparr>"

lemma block_row_Inr:
  "block_row b = Inr r \<longleftrightarrow> uint (b_Number b) \<le> MaxInt64 \<and> uint (b_Timestamp b) \<le> MaxInt64 \<and>
     uint (b_GasLimit b) \<le> MaxInt64 \<and> uint (b_GasUsed b) \<le> MaxInt64 \<and>
     0 \<le> b_TransactionCount b \<and> b_TransactionCount b \<le> MaxInt32 \<and>
     r = \<lparr>sb_number = uint (b_Number b), sb_hash = be_bytes 32 (b_Hash b), sb_parent_hash = be_bytes 32 (b_ParentHash b),
          sb_block_timestamp = uint (b_Timestamp b), sb_gas_limit = uint (b_GasLimit b), sb_gas_used = uint (b_GasUsed b),
          sb_base_fee = b_BaseFeePerGas b, sb_transaction_count = b_TransactionCount b,
          sb_indexed_at = t_unixNano (b_IndexedAt b) div 1000\<rparr>"
  by (auto simp: block_row_def timestamptz_def)

lemma block_roundtrip:
  assumes d: "drivers_ok d" and v: "validatePostgresBlock b = None" and count: "0 \<le> b_TransactionCount b"
  shows "\<exists>r. block_row b = Inr r \<and> decode_block d (scan_block d r) = Inr (stored_block b)"
proof -
  have b: "uint (b_Number b) \<le> MaxInt64" "uint (b_Timestamp b) \<le> MaxInt64" "uint (b_GasLimit b) \<le> MaxInt64"
    "uint (b_GasUsed b) \<le> MaxInt64" "b_TransactionCount b \<le> MaxInt32"
    and fee: "validateUint256 ''block base fee'' (b_BaseFeePerGas b) False = None"
    using v by (auto simp: validatePostgresBlock_def split: if_splits)
  have "decodePostgresNumeric ''block base fee'' (scan_numeric d (b_BaseFeePerGas b)) False = Inr (b_BaseFeePerGas b)"
    by (rule decode_numeric [OF d fee])
  then show ?thesis
    using b count by (simp add: block_row_Inr decode_block_def scan_block_def decodeHash_bytes [OF d] stored_block_def
        stored_time_def)
qed

lemma transaction_row_Inr:
  "transaction_row t = Inr r \<longleftrightarrow> uint (t_BlockNumber t) \<le> MaxInt64 \<and> uint (t_Index t) \<le> MaxInt32 \<and>
     uint (t_Nonce t) \<le> MaxInt64 \<and> uint (t_GasLimit t) \<le> MaxInt64 \<and>
     r = \<lparr>sx_hash = be_bytes 32 (t_Hash t), sx_block_number = uint (t_BlockNumber t), sx_transaction_index = uint (t_Index t),
          sx_transaction_type = uint (t_Type t), sx_nonce = uint (t_Nonce t), sx_sender = be_bytes 20 (t_Sender t),
          sx_recipient = postgresAddress (t_Recipient t), sx_value = t_Value t, sx_gas_limit = uint (t_GasLimit t),
          sx_gas_price = t_GasPrice t, sx_max_fee = t_MaxFeePerGas t, sx_max_priority_fee = t_MaxPriorityFeePerGas t,
          sx_input = t_Input t\<rparr>"
  by (auto simp: transaction_row_def)

lemma first_error_None [simp]: "first_error es = None \<longleftrightarrow> (\<forall>e \<in> set es. e = None)"
  by (induction es) (auto split: option.splits)

lemma transaction_roundtrip:
  assumes d: "drivers_ok d" and v: "validatePostgresTransaction t = None" and b: "sb_hash b = be_bytes 32 (t_BlockHash t)"
  shows "\<exists>r. transaction_row t = Inr r \<and> decode_transaction d (scan_transaction d r b) = Inr (stored_transaction t)"
proof -
  have t: "uint (t_BlockNumber t) \<le> MaxInt64" "uint (t_Nonce t) \<le> MaxInt64" "uint (t_GasLimit t) \<le> MaxInt64"
    "uint (t_Index t) \<le> MaxInt32"
    and n: "validateUint256 ''transaction value'' (t_Value t) True = None"
      "validateUint256 ''transaction gas price'' (t_GasPrice t) False = None"
      "validateUint256 ''transaction max fee'' (t_MaxFeePerGas t) False = None"
      "validateUint256 ''transaction max priority fee'' (t_MaxPriorityFeePerGas t) False = None"
    using v by (auto simp: validatePostgresTransaction_def simp del: first_error.simps split: if_splits)
  show ?thesis
    using t b
    by (simp add: transaction_row_Inr decode_transaction_def scan_transaction_def decodeHash_bytes [OF d] decodeAddress_bytes [OF d]
        decodeOptionalAddress_bytes [OF d] decode_numeric [OF d n(1)] decode_numeric [OF d n(2)] decode_numeric [OF d n(3)]
        decode_numeric [OF d n(4)] stored_transaction_def)
qed

lemma event_row_Inr:
  "event_row e = Inr r \<longleftrightarrow> uint (e_BlockNumber e) \<le> MaxInt64 \<and> uint (e_TransactionIndex e) \<le> MaxInt32 \<and>
     uint (e_LogIndex e) \<le> MaxInt32 \<and>
     r = \<lparr>sl_block_number = uint (e_BlockNumber e), sl_transaction_hash = be_bytes 32 (e_TransactionHash e),
          sl_transaction_index = uint (e_TransactionIndex e), sl_log_index = uint (e_LogIndex e),
          sl_emitter = be_bytes 20 (e_Address e), sl_topics = map (be_bytes 32) (e_Topics e), sl_data = e_Data e\<rparr>"
  by (auto simp: event_row_def)

lemma event_roundtrip:
  assumes d: "drivers_ok d" and v: "validatePostgresEvent e = None" and n: "uint (e_BlockNumber e) \<le> MaxInt64"
    and topics: "length (e_Topics e) \<le> 4" and b: "sb_hash b = be_bytes 32 (e_BlockHash e)"
  shows "\<exists>r. event_row e = Inr r \<and> decode_event d (scan_event r b) = Inr (stored_event e)"
  using v n b
  by (auto simp: validatePostgresEvent_def event_row_Inr decode_event_def scan_event_def decodeHash_bytes [OF d]
      decodeAddress_bytes [OF d] decodeTopics_bytes [OF d topics] stored_event_def split: if_splits)

section \<open>Batches\<close>

definition statement_of :: "queued \<Rightarrow> err + statement" where
  "statement_of q = (case q of Queue_block b \<Rightarrow> bind (block_row b) (\<lambda>r. Inr (Insert_block r))
     | Queue_transaction t \<Rightarrow> bind (transaction_row t) (\<lambda>r. Inr (Insert_transaction r))
     | Queue_event e \<Rightarrow> bind (event_row e) (\<lambda>r. Inr (Insert_event r)))"

lemma queue_one_eq: "queue_one batch q = bind (statement_of q) (\<lambda>s. Inr (batch @ [s]))"
  by (cases q) (auto simp: queue_one_def statement_of_def queueBlock_def queueTransaction_def queueEvent_def bind_def
      split: sum.splits)

lemma execute_all_append: "execute_all (xs @ ys) db = bind (execute_all xs db) (execute_all ys)"
  by (induction xs arbitrary: db) (auto simp: bind_def split: sum.splits)

lemma sendCanonicalBatch_Inr:
  "sendCanonicalBatch x batch (db, sent) = Inr (db', sent') \<longleftrightarrow>
     (if batch = [] then db' = db \<and> sent' = sent
      else pe_batch x (length sent) = None \<and> execute_all batch db = Inr db' \<and> sent' = sent @ [batch])"
  by (auto simp: sendCanonicalBatch_def fails_with_def split: option.splits)

lemma insert_queued_sound:
  "insert_queued x qs batch (db, sent) = Inr (db', sent') \<Longrightarrow> length batch < canonicalBatchQueryLimit \<Longrightarrow>
   \<exists>sts new. list_all2 (\<lambda>q s. statement_of q = Inr s) qs sts \<and> execute_all (batch @ sts) db = Inr db' \<and>
     sent' = sent @ new \<and> concat new = batch @ sts \<and>
     (\<forall>b \<in> set new. b \<noteq> [] \<and> length b \<le> canonicalBatchQueryLimit)"
proof (induction qs arbitrary: batch db sent)
  case Nil
  then show ?case
    by (cases "batch = []") (auto simp: sendCanonicalBatch_Inr)
next
  case (Cons q qs)
  then obtain s where s: "statement_of q = Inr s" by (auto simp: queue_one_eq)
  let ?b = "batch @ [s]"
  show ?case
  proof (cases "length ?b \<ge> canonicalBatchQueryLimit")
    case True
    then obtain db1 sent1 where send: "sendCanonicalBatch x ?b (db, sent) = Inr (db1, sent1)"
      and rest: "insert_queued x qs [] (db1, sent1) = Inr (db', sent')"
      using Cons.prems(1) s by (auto simp: queue_one_eq)
    have send': "execute_all ?b db = Inr db1" "sent1 = sent @ [?b]" using send by (auto simp: sendCanonicalBatch_Inr)
    obtain sts new where IH: "list_all2 (\<lambda>q s. statement_of q = Inr s) qs sts" "execute_all sts db1 = Inr db'"
      "sent' = sent1 @ new" "concat new = sts" "\<forall>b \<in> set new. b \<noteq> [] \<and> length b \<le> canonicalBatchQueryLimit"
      using Cons.IH [OF rest] by (auto simp: canonicalBatchQueryLimit_def)
    have "execute_all (batch @ s # sts) db = Inr db'"
      using send'(1) IH(2) execute_all_append [of ?b sts db] by simp
    moreover have "length ?b \<le> canonicalBatchQueryLimit" using Cons.prems(2) by simp
    ultimately show ?thesis
      using s IH send'(2) by (intro exI [of _ "s # sts"] exI [of _ "?b # new"]) auto
  next
    case False
    then have "insert_queued x qs ?b (db, sent) = Inr (db', sent')" using Cons.prems(1) s by (simp add: queue_one_eq)
    from Cons.IH [OF this] False obtain sts new where IH: "list_all2 (\<lambda>q s. statement_of q = Inr s) qs sts"
      "execute_all (?b @ sts) db = Inr db'" "sent' = sent @ new" "concat new = ?b @ sts"
      "\<forall>b \<in> set new. b \<noteq> [] \<and> length b \<le> canonicalBatchQueryLimit" by auto
    then show ?thesis using s by (intro exI [of _ "s # sts"] exI [of _ new]) auto
  qed
qed

lemma insert_queued_complete:
  assumes "\<forall>k. pe_batch x k = None"
  shows "list_all2 (\<lambda>q s. statement_of q = Inr s) qs sts \<Longrightarrow> execute_all (batch @ sts) db = Inr db' \<Longrightarrow>
    \<exists>sent'. insert_queued x qs batch (db, sent) = Inr (db', sent')"
proof (induction qs arbitrary: sts batch db sent)
  case Nil
  then show ?case using assms by (cases "batch = []") (auto simp: sendCanonicalBatch_def fails_with_def)
next
  case (Cons q qs)
  then obtain s sts' where s: "statement_of q = Inr s" "sts = s # sts'" "list_all2 (\<lambda>q s. statement_of q = Inr s) qs sts'"
    by (auto simp: list_all2_Cons1)
  let ?b = "batch @ [s]"
  have "bind (execute_all ?b db) (execute_all sts') = Inr db'"
    using Cons.prems(2) s(2) execute_all_append [of ?b sts' db] by simp
  then obtain db1 where db1: "execute_all ?b db = Inr db1" "execute_all sts' db1 = Inr db'" by auto
  show ?case
  proof (cases "length ?b \<ge> canonicalBatchQueryLimit")
    case True
    have "sendCanonicalBatch x ?b (db, sent) = Inr (db1, sent @ [?b])"
      using db1(1) assms by (simp add: sendCanonicalBatch_Inr)
    moreover obtain sent' where "insert_queued x qs [] (db1, sent @ [?b]) = Inr (db', sent')"
      using Cons.IH [OF s(3), of "[]" db1] db1(2) by auto
    ultimately show ?thesis using s(1) True by (simp add: queue_one_eq)
  next
    case False
    then show ?thesis using Cons.IH [OF s(3), of ?b db] Cons.prems(2) s by (simp add: queue_one_eq)
  qed
qed

end
