(* ===== verification/Postgres_Chain.thy ===== *)
theory Postgres_Chain
  imports Postgres_Props
begin

text \<open>
  The chain the PostgreSQL tables hold, and that the store keeps the contract of \<open>IndexStore\<close> on it:
  the interpretation of \<open>index_store\<close> that lets every result about the synchronizer apply to it.
\<close>

section \<open>Extending a chain\<close>

lemma consecutive_from_covers:
  "consecutive_from n bs \<Longrightarrow> bs \<noteq> [] \<Longrightarrow> n \<le> k \<Longrightarrow> k \<le> bb_Number (last bs) \<Longrightarrow> k \<in> bb_Number ` set bs"
proof (induction bs arbitrary: n)
  case (Cons b bs)
  show ?case
  proof (cases "k = n \<or> bs = []")
    case True
    then show ?thesis using Cons.prems by (auto intro: antisym)
  next
    case False
    then have lt: "n < k" using Cons.prems(3) by auto
    have "n + 1 \<le> k" by (rule inc_le [OF lt])
    then show ?thesis using Cons False by auto
  qed
qed simp

lemma updated_header_Some:
  assumes "consecutive_from (u_ReplaceFrom u) (u_Blocks u)"
  shows "updated header u C n = Some x \<longleftrightarrow>
    (u_RetainFrom u \<le> n \<and> n < u_ReplaceFrom u \<and> C n = Some x) \<or> (\<exists>b \<in> set (u_Blocks u). bb_Number b = n \<and> header b = x)"
proof
  assume "updated header u C n = Some x"
  from updated_Some [OF this] show "(u_RetainFrom u \<le> n \<and> n < u_ReplaceFrom u \<and> C n = Some x) \<or>
    (\<exists>b \<in> set (u_Blocks u). bb_Number b = n \<and> header b = x)" by blast
next
  assume "(u_RetainFrom u \<le> n \<and> n < u_ReplaceFrom u \<and> C n = Some x) \<or> (\<exists>b \<in> set (u_Blocks u). bb_Number b = n \<and> header b = x)"
  then show "updated header u C n = Some x"
  proof
    assume r: "u_RetainFrom u \<le> n \<and> n < u_ReplaceFrom u \<and> C n = Some x"
    then have "n \<notin> bb_Number ` set (u_Blocks u)" using consecutive_from_ge [OF assms] by force
    then have "map_of (map (\<lambda>b. (bb_Number b, header b)) (u_Blocks u)) n = None"
      by (simp add: map_of_eq_None_iff image_image)
    then show ?thesis using r by (simp add: updated_def map_add_def)
  next
    assume "\<exists>b \<in> set (u_Blocks u). bb_Number b = n \<and> header b = x"
    then show ?thesis using updated_block [OF assms] by blast
  qed
qed

lemma linked_updated:
  assumes C: "linked_chain C" and cons: "consecutive_from (u_ReplaceFrom u) (u_Blocks u)"
    and le: "u_RetainFrom u \<le> u_ReplaceFrom u"
    and new: "linked_chain (map_of (map (\<lambda>b. (bb_Number b, header b)) (u_Blocks u)))"
    and join: "\<And>b bs. u_Blocks u = b # bs \<Longrightarrow> u_ReplaceFrom u \<noteq> u_RetainFrom u \<Longrightarrow>
      \<exists>p. C (u_ReplaceFrom u - 1) = Some (bb_ParentHash b, p)"
  shows "linked_chain (updated header u C)"
proof -
  let ?lo = "u_RetainFrom u" and ?from = "u_ReplaceFrom u" and ?N = "map_of (map (\<lambda>b. (bb_Number b, header b)) (u_Blocks u))"
  let ?D = "dom (updated header u C)"
  have dist: "distinct (map fst (map (\<lambda>b. (bb_Number b, header b)) (u_Blocks u)))"
    using consecutive_from_distinct [OF cons] by (simp add: comp_def)
  have N: "?N n = Some x \<longleftrightarrow> (\<exists>b \<in> set (u_Blocks u). bb_Number b = n \<and> header b = x)" for n x
    using map_of_eq_Some_iff [OF dist] by auto
  have iff: "updated header u C n = Some x \<longleftrightarrow> (?lo \<le> n \<and> n < ?from \<and> C n = Some x) \<or> ?N n = Some x" for n x
    by (simp add: updated_header_Some [OF cons] N)
  have dom: "n \<in> ?D \<longleftrightarrow> (?lo \<le> n \<and> n < ?from \<and> n \<in> dom C) \<or> n \<in> dom ?N" for n
    by (auto simp: iff)
  have domN: "n \<in> dom ?N \<longleftrightarrow> n \<in> bb_Number ` set (u_Blocks u)" for n by (simp add: dom_map_of_conv_image_fst image_image)
  have ge: "?from \<le> n" if "n \<in> dom ?N" for n using that consecutive_from_ge [OF cons] by (auto simp: domN)
  have prev: "?lo \<le> ?from - 1 \<and> ?from - 1 < ?from \<and> ?from - 1 + 1 = ?from" if "?lo \<noteq> ?from"
  proof -
    have "?from \<noteq> 0" using that le by auto
    then have "unat (?from - 1) = unat ?from - 1" "0 < unat ?from"
      using unat_minus_one [of ?from] by (simp_all add: unat_gt_0)
    moreover have "unat ?lo < unat ?from" using that le by (simp add: word_less_nat_alt [symmetric])
    ultimately show ?thesis by (simp add: word_le_nat_alt word_less_nat_alt)
  qed
  have "x \<in> ?D" if ac: "a \<in> ?D" "c \<in> ?D" "a \<le> x" "x \<le> c" for a c x
  proof (cases "?from \<le> x")
    case True
    then have c: "c \<in> dom ?N" using ac(2,4) by (auto simp: dom)
    then obtain b where b: "b \<in> set (u_Blocks u)" "bb_Number b = c" by (auto simp: domN)
    then have "u_Blocks u \<noteq> []" "c \<le> bb_Number (last (u_Blocks u))" using consecutive_from_last [OF cons b(1)] by auto
    then have "x \<in> dom ?N" using consecutive_from_covers [OF cons _ True] ac(4) by (simp add: domN)
    then show ?thesis by (simp add: dom)
  next
    case False
    then have x: "x < ?from" by simp
    then have "a \<notin> dom ?N" using ge ac(3) by (meson leD order.strict_trans1)
    then have a: "?lo \<le> a" "a < ?from" "a \<in> dom C" using ac(1) unfolding dom by blast+
    have "\<exists>c' \<in> dom C. x \<le> c'"
    proof (cases "c \<in> dom ?N")
      case True
      then obtain b bs where bs: "u_Blocks u = b # bs" by (cases "u_Blocks u") (auto simp: domN)
      have ne: "?from \<noteq> ?lo" using a(1,2) by auto
      then have "?from - 1 \<in> dom C" using join [OF bs] by auto
      moreover have "x \<le> ?from - 1" using prev ne x by (metis inc_le leD leI)
      ultimately show ?thesis by blast
    next
      case False
      then show ?thesis using ac(2,4) by (auto simp: dom)
    qed
    then have "x \<in> dom C" using C a(3) ac(3) unfolding linked_chain_def by blast
    moreover have "?lo \<le> x" using a(1) ac(3) by (rule order_trans)
    ultimately show ?thesis using x by (simp add: dom)
  qed
  moreover have "p' = h" if n: "n \<noteq> MaxUint64" "updated header u C n = Some (h, p)" "updated header u C (n + 1) = Some (h', p')" for n h p h' p'
  proof (cases "?N (n + 1)")
    case None
    then have 2: "?lo \<le> n + 1" "n + 1 < ?from" "C (n + 1) = Some (h', p')" using n(3) by (auto simp: iff)
    then have "n < ?from" using less_Suc_u64 [OF n(1)] by (meson order.strict_trans)
    then have "C n = Some (h, p)" using n(2) ge by (force simp: iff)
    then show ?thesis using C n(1) 2(3) unfolding linked_chain_def by blast
  next
    case (Some y)
    then have y: "?N (n + 1) = Some (h', p')" using n(3) ge [of "n + 1"] by (force simp: iff)
    show ?thesis
    proof (cases "?N n")
      case None
      then have 1: "?lo \<le> n" "n < ?from" "C n = Some (h, p)" using n(2) by (auto simp: iff)
      have "?from \<le> n + 1" using y ge by blast
      then have from_eq: "?from = n + 1" using inc_le [OF 1(2)] by (simp add: antisym)
      obtain b bs where bs: "u_Blocks u = b # bs" using y by (cases "u_Blocks u") auto
      have "bb_Number b = n + 1" using cons bs from_eq by simp
      then have "header b = (h', p')" using y bs by simp
      moreover have "?from \<noteq> ?lo" using 1(1,2) by auto
      ultimately show ?thesis using join [OF bs] 1(3) by (auto simp: from_eq header_def)
    next
      case (Some z)
      then have "?N n = Some (h, p)" using n(2) ge [of n] by (force simp: iff)
      then show ?thesis using new n(1) y unfolding linked_chain_def by blast
    qed
  qed
  ultimately show ?thesis unfolding linked_chain_def by blast
qed

section \<open>The chain of the tables\<close>

definition row_header :: "sql_block \<Rightarrow> hash \<times> hash" where
  "row_header r = (be_word (sb_hash r), be_word (sb_parent_hash r))"

definition rows_chain :: "sql_block list \<Rightarrow> chain" where
  "rows_chain rs n = map_option row_header (find (\<lambda>r. sb_number r = uint n) rs)"

definition pg_chain :: "Tables \<Rightarrow> chain" where
  "pg_chain db = rows_chain (d_blocks db)"

definition pg_inv :: "Drivers \<Rightarrow> Tables \<Rightarrow> bool" where
  "pg_inv d db \<longleftrightarrow> drivers_ok d \<and> (\<forall>r \<in> set (d_blocks db). check_block r \<and> sb_number r \<le> MaxInt64) \<and>
     distinct (map sb_number (d_blocks db)) \<and> linked_chain (pg_chain db)"

lemma find_number:
  assumes "distinct (map sb_number rs)" and "r \<in> set rs" and "sb_number r = k"
  shows "find (\<lambda>r. sb_number r = k) rs = Some r"
  using assms by (induction rs) (auto simp: image_iff)

lemma rows_chain_Some:
  assumes "distinct (map sb_number rs)"
  shows "rows_chain rs n = Some x \<longleftrightarrow> (\<exists>r \<in> set rs. sb_number r = uint n \<and> row_header r = x)"
  using find_number [OF assms]
  by (auto simp: rows_chain_def find_Some_iff) (metis (mono_tags, lifting) find_number [OF assms])+

lemma rows_chain_append:
  "rows_chain (xs @ ys) n = (case rows_chain xs n of None \<Rightarrow> rows_chain ys n | Some x \<Rightarrow> Some x)"
  by (induction xs) (auto simp: rows_chain_def)

lemma rows_chain_filter:
  "rows_chain (filter (\<lambda>r. P (sb_number r)) rs) n = (if P (uint n) then rows_chain rs n else None)"
  by (induction rs) (auto simp: rows_chain_def)

lemma rows_chain_blocks:
  "list_all2 (\<lambda>b r. block_row (bb_Block b) = Inr r) bs rs \<Longrightarrow>
   rows_chain rs n = map_of (map (\<lambda>b. (bb_Number b, header b)) bs) n"
proof (induction rule: list_all2_induct)
  case (Cons b bs r rs)
  then have "sb_number r = uint (bb_Number b)" "row_header r = header b"
    by (auto simp: block_row_Inr row_header_def header_def be_word_bytes)
  with Cons show ?case by (auto simp: rows_chain_def word_uint_eq_iff)
qed (simp add: rows_chain_def)

section \<open>What an update leaves\<close>

definition block_rows :: "statement list \<Rightarrow> sql_block list" where
  "block_rows sts = List.map_filter (\<lambda>s. case s of Insert_block r \<Rightarrow> Some r | _ \<Rightarrow> None) sts"

lemma block_rows_simps [simp]:
  "block_rows [] = []" "block_rows (Insert_block r # sts) = r # block_rows sts"
  "block_rows (Insert_transaction t # sts) = block_rows sts" "block_rows (Insert_event e # sts) = block_rows sts"
  "block_rows (xs @ ys) = block_rows xs @ block_rows ys"
  by (simp_all add: block_rows_def List.map_filter_def)

lemma execute_all_blocks:
  "execute_all sts db = Inr db' \<Longrightarrow> distinct (map sb_number (d_blocks db)) \<Longrightarrow>
   d_blocks db' = d_blocks db @ block_rows sts \<and> (\<forall>r \<in> set (block_rows sts). check_block r) \<and>
   distinct (map sb_number (d_blocks db'))"
proof (induction sts arbitrary: db)
  case (Cons s sts)
  then obtain db1 where db1: "execute s db = Inr db1" "execute_all sts db1 = Inr db'" by auto
  show ?case
  proof (cases s)
    case (Insert_block r)
    then have "check_block r" "sb_number r \<notin> sb_number ` set (d_blocks db)" "d_blocks db1 = d_blocks db @ [r]"
      using db1(1) by (auto simp: execute_def insert_block_def split: if_splits)
    moreover from this have "distinct (map sb_number (d_blocks db1))" using Cons.prems(2) by simp
    from Cons.IH [OF db1(2) this] have "d_blocks db' = d_blocks db1 @ block_rows sts"
      "\<forall>r \<in> set (block_rows sts). check_block r" "distinct (map sb_number (d_blocks db'))" by blast+
    ultimately show ?thesis using Insert_block by simp
  next
    case (Insert_transaction t)
    then have "d_blocks db1 = d_blocks db"
      using db1(1) by (auto simp: execute_def insert_transaction_def split: if_splits)
    moreover from this have "distinct (map sb_number (d_blocks db1))" using Cons.prems(2) by simp
    from Cons.IH [OF db1(2) this] have "d_blocks db' = d_blocks db1 @ block_rows sts"
      "\<forall>r \<in> set (block_rows sts). check_block r" "distinct (map sb_number (d_blocks db'))" by blast+
    ultimately show ?thesis using Insert_transaction by simp
  next
    case (Insert_event e)
    then have "d_blocks db1 = d_blocks db"
      using db1(1) by (auto simp: execute_def insert_event_def split: if_splits)
    moreover from this have "distinct (map sb_number (d_blocks db1))" using Cons.prems(2) by simp
    from Cons.IH [OF db1(2) this] have "d_blocks db' = d_blocks db1 @ block_rows sts"
      "\<forall>r \<in> set (block_rows sts). check_block r" "distinct (map sb_number (d_blocks db'))" by blast+
    ultimately show ?thesis using Insert_event by simp
  qed
qed simp

lemma statements_no_blocks:
  "list_all2 (\<lambda>q s. statement_of q = Inr s) (map Queue_transaction ts @ map Queue_event es) sts \<Longrightarrow> block_rows sts = []"
proof (induction ts arbitrary: sts)
  case Nil
  then show ?case
  proof (induction es arbitrary: sts)
    case (Cons e es)
    then show ?case by (auto simp: list_all2_Cons1 statement_of_def)
  qed simp
next
  case (Cons t ts)
  then show ?case by (auto simp: list_all2_Cons1 statement_of_def)
qed

lemma statements_blocks:
  "list_all2 (\<lambda>q s. statement_of q = Inr s) (concat (map bundle_queue bs)) sts \<Longrightarrow>
   list_all2 (\<lambda>b r. block_row (bb_Block b) = Inr r) bs (block_rows sts)"
proof (induction bs arbitrary: sts)
  case (Cons b bs)
  let ?Q = "\<lambda>q s. statement_of q = Inr s" and ?mid = "map Queue_transaction (bb_Transactions b) @ map Queue_event (bb_Events b)"
  have "list_all2 ?Q (Queue_block (bb_Block b) # (?mid @ concat (map bundle_queue bs))) sts"
    using Cons.prems by (simp add: bundle_queue_def [of b])
  then obtain s tail where s: "sts = s # tail" "statement_of (Queue_block (bb_Block b)) = Inr s"
    and tail: "list_all2 ?Q (?mid @ concat (map bundle_queue bs)) tail"
    unfolding list_all2_Cons1 by blast
  then obtain mid rest where rest: "tail = mid @ rest" "list_all2 ?Q ?mid mid" "list_all2 ?Q (concat (map bundle_queue bs)) rest"
    using tail unfolding list_all2_append1 by blast
  obtain r where "block_row (bb_Block b) = Inr r" "s = Insert_block r" using s(2) by (auto simp: statement_of_def)
  then show ?case using Cons.IH [OF rest(3)] statements_no_blocks [OF rest(2)] s(1) rest(1) by simp
qed simp

lemma insertCanonicalBundles_blocks:
  assumes "insertCanonicalBundles x bs db = Inr (db', sent)" and "distinct (map sb_number (d_blocks db))"
  shows "\<exists>rs. d_blocks db' = d_blocks db @ rs \<and> list_all2 (\<lambda>b r. block_row (bb_Block b) = Inr r) bs rs \<and>
    (\<forall>r \<in> set rs. check_block r \<and> sb_number r \<le> MaxInt64) \<and> distinct (map sb_number (d_blocks db'))"
proof (cases "bs = []")
  case False
  then obtain sts where sts: "list_all2 (\<lambda>q s. statement_of q = Inr s) (concat (map bundle_queue bs)) sts"
    "execute_all sts db = Inr db'"
    using assms(1) insert_queued_sound [of x "concat (map bundle_queue bs)" "[]" db "[]" db' sent]
    by (auto simp: insertCanonicalBundles_def canonicalBatchQueryLimit_def)
  note rows = statements_blocks [OF sts(1)] and run = execute_all_blocks [OF sts(2) assms(2)]
  have "sb_number r \<le> MaxInt64" if "r \<in> set (block_rows sts)" for r
    using rows that by (auto simp: list_all2_conv_all_nth in_set_conv_nth block_row_Inr)
  then show ?thesis using rows run by blast
qed (use assms in \<open>simp add: insertCanonicalBundles_def\<close>)

lemma map_of_values: "map_of (map (\<lambda>b. (k b, f b)) xs) = map_option f \<circ> map_of (map (\<lambda>b. (k b, b)) xs)"
  by (induction xs) (auto simp: fun_eq_iff)

lemma validatePostgresUpdate_None:
  assumes "validatePostgresUpdate u = None"
  shows "u_RetainFrom u \<le> u_ReplaceFrom u" and "uint (u_ReplaceFrom u) \<le> MaxInt64"
    and "consecutive_from (u_ReplaceFrom u) (u_Blocks u)"
    and "canonical_bundles (map_of (map (\<lambda>b. (bb_Number b, b)) (u_Blocks u)))"
    and "b \<in> set (u_Blocks u) \<Longrightarrow> validatePostgresBundle b = None"
proof -
  let ?al = "fold (\<lambda>b. AList.update (bb_Number b) b) (u_Blocks u) []"
  have v: "u_RetainFrom u \<le> u_ReplaceFrom u" "uint (u_ReplaceFrom u) \<le> MaxInt64" "validateReplacement u = None"
    "validateCanonicalBundles ?al = None" "\<forall>b \<in> set (u_Blocks u). validatePostgresBundle b = None"
    using assms by (auto simp: validatePostgresUpdate_def simp del: first_error.simps split: if_splits)
  show "u_RetainFrom u \<le> u_ReplaceFrom u" "uint (u_ReplaceFrom u) \<le> MaxInt64" by (fact v)+
  show cons: "consecutive_from (u_ReplaceFrom u) (u_Blocks u)" using v(3) by (simp add: validateReplacement_iff)
  show "validatePostgresBundle b = None" if "b \<in> set (u_Blocks u)" using v(5) that by blast
  have "distinct (map fst ?al)" by (rule distinct_fold_update) simp
  then have "canonical_bundles (map_of ?al)" using v(4) validateCanonicalBundles_iff by blast
  then show "canonical_bundles (map_of (map (\<lambda>b. (bb_Number b, b)) (u_Blocks u)))"
    using map_of_fold_update [OF consecutive_from_distinct [OF cons], of "\<lambda>b. b" "[]"] by simp
qed

lemma fails_with_Inr [simp]: "fails_with f msg = Inr r \<longleftrightarrow> f = None"
  by (auto simp: fails_with_def split: option.splits)

text \<open>What the steps of a transaction that reaches its commit did.\<close>

lemma update_transaction_cases:
  assumes "update_transaction d x u db = Inr (db3, sent)"
  obtains db1 db2 tip where "rejectDifferentChain x (u_ChainID u) db = Inr ()"
    "db1 = deleteCanonicalRangeQuery (uint (u_ReplaceFrom u)) (uint (u_RetainFrom u)) db"
    "validateRetainedParent d x u db1 = Inr ()"
    "insertCanonicalBundles x (u_Blocks u) db1 = Inr (db2, sent)"
    "canonicalTipInTransaction d x db2 = Inr tip" "writeSyncState x u tip db2 = Inr db3"
  using assms by (auto simp: update_transaction_def Let_def)

lemma writeSyncState_blocks:
  "writeSyncState x u tip db = Inr db' \<Longrightarrow>
     d_blocks db' = d_blocks db \<and> d_transactions db' = d_transactions db \<and> d_events db' = d_events db"
  by (auto simp: writeSyncState_def upsertSyncStateQuery_def split: if_splits)

lemma deleted_chain:
  "rows_chain (d_blocks (deleteCanonicalRangeQuery (uint from) (uint lo) db)) n =
     (if lo \<le> n \<and> n < from then pg_chain db n else None)"
  using rows_chain_filter [of "\<lambda>k. \<not> (k \<ge> uint from \<or> k < uint lo)" "d_blocks db" n]
  by (simp add: deleteCanonicalRangeQuery_def delete_blocks_def Let_def pg_chain_def word_le_def word_less_def not_le not_less
      conj_commute)

lemma retained_parent:
  assumes "validateRetainedParent d x u db1 = Inr ()" and "u_Blocks u = b # bs" and "u_ReplaceFrom u \<noteq> u_RetainFrom u"
    and "drivers_ok d"
  shows "\<exists>p. rows_chain (d_blocks db1) (u_ReplaceFrom u - 1) = Some (bb_ParentHash b, p)"
  using assms
  by (auto simp: validateRetainedParent_def canonicalHashQuery_def rows_chain_def row_header_def decodeHash_def drivers_ok_def
      split: option.splits if_splits)

lemma pg_update:
  assumes inv: "pg_inv d db" and valid: "validatePostgresUpdate u = None"
    and run: "update_transaction d x u db = Inr (db3, sent)"
  shows "pg_chain db3 = updated header u (pg_chain db)" and "pg_inv d db3"
proof -
  obtain db1 db2 tip where db1: "db1 = deleteCanonicalRangeQuery (uint (u_ReplaceFrom u)) (uint (u_RetainFrom u)) db"
    and parent: "validateRetainedParent d x u db1 = Inr ()"
    and ins: "insertCanonicalBundles x (u_Blocks u) db1 = Inr (db2, sent)" and sync: "writeSyncState x u tip db2 = Inr db3"
    by (rule update_transaction_cases [OF run])
  note v = validatePostgresUpdate_None [OF valid]
  have d: "drivers_ok d" and ok: "\<forall>r \<in> set (d_blocks db). check_block r \<and> sb_number r \<le> MaxInt64"
    and dist: "distinct (map sb_number (d_blocks db))" and C: "linked_chain (pg_chain db)"
    using inv by (simp_all add: pg_inv_def)
  have dist1: "distinct (map sb_number (d_blocks db1))"
    and ok1: "\<forall>r \<in> set (d_blocks db1). check_block r \<and> sb_number r \<le> MaxInt64"
    using dist ok by (auto simp: db1 deleteCanonicalRangeQuery_def delete_blocks_def Let_def intro: distinct_map_filter)
  obtain rs where rs: "d_blocks db2 = d_blocks db1 @ rs" "list_all2 (\<lambda>b r. block_row (bb_Block b) = Inr r) (u_Blocks u) rs"
    "\<forall>r \<in> set rs. check_block r \<and> sb_number r \<le> MaxInt64" "distinct (map sb_number (d_blocks db2))"
    using insertCanonicalBundles_blocks [OF ins dist1] by blast
  have db3: "d_blocks db3 = d_blocks db2" using writeSyncState_blocks [OF sync] by simp
  let ?N = "map_of (map (\<lambda>b. (bb_Number b, header b)) (u_Blocks u))"
  have N: "?N = map_option header \<circ> map_of (map (\<lambda>b. (bb_Number b, b)) (u_Blocks u))"
    by (rule map_of_values)
  have ge: "u_ReplaceFrom u \<le> n" if "?N n \<noteq> None" for n
    using that consecutive_from_ge [OF v(3)] by (auto simp: map_of_eq_None_iff)
  have "pg_chain db3 n = updated header u (pg_chain db) n" for n
  proof (cases "?N n")
    case None
    then show ?thesis
      using rows_chain_append [of "d_blocks db1" rs n] rows_chain_blocks [OF rs(2), of n] deleted_chain
      by (simp add: pg_chain_def [of db3] db3 rs(1) db1 updated_def map_add_def split: option.splits)
  next
    case (Some y)
    then have "\<not> n < u_ReplaceFrom u" using ge [of n] by (simp add: not_less)
    then have "rows_chain (d_blocks db1) n = None" by (simp add: db1 deleted_chain)
    then show ?thesis
      using rows_chain_append [of "d_blocks db1" rs n] rows_chain_blocks [OF rs(2), of n] Some
      by (simp add: pg_chain_def [of db3] db3 rs(1) updated_def map_add_def)
  qed
  then show chain: "pg_chain db3 = updated header u (pg_chain db)" by (rule ext)
  have "linked_chain ?N" using v(4) unfolding canonical_bundles_def N by blast
  moreover have "\<exists>p. pg_chain db (u_ReplaceFrom u - 1) = Some (bb_ParentHash b, p)"
    if "u_Blocks u = b # bs" "u_ReplaceFrom u \<noteq> u_RetainFrom u" for b bs
    using retained_parent [OF parent that d] by (auto simp: db1 deleted_chain split: if_splits)
  ultimately have "linked_chain (updated header u (pg_chain db))" by (intro linked_updated [OF C v(3,1)]) blast+
  then show "pg_inv d db3" using d rs(1,3,4) ok1 by (auto simp: pg_inv_def chain db3)
qed

section \<open>The contract\<close>

lemma canonicalTipQuery_None: "canonicalTipQuery db = None \<longleftrightarrow> d_blocks db = []"
proof (cases "d_blocks db = []")
  case False
  then have "sort_Slice higher (d_blocks db) \<noteq> []" by simp
  then show ?thesis using False by (auto simp: canonicalTipQuery_def split: list.splits)
qed (simp add: canonicalTipQuery_def)

interpretation by_height: slice_order higher sb_number
  by unfold_locales (auto simp: higher_def)

lemma canonicalTipQuery_Some:
  assumes "canonicalTipQuery db = Some r" and "distinct (map sb_number (d_blocks db))"
  shows "r \<in> set (d_blocks db)" and "q \<in> set (d_blocks db) \<Longrightarrow> sb_number q \<le> sb_number r"
proof -
  obtain rs where rs: "sort_Slice higher (d_blocks db) = r # rs"
    using assms(1) by (auto simp: canonicalTipQuery_def split: list.splits)
  then have set: "set (d_blocks db) = set (r # rs)" by (metis set_sort_Slice)
  then show "r \<in> set (d_blocks db)" by simp
  have "sorted_wrt higher (r # rs)" using by_height.sorted_sort [OF assms(2)] rs by simp
  then show "sb_number q \<le> sb_number r" if "q \<in> set (d_blocks db)" using that set by (auto simp: higher_def)
qed

lemma row_word:
  assumes "check_block r" and "sb_number r \<le> MaxInt64"
  shows "uint (word_of_int (sb_number r) :: u64) = sb_number r"
  using assms by (simp add: check_block_def uint_word_of_int MaxInt64_def)

lemma failure_not_found [simp]: "\<not> errors_Is (failure_err f) ErrNotFound"
  by (cases f) (auto simp: failure_err_def ctx_err_def split: ctx_error.splits)

lemma pg_tip:
  assumes inv: "pg_inv d db" and t: "Postgres_CanonicalTip d x db = Inr (Some tip)"
  shows "\<exists>p. pg_chain db (tip_Number tip) = Some (tip_Hash tip, p)" and "\<forall>n \<in> dom (pg_chain db). n \<le> tip_Number tip"
proof -
  obtain r where r: "canonicalTipQuery db = Some r" and h: "decodeHash d (sb_hash r) = Inr (tip_Hash tip)"
    and n: "decodePostgresUint64 (sb_number r) = Inr (tip_Number tip)"
    using t by (auto simp: Postgres_CanonicalTip_def split: option.splits)
  have dist: "distinct (map sb_number (d_blocks db))" using inv by (simp add: pg_inv_def)
  note q = canonicalTipQuery_Some [OF r dist]
  have ok: "check_block r" "sb_number r \<le> MaxInt64" "distinct (map sb_number (d_blocks db))" "drivers_ok d"
    using inv q(1) dist by (auto simp: pg_inv_def)
  have num: "uint (tip_Number tip) = sb_number r"
    using n row_word [OF ok(1,2)] by (auto simp: decodePostgresUint64_def split: if_splits)
  have "tip_Hash tip = be_word (sb_hash r)" using h ok(4) by (auto simp: decodeHash_def drivers_ok_def split: if_splits)
  then show "\<exists>p. pg_chain db (tip_Number tip) = Some (tip_Hash tip, p)"
    using q(1) num unfolding pg_chain_def rows_chain_Some [OF ok(3)] by (auto simp: row_header_def)
  show "\<forall>n \<in> dom (pg_chain db). n \<le> tip_Number tip"
    using q(2) num rows_chain_Some [OF ok(3)] by (fastforce simp: pg_chain_def word_le_def)
qed

lemma pg_hash:
  assumes inv: "pg_inv d db"
  shows "Postgres_CanonicalHash d x n db = Inr h \<Longrightarrow> \<exists>p. pg_chain db n = Some (h, p)"
    and "Postgres_CanonicalHash d x n db = Inl e \<Longrightarrow> errors_Is e ErrNotFound \<Longrightarrow> pg_chain db n = None"
proof -
  have d: "drivers_ok d" using inv by (simp add: pg_inv_def)
  show "\<exists>p. pg_chain db n = Some (h, p)" if "Postgres_CanonicalHash d x n db = Inr h"
    using that d by (auto simp: Postgres_CanonicalHash_def canonicalHashQuery_def pg_chain_def rows_chain_def row_header_def
        decodeHash_def drivers_ok_def split: option.splits if_splits)
  show "pg_chain db n = None" if e: "Postgres_CanonicalHash d x n db = Inl e" "errors_Is e ErrNotFound"
  proof (cases "uint n \<le> MaxInt64")
    case False
    then have "find (\<lambda>r. sb_number r = uint n) (d_blocks db) = None"
      using inv by (auto simp: find_None_iff pg_inv_def)
    then show ?thesis by (simp add: pg_chain_def rows_chain_def)
  next
    case True
    then have int: "postgresInt64 n = Inr (uint n)" by simp
    show ?thesis
    proof (cases "find (\<lambda>r. sb_number r = uint n) (d_blocks db)")
      case (Some r)
      then have "r \<in> set (d_blocks db)" by (auto simp: find_Some_iff)
      then have "length (sb_hash r) = 32" using inv by (auto simp: pg_inv_def check_block_def)
      then show ?thesis
        using e Some True int by (auto simp: Postgres_CanonicalHash_def canonicalHashQuery_def decodeHash_def fails_with_def
            split: option.splits)
    qed (simp add: pg_chain_def rows_chain_def)
  qed
qed

lemma pg_apply_cases:
  assumes inv: "pg_inv d db" and run: "Postgres_ApplyCanonicalUpdate d x u db = (r, db')"
  obtains (kept) e where "r = Some e" "db' = db"
  | (committed) "validatePostgresUpdate u = None" "pg_chain db' = updated header u (pg_chain db)" "pg_inv d db'"
proof (cases "validatePostgresUpdate u")
  case valid: None
  show ?thesis
  proof (cases "update_transaction d x u db")
    case (Inr y)
    obtain db1 sent where y: "y = (db1, sent)" by (rule prod.exhaust)
    note new = pg_update [OF inv valid Inr [unfolded y]]
    have "db' = db1 \<or> db' = db \<and> r \<noteq> None"
      using run valid Inr y by (auto simp: Postgres_ApplyCanonicalUpdate_def split: option.splits if_splits)
    then show ?thesis using valid new kept committed by blast
  qed (use run valid kept in \<open>auto simp: Postgres_ApplyCanonicalUpdate_def\<close>)
next
  case (Some e)
  then show ?thesis using run kept [of e] by (simp add: Postgres_ApplyCanonicalUpdate_def)
qed

interpretation pg: index_store "PostgresIndexStore d" pg_chain "pg_inv d" for d
proof unfold_locales
  fix s :: Tables and x tip n h e u r s'
  assume inv: "pg_inv d s"
  show "linked_chain (pg_chain s)" using inv by (simp add: pg_inv_def)
  have "dom (pg_chain s) \<subseteq> (\<lambda>r. word_of_int (sb_number r)) ` set (d_blocks s)"
  proof
    fix n assume "n \<in> dom (pg_chain s)"
    then obtain q where "find (\<lambda>q. sb_number q = uint n) (d_blocks s) = Some q" by (auto simp: pg_chain_def rows_chain_def)
    then have "q \<in> set (d_blocks s)" "word_of_int (sb_number q) = n" by (auto simp: find_Some_iff)
    then show "n \<in> (\<lambda>r. word_of_int (sb_number r)) ` set (d_blocks s)" by blast
  qed
  then show "finite (dom (pg_chain s))" by (rule finite_subset) simp
  show "pg_chain s = Map.empty" if "is_CanonicalTip (PostgresIndexStore d) x s = Inr None"
    using that canonicalTipQuery_None [of s]
    by (auto simp: PostgresIndexStore_def Postgres_CanonicalTip_def pg_chain_def rows_chain_def fun_eq_iff split: option.splits)
  show "(\<exists>p. pg_chain s (tip_Number tip) = Some (tip_Hash tip, p)) \<and> (\<forall>n \<in> dom (pg_chain s). n \<le> tip_Number tip)"
    if "is_CanonicalTip (PostgresIndexStore d) x s = Inr (Some tip)"
    using pg_tip [OF inv] that by (simp add: PostgresIndexStore_def)
  show "\<exists>p. pg_chain s n = Some (h, p)" if "is_CanonicalHash (PostgresIndexStore d) x n s = Inr h"
    using pg_hash(1) [OF inv] that by (simp add: PostgresIndexStore_def)
  show "pg_chain s n = None" if "is_CanonicalHash (PostgresIndexStore d) x n s = Inl e" "errors_Is e ErrNotFound"
    using pg_hash(2) [OF inv] that by (simp add: PostgresIndexStore_def)
  show "pg_inv d s'" if "is_ApplyCanonicalUpdate (PostgresIndexStore d) x u s = (r, s')"
    using that inv by (auto simp: PostgresIndexStore_def elim: pg_apply_cases [OF inv])
  show "u_RetainFrom u \<le> u_ReplaceFrom u \<and> consecutive_from (u_ReplaceFrom u) (u_Blocks u) \<and>
      pg_chain s' = updated header u (pg_chain s)"
    if "is_ApplyCanonicalUpdate (PostgresIndexStore d) x u s = (None, s')"
    using that validatePostgresUpdate_None(1,3) by (auto simp: PostgresIndexStore_def elim: pg_apply_cases [OF inv])
  show "pg_chain s' = pg_chain s \<or>
      u_RetainFrom u \<le> u_ReplaceFrom u \<and> consecutive_from (u_ReplaceFrom u) (u_Blocks u) \<and>
      pg_chain s' = updated header u (pg_chain s)"
    if "is_ApplyCanonicalUpdate (PostgresIndexStore d) x u s = (Some e, s')"
    using that validatePostgresUpdate_None(1,3) by (auto simp: PostgresIndexStore_def elim: pg_apply_cases [OF inv])
qed

end
