(* ===== verification/Postgres_Refines.thy ===== *)
theory Postgres_Refines
  imports Postgres_Chain
begin

text \<open>
  PostgreSQL against the in-memory store. The tables represent a list of block bundles; they agree with a
  \<open>Memory\<close> that holds the same bundles. A committed update takes agreeing stores to agreeing stores, and
  agreeing stores answer every query alike.
\<close>

section \<open>Rows of bundles\<close>

abbreviation block_rel :: "BlockBundle \<Rightarrow> sql_block \<Rightarrow> bool" where
  "block_rel b r \<equiv> block_row (bb_Block b) = Inr r"

abbreviation transaction_rel :: "Transaction \<Rightarrow> sql_transaction \<Rightarrow> bool" where
  "transaction_rel t r \<equiv> transaction_row t = Inr r"

abbreviation event_rel :: "Event \<Rightarrow> sql_event \<Rightarrow> bool" where
  "event_rel e r \<equiv> event_row e = Inr r"

abbreviation all_transactions :: "BlockBundle list \<Rightarrow> Transaction list" where
  "all_transactions bs \<equiv> concat (map bb_Transactions bs)"

abbreviation all_events :: "BlockBundle list \<Rightarrow> Event list" where
  "all_events bs \<equiv> concat (map bb_Events bs)"

definition represents :: "BlockBundle list \<Rightarrow> Tables \<Rightarrow> bool" where
  "represents bs db \<longleftrightarrow> list_all2 block_rel bs (d_blocks db) \<and>
     list_all2 transaction_rel (all_transactions bs) (d_transactions db) \<and>
     list_all2 event_rel (all_events bs) (d_events db)"

lemma list_all2_members:
  assumes "list_all2 R xs ys"
  shows "x \<in> set xs \<Longrightarrow> \<exists>y \<in> set ys. R x y" and "y \<in> set ys \<Longrightarrow> \<exists>x \<in> set xs. R x y"
  using assms by (induction rule: list_all2_induct) auto

lemma list_all2_filter:
  "list_all2 R xs ys \<Longrightarrow> (\<And>x y. R x y \<Longrightarrow> P x = Q y) \<Longrightarrow> list_all2 R (filter P xs) (filter Q ys)"
  by (induction rule: list_all2_induct) auto

lemma list_all2_insert_by:
  "list_all2 R xs ys \<Longrightarrow> R x y \<Longrightarrow> (\<And>a b c d. R a b \<Longrightarrow> R c d \<Longrightarrow> lt a c = lt' b d) \<Longrightarrow>
     list_all2 R (insert_by lt x xs) (insert_by lt' y ys)"
  by (induction rule: list_all2_induct) auto

lemma list_all2_sort:
  assumes "list_all2 R xs ys" and "\<And>a b c d. R a b \<Longrightarrow> R c d \<Longrightarrow> lt a c = lt' b d"
  shows "list_all2 R (sort_Slice lt xs) (sort_Slice lt' ys)"
  using assms(1)
proof (induction rule: list_all2_induct)
  case (Cons x xs y ys)
  from list_all2_insert_by [OF Cons.IH Cons.hyps(1) assms(2)] show ?case by simp
qed simp

lemma filter_concat_by:
  assumes "\<And>b x. b \<in> set bs \<Longrightarrow> x \<in> set (f b) \<Longrightarrow> P x = Q b"
  shows "filter P (concat (map f bs)) = concat (map f (filter Q bs))"
  using assms
proof (induction bs)
  case (Cons b bs)
  have "filter P (f b) = (if Q b then f b else [])"
    using Cons.prems [of b] by (auto simp: filter_id_conv filter_empty_conv)
  then show ?case using Cons by auto
qed simp

lemma wf_member:
  assumes "wf_bundle b"
  shows "t \<in> set (bb_Transactions b) \<Longrightarrow> t_BlockNumber t = bb_Number b \<and> t_BlockHash t = bb_Hash b"
    and "e \<in> set (bb_Events b) \<Longrightarrow> e_BlockNumber e = bb_Number b \<and> e_BlockHash e = bb_Hash b \<and> length (e_Topics e) \<le> 4 \<and>
      e_TransactionHash e \<in> t_Hash ` set (bb_Transactions b)"
proof -
  show "t_BlockNumber t = bb_Number b \<and> t_BlockHash t = bb_Hash b" if "t \<in> set (bb_Transactions b)"
    using assms that unfolding wf_bundle_def wf_transactions_def in_set_conv_nth by blast
  show "e_BlockNumber e = bb_Number b \<and> e_BlockHash e = bb_Hash b \<and> length (e_Topics e) \<le> 4 \<and>
      e_TransactionHash e \<in> t_Hash ` set (bb_Transactions b)" if "e \<in> set (bb_Events b)"
    using assms that unfolding wf_bundle_def wf_events_def by (metis image_eqI)
qed

section \<open>Inserting\<close>

definition transaction_rows :: "statement list \<Rightarrow> sql_transaction list" where
  "transaction_rows sts = List.map_filter (\<lambda>s. case s of Insert_transaction r \<Rightarrow> Some r | _ \<Rightarrow> None) sts"

definition event_rows :: "statement list \<Rightarrow> sql_event list" where
  "event_rows sts = List.map_filter (\<lambda>s. case s of Insert_event r \<Rightarrow> Some r | _ \<Rightarrow> None) sts"

definition queued_transactions :: "queued list \<Rightarrow> Transaction list" where
  "queued_transactions qs = List.map_filter (\<lambda>q. case q of Queue_transaction t \<Rightarrow> Some t | _ \<Rightarrow> None) qs"

definition queued_events :: "queued list \<Rightarrow> Event list" where
  "queued_events qs = List.map_filter (\<lambda>q. case q of Queue_event e \<Rightarrow> Some e | _ \<Rightarrow> None) qs"

lemmas rows_defs = transaction_rows_def event_rows_def queued_transactions_def queued_events_def List.map_filter_def

lemma queued_bundles:
  "queued_transactions (concat (map bundle_queue bs)) = all_transactions bs"
  "queued_events (concat (map bundle_queue bs)) = all_events bs"
  by (induction bs) (auto simp: bundle_queue_def rows_defs comp_def filter_empty_conv)

lemma statements_rows:
  assumes "list_all2 (\<lambda>q s. statement_of q = Inr s) qs sts"
  shows "list_all2 transaction_rel (queued_transactions qs) (transaction_rows sts) \<and>
    list_all2 event_rel (queued_events qs) (event_rows sts)"
  using assms
proof (induction rule: list_all2_induct)
  case (Cons q qs s sts)
  then show ?case by (cases q) (auto simp: rows_defs statement_of_def)
qed (simp add: rows_defs)

lemma execute_all_rows:
  "execute_all sts db = Inr db' \<Longrightarrow>
   d_transactions db' = d_transactions db @ transaction_rows sts \<and> d_events db' = d_events db @ event_rows sts \<and>
   d_sync_state db' = d_sync_state db"
proof (induction sts arbitrary: db)
  case (Cons s sts)
  then obtain db1 where db1: "execute s db = Inr db1" "execute_all sts db1 = Inr db'" by auto
  show ?case using Cons.IH [OF db1(2)] db1(1)
    by (cases s) (auto simp: execute_def insert_block_def insert_transaction_def insert_event_def rows_defs split: if_splits)
qed (simp add: rows_defs)

lemma execute_all_distinct:
  "execute_all sts db = Inr db' \<Longrightarrow> distinct (map sx_hash (d_transactions db)) \<Longrightarrow> distinct (map sx_hash (d_transactions db'))"
proof (induction sts arbitrary: db)
  case (Cons s sts)
  then obtain db1 where db1: "execute s db = Inr db1" "execute_all sts db1 = Inr db'" by auto
  have "distinct (map sx_hash (d_transactions db1))"
    using db1(1) Cons.prems(2)
    by (cases s) (auto simp: execute_def insert_block_def insert_transaction_def insert_event_def split: if_splits)
  then show ?case using Cons.IH [OF db1(2)] by simp
qed simp

lemma insertCanonicalBundles_Inr:
  assumes "insertCanonicalBundles x bs db = Inr (db', sent)"
  shows "\<exists>sts. list_all2 (\<lambda>q s. statement_of q = Inr s) (concat (map bundle_queue bs)) sts \<and> execute_all sts db = Inr db' \<and>
    concat sent = sts \<and> (\<forall>b \<in> set sent. b \<noteq> [] \<and> length b \<le> canonicalBatchQueryLimit)"
proof (cases "bs = []")
  case False
  then have "insert_queued x (concat (map bundle_queue bs)) [] (db, []) = Inr (db', sent)"
    using assms by (simp add: insertCanonicalBundles_def)
  then show ?thesis using insert_queued_sound [of x "concat (map bundle_queue bs)" "[]" db "[]" db' sent]
    by (auto simp: canonicalBatchQueryLimit_def)
qed (use assms in \<open>simp add: insertCanonicalBundles_def\<close>)

lemma insert_represents:
  assumes rep: "represents bs db" and ins: "insertCanonicalBundles x new db = Inr (db', sent)"
    and dist: "distinct (map sb_number (d_blocks db))" and hashes: "distinct (map sx_hash (d_transactions db))"
  shows "represents (bs @ new) db' \<and> distinct (map sx_hash (d_transactions db')) \<and> d_sync_state db' = d_sync_state db"
proof -
  obtain sts where sts: "list_all2 (\<lambda>q s. statement_of q = Inr s) (concat (map bundle_queue new)) sts"
    and run: "execute_all sts db = Inr db'" using insertCanonicalBundles_Inr [OF ins] by blast
  obtain rs where rs: "d_blocks db' = d_blocks db @ rs" "list_all2 block_rel new rs"
    using insertCanonicalBundles_blocks [OF ins dist] by blast
  have "list_all2 transaction_rel (all_transactions new) (transaction_rows sts)"
    "list_all2 event_rel (all_events new) (event_rows sts)"
    using statements_rows [OF sts] by (simp_all add: queued_bundles)
  then show ?thesis
    using rep rs execute_all_rows [OF run] execute_all_distinct [OF run hashes]
    by (simp add: represents_def list_all2_appendI)
qed

section \<open>Deleting\<close>

lemma delete_represents:
  assumes rep: "represents bs db" and wf: "\<forall>b \<in> set bs. wf_bundle b"
  shows "represents (filter (\<lambda>b. \<not> gone (uint (bb_Number b))) bs) (delete_blocks gone db)"
proof -
  let ?keep = "\<lambda>b. \<not> gone (uint (bb_Number b))" and ?db = "delete_blocks gone db"
  let ?bs = "filter ?keep bs"
  have "filter (\<lambda>t. \<not> gone (uint (t_BlockNumber t))) (all_transactions bs) = all_transactions ?bs"
    using wf wf_member(1) by (intro filter_concat_by) metis
  then have txs: "list_all2 transaction_rel (all_transactions ?bs) (d_transactions ?db)"
    using rep list_all2_filter [of transaction_rel "all_transactions bs" "d_transactions db"
        "\<lambda>t. \<not> gone (uint (t_BlockNumber t))" "\<lambda>r. \<not> gone (sx_block_number r)"]
    by (simp add: represents_def delete_blocks_def Let_def transaction_row_Inr)
  have hash: "be_bytes 32 (t_Hash t) \<in> sx_hash ` set (d_transactions ?db)" if "t \<in> set (all_transactions ?bs)" for t
    using list_all2_members(1) [OF txs that] by (force simp: transaction_row_Inr)
  have "filter (\<lambda>e. \<not> gone (uint (e_BlockNumber e))) (all_events bs) = all_events ?bs"
    using wf wf_member(2) by (intro filter_concat_by) metis
  then have evs: "list_all2 event_rel (all_events ?bs) (filter (\<lambda>r. \<not> gone (sl_block_number r)) (d_events db))"
    using rep list_all2_filter [of event_rel "all_events bs" "d_events db"
        "\<lambda>e. \<not> gone (uint (e_BlockNumber e))" "\<lambda>r. \<not> gone (sl_block_number r)"]
    by (simp add: represents_def event_row_Inr)
  have "sl_transaction_hash r \<in> sx_hash ` set (d_transactions ?db)" if r: "r \<in> set (filter (\<lambda>r. \<not> gone (sl_block_number r)) (d_events db))" for r
  proof -
    obtain e where e: "e \<in> set (all_events ?bs)" "event_rel e r"
      using list_all2_members(2) [OF evs r] by blast
    then obtain b where "b \<in> set ?bs" "e \<in> set (bb_Events b)" by auto
    moreover from this wf obtain t where "t \<in> set (bb_Transactions b)" "t_Hash t = e_TransactionHash e"
      unfolding wf_bundle_def wf_events_def by force
    ultimately have "t \<in> set (all_transactions ?bs)" by auto
    then have "be_bytes 32 (e_TransactionHash e) \<in> sx_hash ` set (d_transactions ?db)" using hash \<open>t_Hash t = _\<close> by metis
    then show ?thesis using e(2) by (simp add: event_row_Inr)
  qed
  then have "d_events ?db = filter (\<lambda>r. \<not> gone (sl_block_number r)) (d_events db)"
    by (auto simp: delete_blocks_def Let_def intro!: filter_cong)
  moreover have "list_all2 block_rel ?bs (d_blocks ?db)"
    using rep list_all2_filter [of block_rel bs "d_blocks db" ?keep "\<lambda>r. \<not> gone (sb_number r)"]
    by (simp add: represents_def delete_blocks_def Let_def block_row_Inr)
  ultimately show ?thesis using txs evs by (simp add: represents_def)
qed

section \<open>Agreement\<close>

abbreviation keyed :: "BlockBundle list \<Rightarrow> (u64 \<times> BlockBundle) list" where
  "keyed bs \<equiv> map (\<lambda>b. (bb_Number b, cloneBundle b)) bs"

definition agrees :: "Drivers \<Rightarrow> Memory \<Rightarrow> Tables \<Rightarrow> bool" where
  "agrees d m db \<longleftrightarrow> memory_inv m \<and> pg_inv d db \<and> distinct (map sx_hash (d_transactions db)) \<and>
     map ss_chain_id (d_sync_state db) = (if m_chainID m = 0 then [] else [uint (m_chainID m)]) \<and>
     (\<exists>bs. mset (m_bundles m) = mset (keyed bs) \<and> represents bs db \<and> (\<forall>b \<in> set bs. validatePostgresBundle b = None))"

lemma agrees_migrated: "drivers_ok d \<Longrightarrow> agrees d NewMemory migrated"
  using NewMemory_inv
  by (auto simp: agrees_def NewMemory_def migrated_def pg_inv_def pg_chain_def rows_chain_def linked_chain_def represents_def)

lemma keyed_facts:
  assumes inv: "memory_inv m" and ms: "mset (m_bundles m) = mset (keyed bs)"
  shows "distinct (map bb_Number bs)" and "map_of (m_bundles m) = map_of (keyed bs)"
    and "\<forall>b \<in> set bs. wf_bundle b"
proof -
  have "mset (map fst (m_bundles m)) = mset (map fst (keyed bs))" using arg_cong [OF ms, of "image_mset fst"] by (simp only: mset_map)
  then have dist: "distinct (map fst (keyed bs))" using inv mset_eq_imp_distinct_iff unfolding memory_inv_def by blast
  then show "distinct (map bb_Number bs)" by (simp add: comp_def)
  show M: "map_of (m_bundles m) = map_of (keyed bs)" using map_of_perm [OF dist ms] .
  show "\<forall>b \<in> set bs. wf_bundle b"
  proof
    fix b assume "b \<in> set bs"
    then have "map_of (keyed bs) (bb_Number b) = Some (cloneBundle b)" using dist by (intro map_of_is_SomeI) auto
    then show "wf_bundle b" using stored_wf(2) [OF inv] M by fastforce
  qed
qed

lemma represents_chain: "represents bs db \<Longrightarrow> pg_chain db = map_option header \<circ> map_of (keyed bs)"
proof -
  assume "represents bs db"
  then have "pg_chain db n = map_of (map (\<lambda>b. (bb_Number b, header b)) bs) n" for n
    unfolding pg_chain_def represents_def by (intro rows_chain_blocks) blast
  moreover have "map_of (map (\<lambda>b. (bb_Number b, header b)) bs) n = map_option header (map_of (keyed bs) n)" for n
    by (induction bs) auto
  ultimately show ?thesis by (simp add: fun_eq_iff)
qed

lemma represents_hashes:
  assumes "list_all2 transaction_rel ts rs" and "distinct (map sx_hash rs)"
  shows "distinct (map t_Hash ts)"
proof -
  have "map sx_hash rs = map (be_bytes 32) (map t_Hash ts)"
    using assms(1) by (induction rule: list_all2_induct) (auto simp: transaction_row_Inr)
  then show ?thesis using assms(2) by (metis distinct_map)
qed

lemma distinct_disjoint:
  assumes "distinct (map t_Hash (all_transactions bs))" and "b \<in> set bs" and "c \<in> set bs" and "b \<noteq> c"
  shows "t_Hash ` set (bb_Transactions b) \<inter> t_Hash ` set (bb_Transactions c) = {}"
  using assms
proof (induction bs)
  case (Cons a bs)
  have disj: "t_Hash ` set (bb_Transactions a) \<inter> t_Hash ` set (bb_Transactions x) = {}" if "x \<in> set bs" for x
    using Cons.prems(1) that by auto
  show ?case
  proof (cases "b = a \<or> c = a")
    case True
    then show ?thesis using disj Cons.prems(2-4) by (auto simp: Int_commute)
  next
    case False
    then show ?thesis using Cons by simp
  qed
qed simp

text \<open>What the committed update leaves is a map the in-memory store accepts.\<close>

lemma canonical_keyed:
  assumes wf: "\<forall>b \<in> set bs. wf_bundle b" and dist: "distinct (map bb_Number bs)"
    and hashes: "distinct (map t_Hash (all_transactions bs))" and chain: "linked_chain (map_option header \<circ> map_of (keyed bs))"
  shows "canonical_bundles (map_of (keyed bs))"
proof -
  have at: "\<exists>c \<in> set bs. bb_Number c = n \<and> b = cloneBundle c" if "map_of (keyed bs) n = Some b" for n b
    using map_of_SomeD [OF that] by auto
  have "t_Hash ` set (bb_Transactions b) \<inter> t_Hash ` set (bb_Transactions c) = {}"
    if n: "map_of (keyed bs) n = Some b" and k: "map_of (keyed bs) k = Some c" and "n \<noteq> k" for n k b c
  proof -
    obtain b' c' where "b' \<in> set bs" "c' \<in> set bs" "b' \<noteq> c'" "b = cloneBundle b'" "c = cloneBundle c'"
      using at [OF n] at [OF k] \<open>n \<noteq> k\<close> by blast
    then show ?thesis using distinct_disjoint [OF hashes, of b' c'] by (simp add: image_image)
  qed
  then show ?thesis unfolding canonical_bundles_def using at wf chain by fastforce
qed

lemma update_keyed:
  assumes cons: "consecutive_from (u_ReplaceFrom u) (u_Blocks u)" and dist: "distinct (map bb_Number bs)"
  defines "bs' \<equiv> filter (\<lambda>b. u_RetainFrom u \<le> bb_Number b \<and> bb_Number b < u_ReplaceFrom u) bs @ u_Blocks u"
  shows "distinct (map bb_Number bs')" and "map_of (keyed bs') = updated cloneBundle u (map_of (keyed bs))"
proof -
  let ?keep = "\<lambda>n. u_RetainFrom u \<le> n \<and> n < u_ReplaceFrom u"
  have new: "distinct (map bb_Number (u_Blocks u))" by (rule consecutive_from_distinct [OF cons])
  have ge: "u_ReplaceFrom u \<le> bb_Number b" if "b \<in> set (u_Blocks u)" for b using consecutive_from_ge [OF cons that] .
  have disj: "\<not> ?keep n" if "n \<in> bb_Number ` set (u_Blocks u)" for n using that ge by (auto simp: not_less)
  show "distinct (map bb_Number bs')"
    using dist new disj by (auto simp: bs'_def distinct_map_filter)
  have kept: "map_of (keyed (filter (\<lambda>b. ?keep (bb_Number b)) bs)) n = (if ?keep n then map_of (keyed bs) n else None)" for n
    by (induction bs) auto
  have "map_of (keyed bs') n = updated cloneBundle u (map_of (keyed bs)) n" for n
  proof (cases "map_of (keyed (u_Blocks u)) n")
    case None
    then show ?thesis using kept [of n] by (simp add: bs'_def updated_def map_add_def split: option.splits)
  next
    case (Some b)
    then have "n \<in> bb_Number ` set (u_Blocks u)" using map_of_SomeD [OF Some] by auto
    then have "\<not> ?keep n" by (rule disj)
    then have "map_of (keyed (filter (\<lambda>b. ?keep (bb_Number b)) bs)) n = None" by (simp only: kept if_False)
    then show ?thesis using Some by (simp add: bs'_def updated_def map_add_def)
  qed
  then show "map_of (keyed bs') = updated cloneBundle u (map_of (keyed bs))" by (rule ext)
qed

section \<open>Updates\<close>

lemma same_chain:
  assumes sync: "map ss_chain_id (d_sync_state db) = (if m_chainID m = 0 then [] else [uint (m_chainID m)])"
    and reject: "rejectDifferentChain x (u_ChainID u) db = Inr ()"
  shows "m_chainID m = 0 \<or> m_chainID m = u_ChainID u"
proof (cases "m_chainID m = 0")
  case False
  then obtain r where r: "d_sync_state db = [r]" "ss_chain_id r = uint (m_chainID m)" using sync by auto
  then show ?thesis
    using reject by (auto simp: rejectDifferentChain_def other_chain_def word_uint_eq_iff split: if_splits)
qed simp

lemma written_chain:
  assumes sync: "map ss_chain_id (d_sync_state db) = (if m_chainID m = 0 then [] else [uint (m_chainID m)])"
    and same: "m_chainID m = 0 \<or> m_chainID m = u_ChainID u" and run: "writeSyncState x u tip db = Inr db'"
  shows "map ss_chain_id (d_sync_state db') = [uint (u_ChainID u)]"
proof -
  have "\<exists>number. upsertSyncStateQuery \<lparr>ss_chain_id = uint (u_ChainID u), ss_last_number = number,
      ss_last_hash = map_option (\<lambda>t. be_bytes 32 (tip_Hash t)) tip, ss_last_sync_at = timestamptz (u_SyncedAt u)\<rparr> db = Inr db'"
    using run by (auto simp: writeSyncState_def)
  then obtain r where r: "ss_chain_id r = uint (u_ChainID u)" "upsertSyncStateQuery r db = Inr db'"
    by (metis sql_sync_state.select_convs(1))
  show ?thesis
  proof (cases "m_chainID m = 0")
    case True
    then show ?thesis using sync r by (auto simp: upsertSyncStateQuery_def split: if_splits)
  next
    case False
    then obtain q where "d_sync_state db = [q]" "ss_chain_id q = uint (u_ChainID u)" using sync same by auto
    then show ?thesis using r by (auto simp: upsertSyncStateQuery_def split: if_splits)
  qed
qed

lemma mset_of_map:
  assumes "distinct (map fst xs)" and "distinct (map fst ys)" and "map_of xs = map_of ys"
  shows "mset xs = mset ys"
proof -
  have "set xs = set ys" using assms by (simp add: map_of_inject_set)
  moreover have "distinct xs" "distinct ys" using assms(1,2) distinct_map by blast+
  ultimately show ?thesis by (simp add: set_eq_iff_mset_eq_distinct)
qed

lemma represents_update:
  assumes rep: "represents bs db" and wf: "\<forall>b \<in> set bs. wf_bundle b" and dist: "distinct (map sb_number (d_blocks db))"
    and hashes: "distinct (map sx_hash (d_transactions db))" and run: "update_transaction d x u db = Inr (db3, sent)"
  defines "bs' \<equiv> filter (\<lambda>b. u_RetainFrom u \<le> bb_Number b \<and> bb_Number b < u_ReplaceFrom u) bs @ u_Blocks u"
  shows "represents bs' db3" and "distinct (map sx_hash (d_transactions db3))"
    and "\<exists>x' tip db2. rejectDifferentChain x (u_ChainID u) db = Inr () \<and> d_sync_state db2 = d_sync_state db \<and>
      writeSyncState x' u tip db2 = Inr db3"
proof -
  obtain db1 db2 tip where reject: "rejectDifferentChain x (u_ChainID u) db = Inr ()"
    and db1: "db1 = deleteCanonicalRangeQuery (uint (u_ReplaceFrom u)) (uint (u_RetainFrom u)) db"
    and ins: "insertCanonicalBundles x (u_Blocks u) db1 = Inr (db2, sent)" and sync: "writeSyncState x u tip db2 = Inr db3"
    by (rule update_transaction_cases [OF run])
  let ?gone = "\<lambda>number. number \<ge> uint (u_ReplaceFrom u) \<or> number < uint (u_RetainFrom u)"
  have "filter (\<lambda>b. \<not> ?gone (uint (bb_Number b))) bs =
      filter (\<lambda>b. u_RetainFrom u \<le> bb_Number b \<and> bb_Number b < u_ReplaceFrom u) bs"
    by (rule filter_cong) (auto simp: word_le_def word_less_def)
  then have "represents (filter (\<lambda>b. u_RetainFrom u \<le> bb_Number b \<and> bb_Number b < u_ReplaceFrom u) bs) db1"
    using delete_represents [OF rep wf, of ?gone] by (simp add: db1 deleteCanonicalRangeQuery_def)
  moreover have "distinct (map sb_number (d_blocks db1))" "distinct (map sx_hash (d_transactions db1))"
    using dist hashes by (auto simp: db1 deleteCanonicalRangeQuery_def delete_blocks_def Let_def distinct_map_filter)
  ultimately have ins': "represents bs' db2" "distinct (map sx_hash (d_transactions db2))" "d_sync_state db2 = d_sync_state db1"
    using insert_represents [OF _ ins] by (auto simp: bs'_def)
  then show "represents bs' db3" "distinct (map sx_hash (d_transactions db3))"
    using writeSyncState_blocks [OF sync] by (simp_all add: represents_def)
  have "d_sync_state db1 = d_sync_state db" by (simp add: db1 deleteCanonicalRangeQuery_def delete_blocks_def Let_def)
  then show "\<exists>x' tip db2. rejectDifferentChain x (u_ChainID u) db = Inr () \<and> d_sync_state db2 = d_sync_state db \<and>
      writeSyncState x' u tip db2 = Inr db3" using reject sync ins'(3) by metis
qed

lemma commit_agrees:
  assumes agr: "agrees d m db" and valid: "validatePostgresUpdate u = None"
    and run: "update_transaction d x u db = Inr (db3, sent)"
  shows "\<exists>m'. Memory_ApplyCanonicalUpdate None u m = (None, m') \<and> agrees d m' db3"
proof -
  have inv: "memory_inv m" and pg: "pg_inv d db" and hashes: "distinct (map sx_hash (d_transactions db))"
    and sync: "map ss_chain_id (d_sync_state db) = (if m_chainID m = 0 then [] else [uint (m_chainID m)])"
    using agr by (auto simp: agrees_def)
  obtain bs where ms: "mset (m_bundles m) = mset (keyed bs)" and rep: "represents bs db"
    and ok: "\<forall>b \<in> set bs. validatePostgresBundle b = None" using agr by (auto simp: agrees_def)
  note k = keyed_facts [OF inv ms] and v = validatePostgresUpdate_None [OF valid] and pg' = pg_update [OF pg valid run]
  have "distinct (map sb_number (d_blocks db))" using pg by (simp add: pg_inv_def)
  note new = represents_update [OF rep k(3) this hashes run] and upd = update_keyed [OF v(3) k(1)]
  define bs' where "bs' = filter (\<lambda>b. u_RetainFrom u \<le> bb_Number b \<and> bb_Number b < u_ReplaceFrom u) bs @ u_Blocks u"
  note new = new [folded bs'_def] and upd = upd [folded bs'_def]
  have chain: "m_chainID m = 0 \<or> m_chainID m = u_ChainID u" using same_chain [OF sync] new(3) by blast
  have "map_of (map (\<lambda>b. (bb_Number b, b)) (u_Blocks u)) (bb_Number b) = Some b" if "b \<in> set (u_Blocks u)" for b
    using that consecutive_from_distinct [OF v(3)] by (intro map_of_is_SomeI) (auto simp: comp_def)
  then have "\<forall>b \<in> set (u_Blocks u). wf_bundle b" using v(4) unfolding canonical_bundles_def by blast
  then have wf: "\<forall>b \<in> set bs'. wf_bundle b" using k(3) by (auto simp: bs'_def)
  have "canonical_bundles (map_of (keyed bs'))"
  proof (rule canonical_keyed [OF wf upd(1)])
    show "distinct (map t_Hash (all_transactions bs'))" using new(1,2) represents_hashes by (auto simp: represents_def)
    show "linked_chain (map_option header \<circ> map_of (keyed bs'))"
      using represents_chain [OF new(1)] pg'(2) by (simp add: pg_inv_def)
  qed
  moreover have "u_ChainID u \<noteq> 0" using valid by (auto simp: validatePostgresUpdate_def)
  ultimately have acc: "update_accepted (m_chainID m) (map_of (m_bundles m)) u"
    using chain v(1,3) by (simp add: update_accepted_def k(2) upd(2))
  define m' where "m' = m\<lparr>m_chainID := u_ChainID u, m_bundles := candidate_bundles (m_bundles m) u, m_lastSyncedAt := u_SyncedAt u\<rparr>"
  have app: "Memory_ApplyCanonicalUpdate None u m = (None, m')" using Memory_Apply_cases(1) [OF inv acc] by (simp add: m'_def)
  note fin = Memory_Apply_chain(1) [OF inv app refl]
  have "map_of (m_bundles m') = map_of (keyed bs')" using fin k(2) upd(2) by simp
  then have "mset (m_bundles m') = mset (keyed bs')" using fin upd(1) by (intro mset_of_map) (simp_all add: comp_def)
  moreover have "\<forall>b \<in> set bs'. validatePostgresBundle b = None" using ok v(5) by (auto simp: bs'_def)
  moreover have "map ss_chain_id (d_sync_state db3) = [uint (u_ChainID u)]"
    using written_chain [OF _ chain] new(3) sync by metis
  ultimately have "agrees d m' db3"
    using Memory_Apply_inv [OF inv app] pg'(2) new(1,2) fin \<open>u_ChainID u \<noteq> 0\<close> unfolding agrees_def by auto
  then show ?thesis using app by blast
qed

end
