(* ===== verification/Postgres_Answers.thy ===== *)
theory Postgres_Answers
  imports Postgres_Refines
begin

text \<open>
  Queries of agreeing stores: PostgreSQL returns what the in-memory store returns, up to the
  microseconds and the zone of \<open>IndexedAt\<close>.
\<close>

section \<open>Blocks\<close>

lemma filter_key: "distinct (map k xs) \<Longrightarrow> x \<in> set xs \<Longrightarrow> filter (\<lambda>y. k y = k x) xs = [x]"
  by (induction xs) (auto simp: filter_empty_conv image_iff)

interpretation by_index: slice_order lower_index sx_transaction_index
  by unfold_locales (auto simp: lower_index_def)

lemma quiet [simp]:
  "pe_ctx no_failures = None" "pe_begin no_failures = None" "pe_query no_failures = None" "pe_cursor no_failures = None"
  "pe_rows no_failures = None" "pe_commit no_failures = None" "fails_with None msg = Inr ()" "check None = Inr ()"
  by (simp_all add: no_failures_def fails_with_def check_def)

lemma bundle_ok:
  assumes "validatePostgresBundle b = None"
  shows "validatePostgresBlock (bb_Block b) = None" and "t \<in> set (bb_Transactions b) \<Longrightarrow> validatePostgresTransaction t = None"
    and "e \<in> set (bb_Events b) \<Longrightarrow> validatePostgresEvent e = None"
  using assms by (auto simp: validatePostgresBundle_def simp del: first_error.simps)

lemma find_block_row:
  assumes "list_all2 block_rel bs rs"
  shows "find (\<lambda>r. sb_number r = uint n) rs = None \<longleftrightarrow> n \<notin> bb_Number ` set bs"
    and "find (\<lambda>r. sb_number r = uint n) rs = Some r \<Longrightarrow> \<exists>b \<in> set bs. bb_Number b = n \<and> block_rel b r"
  using assms
  by (induction rule: list_all2_induct) (auto simp: block_row_Inr word_uint_eq_iff split: if_splits)

lemma sorted_indexes:
  assumes "list_all2 transaction_rel ts rs" and "\<forall>i < length ts. t_Index (ts ! i) = of_nat i" and "int (length ts) \<le> MaxUint32"
  shows "sorted_wrt lower_index rs"
proof -
  have len: "length ts = length rs" using assms(1) by (rule list_all2_lengthD)
  have "sx_transaction_index (rs ! i) = int i" if "i < length rs" for i
  proof -
    have "sx_transaction_index (rs ! i) = uint (of_nat i :: u32)"
      using assms(1,2) that len by (simp add: list_all2_conv_all_nth transaction_row_Inr)
    also have "\<dots> = int i"
      using that len assms(3) by (simp add: uint_word_of_int of_nat_nat_take_bit_eq unsigned_of_nat take_bit_nat_eq_self MaxUint32_def)
    finally show ?thesis .
  qed
  then show ?thesis by (auto simp: sorted_wrt_iff_nth_less lower_index_def)
qed

lemma block_transactions:
  assumes "distinct (map bb_Number bs)" and "\<forall>b \<in> set bs. wf_bundle b" and "b \<in> set bs"
  shows "filter (\<lambda>t. t_BlockNumber t = bb_Number b) (all_transactions bs) = bb_Transactions b"
proof -
  have "filter (\<lambda>t. t_BlockNumber t = bb_Number b) (all_transactions bs) =
      all_transactions (filter (\<lambda>c. bb_Number c = bb_Number b) bs)"
    using assms(2) wf_member(1) by (intro filter_concat_by) metis
  moreover have "filter (\<lambda>c. bb_Number c = bb_Number b) bs = [b]"
    using filter_key [OF assms(1)] assms(3) by blast
  ultimately show ?thesis by simp
qed

lemma BlockByNumber_agrees:
  assumes agr: "agrees d m db"
  shows "Postgres_BlockByNumber d no_failures n db =
    map_sum id (\<lambda>r. r\<lparr>br_Block := stored_block (br_Block r)\<rparr>) (Memory_BlockByNumber None n m)"
proof -
  obtain bs where inv: "memory_inv m" and pg: "pg_inv d db" and ms: "mset (m_bundles m) = mset (keyed bs)"
    and rep: "represents bs db" and ok: "\<forall>b \<in> set bs. validatePostgresBundle b = None"
    using agr by (auto simp: agrees_def)
  note k = keyed_facts [OF inv ms]
  have d: "drivers_ok d" using pg by (simp add: pg_inv_def)
  have blocks: "list_all2 block_rel bs (d_blocks db)" and txs: "list_all2 transaction_rel (all_transactions bs) (d_transactions db)"
    using rep by (simp_all add: represents_def)
  show ?thesis
  proof (cases "find (\<lambda>r. sb_number r = uint n) (d_blocks db)")
    case None
    then have "n \<notin> bb_Number ` set bs" using find_block_row(1) [OF blocks] by blast
    then have "map_of (m_bundles m) n = None" unfolding k(2) map_of_eq_None_iff by (simp add: image_image)
    then show ?thesis
      using None by (simp add: Postgres_BlockByNumber_def blockByNumberQuery_def BlockByNumber_iff)
        (simp add: postgresInt64_def)
  next
    case (Some r)
    obtain b where b: "b \<in> set bs" "bb_Number b = n" "block_rel b r" using find_block_row(2) [OF blocks Some] by blast
    have "map_of (keyed bs) n = Some (cloneBundle b)"
      using b(1,2) k(1) by (intro map_of_is_SomeI) (auto simp: comp_def)
    then have mem: "Memory_BlockByNumber None n m =
        Inr \<lparr>br_Block = bb_Block b, br_TransactionHashes = map t_Hash (bb_Transactions b)\<rparr>"
      by (simp add: BlockByNumber_iff k(2) comp_def)
    have wf: "wf_transactions b" using k(3) b(1) by (simp add: wf_bundle_def)
    then have count: "b_TransactionCount (bb_Block b) = int (length (bb_Transactions b))" by (simp add: wf_transactions_def)
    let ?rows = "filter (\<lambda>t. sx_block_number t = uint n) (d_transactions db)"
    have "list_all2 transaction_rel (filter (\<lambda>t. t_BlockNumber t = n) (all_transactions bs)) ?rows"
      by (rule list_all2_filter [OF txs]) (auto simp: transaction_row_Inr word_uint_eq_iff)
    then have rows: "list_all2 transaction_rel (bb_Transactions b) ?rows"
      using block_transactions [OF k(1,3) b(1)] b(2) by simp
    have "sorted_wrt lower_index ?rows"
      using sorted_indexes [OF rows] wf by (simp add: wf_transactions_def)
    then have sorted: "sort_Slice lower_index ?rows = ?rows" by (rule by_index.sort_sorted)
    have "map sx_hash ?rows = map (be_bytes 32) (map t_Hash (bb_Transactions b))"
      using rows by (induction rule: list_all2_induct) (auto simp: transaction_row_Inr)
    then have hashes: "decode_all (decodeHash d) msg (map sx_hash ?rows) = Inr (map t_Hash (bb_Transactions b))" for msg
      using decode_all_map [of "map t_Hash (bb_Transactions b)" "decodeHash d" "be_bytes 32" id] decodeHash_bytes [OF d] by simp
    obtain r' where "block_rel b r'" "decode_block d (scan_block d r') = Inr (stored_block (bb_Block b))"
      using block_roundtrip [OF d bundle_ok(1), of b] ok b(1) count by auto
    then have dec: "decode_block d (scan_block d r) = Inr (stored_block (bb_Block b))" using b(3) by simp
    have "uint n \<le> MaxInt64" "sb_number r = uint n" using b(2,3) by (auto simp: block_row_Inr)
    then show ?thesis
      using Some by (simp add: Postgres_BlockByNumber_def blockByNumberQuery_def sorted hashes dec mem count postgresInt64_def
          stored_block_def)
  qed
qed

section \<open>Joins\<close>

lemma be_bytes_inj: "be_bytes 32 h = be_bytes 32 h' \<longleftrightarrow> h = (h' :: hash)" "be_bytes 20 a = be_bytes 20 a' \<longleftrightarrow> a = (a' :: address)"
proof -
  have h: "be_word (be_bytes 32 h) = h" for h :: hash by (rule be_word_bytes) simp
  have a: "be_word (be_bytes 20 a) = a" for a :: address by (rule be_word_bytes) simp
  show "be_bytes 32 h = be_bytes 32 h' \<longleftrightarrow> h = h'" by (metis h)
  show "be_bytes 20 a = be_bytes 20 a' \<longleftrightarrow> a = a'" by (metis a)
qed

lemma stored_clone: "stored_event e = cloneEvent e" "stored_transaction t = cloneTransaction t"
  by (simp_all add: stored_event_def cloneEvent_def stored_transaction_def cloneTransaction_def)

definition block_of :: "Tables \<Rightarrow> int \<Rightarrow> sql_block" where
  "block_of db n = hd (filter (\<lambda>b. sb_number b = n) (d_blocks db))"

lemma join_blocks_map:
  "(\<And>r. r \<in> set rs \<Longrightarrow> filter (\<lambda>b. sb_number b = num r) (d_blocks db) = [block_of db (num r)]) \<Longrightarrow>
   join_blocks num db rs = map (\<lambda>r. (r, block_of db (num r))) rs"
  by (induction rs) (auto simp: join_blocks_def)

lemma block_of_bundle:
  assumes "list_all2 block_rel bs (d_blocks db)" and "distinct (map bb_Number bs)" and "b \<in> set bs"
  shows "filter (\<lambda>r. sb_number r = uint (bb_Number b)) (d_blocks db) = [block_of db (uint (bb_Number b))]"
    and "sb_hash (block_of db (uint (bb_Number b))) = be_bytes 32 (bb_Hash b)"
proof -
  have "filter (\<lambda>c. bb_Number c = bb_Number b) bs = [b]"
    using filter_key [OF assms(2)] assms(3) by blast
  moreover have "list_all2 block_rel (filter (\<lambda>c. bb_Number c = bb_Number b) bs)
      (filter (\<lambda>r. sb_number r = uint (bb_Number b)) (d_blocks db))"
    by (rule list_all2_filter [OF assms(1)]) (auto simp: block_row_Inr word_uint_eq_iff)
  ultimately obtain r where r: "filter (\<lambda>r. sb_number r = uint (bb_Number b)) (d_blocks db) = [r]" "block_rel b r"
    by (auto simp: list_all2_Cons1)
  then show "filter (\<lambda>r. sb_number r = uint (bb_Number b)) (d_blocks db) = [block_of db (uint (bb_Number b))]"
    "sb_hash (block_of db (uint (bb_Number b))) = be_bytes 32 (bb_Hash b)"
    by (auto simp: block_of_def block_row_Inr)
qed

definition represented :: "Drivers \<Rightarrow> BlockBundle list \<Rightarrow> Tables \<Rightarrow> bool" where
  "represented d bs db \<longleftrightarrow> drivers_ok d \<and> represents bs db \<and> distinct (map bb_Number bs) \<and> (\<forall>b \<in> set bs. wf_bundle b) \<and>
     (\<forall>b \<in> set bs. validatePostgresBundle b = None) \<and> distinct (map t_Hash (all_transactions bs))"

lemma represented_facts:
  assumes "represented d bs db"
  shows "drivers_ok d" and "distinct (map bb_Number bs)" and "distinct (map t_Hash (all_transactions bs))"
    and "list_all2 block_rel bs (d_blocks db)" and "list_all2 transaction_rel (all_transactions bs) (d_transactions db)"
    and "list_all2 event_rel (all_events bs) (d_events db)"
    and "b \<in> set bs \<Longrightarrow> wf_bundle b" and "b \<in> set bs \<Longrightarrow> validatePostgresBundle b = None"
  using assms by (simp_all add: represented_def represents_def)

lemma event_of_block:
  assumes R: "represented d bs db" and e: "e \<in> set (all_events bs)" "event_rel e r"
  shows "filter (\<lambda>b. sb_number b = sl_block_number r) (d_blocks db) = [block_of db (sl_block_number r)]"
    and "decode_event d (scan_event r (block_of db (sl_block_number r))) = Inr (cloneEvent e)"
proof -
  note F = represented_facts [OF R]
  obtain b where b: "b \<in> set bs" "e \<in> set (bb_Events b)" using e(1) by auto
  have w: "e_BlockNumber e = bb_Number b" "e_BlockHash e = bb_Hash b" "length (e_Topics e) \<le> 4"
    using wf_member(2) [OF F(7) [OF b(1)] b(2)] by blast+
  have num: "sl_block_number r = uint (bb_Number b)" "uint (e_BlockNumber e) \<le> MaxInt64"
    using e(2) w(1) by (auto simp: event_row_Inr)
  note at = block_of_bundle [OF F(4,2) b(1), folded num(1)]
  show "filter (\<lambda>b. sb_number b = sl_block_number r) (d_blocks db) = [block_of db (sl_block_number r)]" by (rule at(1))
  have "validatePostgresEvent e = None" using bundle_ok(3) [OF F(8) [OF b(1)] b(2)] .
  from event_roundtrip [OF F(1) this num(2) w(3), of "block_of db (sl_block_number r)"] at(2) w(2) e(2)
  show "decode_event d (scan_event r (block_of db (sl_block_number r))) = Inr (cloneEvent e)"
    by (auto simp: stored_clone)
qed

lemma scan_joined:
  assumes R: "represented d bs db" and "list_all2 event_rel es rs" and "set es \<subseteq> set (all_events bs)"
  shows "join_blocks sl_block_number db rs = map (\<lambda>r. (r, block_of db (sl_block_number r))) rs"
    and "scan_events d (map (\<lambda>r. (r, block_of db (sl_block_number r))) rs) = Inr (map cloneEvent es)"
proof -
  show "join_blocks sl_block_number db rs = map (\<lambda>r. (r, block_of db (sl_block_number r))) rs"
    using list_all2_members(2) [OF assms(2)] event_of_block(1) [OF R] assms(3) by (intro join_blocks_map) blast
  show "scan_events d (map (\<lambda>r. (r, block_of db (sl_block_number r))) rs) = Inr (map cloneEvent es)"
    using assms(2,3)
  proof (induction rule: list_all2_induct)
    case (Cons e es r rs)
    then show ?case using event_of_block(2) [OF R, of e r] by simp
  qed simp
qed

lemma scan_page:
  assumes R: "represented d bs db" and "list_all2 event_rel es rs" and "set es \<subseteq> set (all_events bs)"
  shows "scanPostgresEvents d no_failures (take k (join_blocks sl_block_number db rs)) = Inr (map cloneEvent (take k es))"
proof -
  have "list_all2 event_rel (take k es) (take k rs)" using assms(2) by (rule list_all2_takeI)
  moreover have "set (take k es) \<subseteq> set (all_events bs)" by (rule order_trans [OF set_take_subset assms(3)])
  ultimately have "scan_events d (map (\<lambda>r. (r, block_of db (sl_block_number r))) (take k rs)) = Inr (map cloneEvent (take k es))"
    by (rule scan_joined(2) [OF R])
  then show ?thesis
    by (simp only: scan_joined(1) [OF assms] scanPostgresEvents_def take_map bind_simps(1) quiet option.map)
qed

lemma transaction_lookup:
  assumes R: "represented d bs db" and b: "b \<in> set bs" and t: "t \<in> set (bb_Transactions b)"
  shows "\<exists>r. transaction_rel t r \<and> transactionByHashQuery (be_bytes 32 (t_Hash t)) db = Some (r, block_of db (uint (bb_Number b))) \<and>
    decode_transaction d (scan_transaction d r (block_of db (uint (bb_Number b)))) = Inr (cloneTransaction t)"
proof -
  note F = represented_facts [OF R]
  have w: "t_BlockNumber t = bb_Number b" "t_BlockHash t = bb_Hash b" using wf_member(1) [OF F(7) [OF b] t] by blast+
  have "t \<in> set (all_transactions bs)" using b t by auto
  then have "filter (\<lambda>s. t_Hash s = t_Hash t) (all_transactions bs) = [t]"
    using filter_key [OF F(3)] by blast
  moreover have "list_all2 transaction_rel (filter (\<lambda>s. t_Hash s = t_Hash t) (all_transactions bs))
      (filter (\<lambda>r. sx_hash r = be_bytes 32 (t_Hash t)) (d_transactions db))"
    by (rule list_all2_filter [OF F(5)]) (auto simp: transaction_row_Inr be_bytes_inj)
  ultimately obtain r where r: "filter (\<lambda>r. sx_hash r = be_bytes 32 (t_Hash t)) (d_transactions db) = [r]" "transaction_rel t r"
    by (auto simp: list_all2_Cons1)
  have num: "sx_block_number r = uint (bb_Number b)" using r(2) w(1) by (auto simp: transaction_row_Inr)
  note at = block_of_bundle [OF F(4,2) b]
  have "validatePostgresTransaction t = None" using bundle_ok(2) [OF F(8) [OF b] t] .
  from transaction_roundtrip [OF F(1) this, of "block_of db (uint (bb_Number b))"] at(2) w(2) r(2)
  show ?thesis using r at(1) num by (auto simp: transactionByHashQuery_def join_blocks_def stored_clone)
qed

lemma represented_agrees:
  assumes "agrees d m db"
  obtains bs where "memory_inv m" "mset (m_bundles m) = mset (keyed bs)" "represented d bs db"
    "\<forall>r \<in> set (d_blocks db). sb_number r \<le> MaxInt64"
proof -
  obtain bs where inv: "memory_inv m" and pg: "pg_inv d db" and ms: "mset (m_bundles m) = mset (keyed bs)"
    and rep: "represents bs db" and ok: "\<forall>b \<in> set bs. validatePostgresBundle b = None"
    and hashes: "distinct (map sx_hash (d_transactions db))"
    using assms by (auto simp: agrees_def)
  have "list_all2 transaction_rel (all_transactions bs) (d_transactions db)" using rep by (simp add: represents_def)
  then have "represented d bs db"
    using keyed_facts [OF inv ms] rep ok pg represents_hashes [OF _ hashes] by (simp add: represented_def pg_inv_def)
  then show thesis using that inv ms pg by (auto simp: pg_inv_def)
qed

section \<open>Transactions\<close>

lemma log_rel: "event_rel a r \<Longrightarrow> event_rel b s \<Longrightarrow> log_less a b = lower_log r s"
  by (auto simp: event_row_Inr log_less_def lower_log_def word_less_def)

lemma newest_rel: "event_rel a r \<Longrightarrow> event_rel b s \<Longrightarrow> newest_first a b = newest_event r s"
  by (auto simp: event_row_Inr newest_first_def newest_event_def word_less_def word_uint_eq_iff)

lemma sort_map:
  assumes "\<And>a b. lt (f a) (f b) = lt a b"
  shows "sort_Slice lt (map f xs) = map f (sort_Slice lt xs)"
proof -
  have "insert_by lt (f x) (map f ys) = map f (insert_by lt x ys)" for x ys by (induction ys) (auto simp: assms)
  then show ?thesis by (induction xs) auto
qed

lemma clone_orders: "log_less (cloneEvent a) (cloneEvent b) = log_less a b" "newest_first (cloneEvent a) (cloneEvent b) = newest_first a b"
  by (simp_all add: log_less_def newest_first_def)

lemma transaction_events:
  assumes R: "represented d bs db" and b: "b \<in> set bs" and t: "t \<in> set (bb_Transactions b)"
  shows "filter (\<lambda>e. e_TransactionHash e = t_Hash t) (all_events bs) = filter (\<lambda>e. e_TransactionHash e = t_Hash t) (bb_Events b)"
proof -
  note F = represented_facts [OF R]
  have other: "e_TransactionHash e \<noteq> t_Hash t" if c: "c \<in> set bs" "c \<noteq> b" "e \<in> set (bb_Events c)" for c e
  proof -
    have "e_TransactionHash e \<in> t_Hash ` set (bb_Transactions c)" using wf_member(2) [OF F(7) [OF c(1)] c(3)] by blast
    then show ?thesis using distinct_disjoint [OF F(3) c(1) b c(2)] t by blast
  qed
  have "filter (\<lambda>e. e_TransactionHash e = t_Hash t) (concat (map bb_Events cs)) =
      concat (map (\<lambda>c. filter (\<lambda>e. e_TransactionHash e = t_Hash t) (bb_Events c)) (filter (\<lambda>c. bb_Number c = bb_Number b) cs))"
    if "set cs \<subseteq> set bs" for cs
    using that
  proof (induction cs)
    case (Cons c cs)
    have "bb_Number c = bb_Number b \<longleftrightarrow> c = b" using F(2) Cons.prems b by (auto simp: distinct_map inj_on_def)
    then show ?case using Cons other [of c] by (auto simp: filter_empty_conv)
  qed simp
  from this [of bs] show ?thesis using filter_key [OF F(2) b] by simp
qed

lemma TransactionByHash_stored:
  assumes R: "represented d bs db" and b: "b \<in> set bs" and t: "t \<in> set (bb_Transactions b)"
  shows "Postgres_TransactionByHash d no_failures (t_Hash t) db =
    Inr \<lparr>tr_Transaction = cloneTransaction t,
         tr_Events = sort_Slice log_less (map cloneEvent (filter (\<lambda>e. e_TransactionHash e = t_Hash t) (bb_Events b)))\<rparr>"
proof -
  note F = represented_facts [OF R]
  let ?h = "be_bytes 32 (t_Hash t)"
  let ?es = "sort_Slice log_less (filter (\<lambda>e. e_TransactionHash e = t_Hash t) (all_events bs))"
    and ?rs = "sort_Slice lower_log (filter (\<lambda>r. sl_transaction_hash r = ?h) (d_events db))"
  have "list_all2 event_rel ?es ?rs"
    by (intro list_all2_sort list_all2_filter F(6)) (auto simp: log_rel, auto simp: event_row_Inr be_bytes_inj)
  moreover have "set ?es \<subseteq> set (all_events bs)" by auto
  ultimately have "scanPostgresEvents d no_failures (take (length ?rs) (join_blocks sl_block_number db ?rs)) =
      Inr (map cloneEvent (take (length ?rs) ?es))" and len: "length ?es = length ?rs"
    and join: "length (join_blocks sl_block_number db ?rs) = length ?rs"
    using scan_page [OF R, of ?es ?rs "length ?rs"] scan_joined(1) [OF R, of ?es ?rs] by (auto dest: list_all2_lengthD)
  then have "scanPostgresEvents d no_failures (join_blocks sl_block_number db ?rs) = Inr (map cloneEvent ?es)" by simp
  moreover have "map cloneEvent ?es = sort_Slice log_less (map cloneEvent (filter (\<lambda>e. e_TransactionHash e = t_Hash t) (bb_Events b)))"
    using sort_map [of log_less cloneEvent, OF clone_orders(1)] transaction_events [OF R b t] by simp
  ultimately have es: "queryEventsForTransaction d no_failures (t_Hash t) db =
      Inr (sort_Slice log_less (map cloneEvent (filter (\<lambda>e. e_TransactionHash e = t_Hash t) (bb_Events b))))"
    by (simp add: queryEventsForTransaction_def eventsForTransactionQuery_def)
  obtain r where "transactionByHashQuery ?h db = Some (r, block_of db (uint (bb_Number b)))"
    "decode_transaction d (scan_transaction d r (block_of db (uint (bb_Number b)))) = Inr (cloneTransaction t)"
    using transaction_lookup [OF R b t] by blast
  then show ?thesis by (simp add: Postgres_TransactionByHash_def es)
qed

lemma TransactionByHash_absent:
  assumes R: "represented d bs db" and "\<forall>b \<in> set bs. h \<notin> t_Hash ` set (bb_Transactions b)"
  shows "Postgres_TransactionByHash d no_failures h db = Inl (Sentinel ErrNotFound)"
proof -
  note F = represented_facts [OF R]
  have "filter (\<lambda>t. t_Hash t = h) (all_transactions bs) = []" using assms(2) by (auto simp: filter_empty_conv)
  moreover have "list_all2 transaction_rel (filter (\<lambda>s. t_Hash s = h) (all_transactions bs))
      (filter (\<lambda>r. sx_hash r = be_bytes 32 h) (d_transactions db))"
    by (rule list_all2_filter [OF F(5)]) (auto simp: transaction_row_Inr be_bytes_inj)
  ultimately have "filter (\<lambda>r. sx_hash r = be_bytes 32 h) (d_transactions db) = []" by simp
  then show ?thesis by (simp add: Postgres_TransactionByHash_def transactionByHashQuery_def join_blocks_def)
qed

lemma TransactionByHash_agrees:
  assumes "agrees d m db"
  shows "Postgres_TransactionByHash d no_failures h db = Memory_TransactionByHash None h m"
proof -
  obtain bs where inv: "memory_inv m" and ms: "mset (m_bundles m) = mset (keyed bs)" and rep: "represented d bs db"
    by (rule represented_agrees [OF assms])
  note k = keyed_facts [OF inv ms]
  show ?thesis
  proof (cases "\<exists>b \<in> set bs. \<exists>t \<in> set (bb_Transactions b). t_Hash t = h")
    case True
    then obtain b t where b: "b \<in> set bs" "t \<in> set (bb_Transactions b)" "t_Hash t = h" by blast
    have "map_of (m_bundles m) (bb_Number b) = Some (cloneBundle b)"
      unfolding k(2) using b(1) k(1) by (intro map_of_is_SomeI) (auto simp: comp_def)
    then have "Memory_TransactionByHash None (t_Hash (cloneTransaction t)) m = Inr \<lparr>tr_Transaction = cloneTransaction t,
        tr_Events = sort_Slice log_less (filter (\<lambda>e. e_TransactionHash e = t_Hash (cloneTransaction t)) (bb_Events (cloneBundle b)))\<rparr>"
      by (rule TransactionByHash_found [OF inv]) (use b(2) in simp)
    then show ?thesis
      using TransactionByHash_stored [OF rep b(1,2)] b(3) by (simp add: filter_map comp_def)
  next
    case False
    have "h \<notin> t_Hash ` set (bb_Transactions c)" if c: "map_of (m_bundles m) n = Some c" for n c
    proof -
      obtain b where "b \<in> set bs" "c = cloneBundle b" using map_of_SomeD [OF c [unfolded k(2)]] by auto
      then show ?thesis using False by (auto simp: image_image)
    qed
    then have "Memory_TransactionByHash None h m = Inl (Sentinel ErrNotFound)" by (rule TransactionByHash_missing [OF inv])
    then show ?thesis using TransactionByHash_absent [OF rep, of h] False by (auto simp: image_iff)
  qed
qed

section \<open>Events\<close>

lemma widened:
  fixes w :: u32
  shows "uint (ucast w :: u64) = uint w" and "uint w \<le> MaxInt64"
proof -
  have "uint w < 2 ^ 32" using unsigned_less [of w, where 'a = int] by simp
  then show "uint w \<le> MaxInt64" by (simp add: MaxInt64_def)
  have "uint w < 2 ^ 64" using \<open>uint w < 2 ^ 32\<close> by simp
  then show "uint (ucast w :: u64) = uint w" by (simp add: unsigned_ucast_eq take_bit_int_eq_self)
qed

lemma widened_limit: "postgresInt64 (ucast (w :: u32) + 1) = Inr (int (Suc (unat w)))"
proof -
  have w: "uint w < 2 ^ 32" using unsigned_less [of w, where 'a = int] by simp
  then have "uint (ucast w + 1 :: u64) = uint w + 1" by (simp add: uint_word_ariths widened(1))
  then show ?thesis using w by (simp add: postgresInt64_def MaxInt64_def)
qed

lemma sort_filter_events:
  assumes R: "represented d bs db"
    and rel: "\<And>e r. event_rel e r \<Longrightarrow> P e = Q r" and clone: "\<And>e. P (cloneEvent e) = P e"
  shows "scanPostgresEvents d no_failures (take k (join_blocks sl_block_number db (sort_Slice newest_event (filter Q (d_events db))))) =
    Inr (take k (sort_Slice newest_first (filter P (map cloneEvent (all_events bs)))))"
proof -
  let ?es = "sort_Slice newest_first (filter P (all_events bs))" and ?rs = "sort_Slice newest_event (filter Q (d_events db))"
  have "list_all2 event_rel ?es ?rs"
    by (intro list_all2_sort list_all2_filter represented_facts(6) [OF R]) (auto simp: newest_rel rel)
  moreover have "set ?es \<subseteq> set (all_events bs)" by auto
  ultimately have "scanPostgresEvents d no_failures (take k (join_blocks sl_block_number db ?rs)) = Inr (map cloneEvent (take k ?es))"
    by (rule scan_page [OF R])
  moreover have "map cloneEvent ?es = sort_Slice newest_first (filter P (map cloneEvent (all_events bs)))"
    using sort_map [of newest_first cloneEvent, OF clone_orders(2)] clone by (simp add: filter_map comp_def)
  ultimately show ?thesis by (simp only: take_map [symmetric])
qed

lemma keyed_events: "stored_events (m\<lparr>m_bundles := keyed bs\<rparr>) = map cloneEvent (all_events bs)"
  unfolding stored_events_def by (induction bs) auto

lemma cursor_exists:
  assumes R: "represented d bs db" and inv: "memory_inv m" and ms: "mset (m_bundles m) = mset (keyed bs)"
  shows "canonicalCursorExists no_failures c db = Inr (cursor_current m (Some c))"
proof -
  note k = keyed_facts [OF inv ms] and F = represented_facts [OF R]
  have "list_ex (\<lambda>b. sb_number b = uint (ec_BlockNumber c) \<and> sb_hash b = be_bytes 32 (ec_BlockHash c)) (d_blocks db) \<longleftrightarrow>
      (\<exists>b \<in> set bs. bb_Number b = ec_BlockNumber c \<and> bb_Hash b = ec_BlockHash c)"
    using F(4) by (induction rule: list_all2_induct) (auto simp: block_row_Inr be_bytes_inj word_uint_eq_iff)
  also have "\<dots> \<longleftrightarrow> cursor_current m (Some c)"
  proof -
    have "distinct (map fst (keyed bs))" using k(1) by (simp add: comp_def)
    then have at: "map_of (keyed bs) n = Some x \<longleftrightarrow> (\<exists>b \<in> set bs. bb_Number b = n \<and> x = cloneBundle b)" for n x
      by (auto simp: map_of_eq_Some_iff)
    show ?thesis unfolding cursor_current_def k(2) option.case at by fastforce
  qed
  finally have 1: "list_ex (\<lambda>b. sb_number b = uint (ec_BlockNumber c) \<and> sb_hash b = be_bytes 32 (ec_BlockHash c)) (d_blocks db) =
      cursor_current m (Some c)" .
  have "uint (ec_BlockNumber c) \<le> MaxInt64" if cc: "cursor_current m (Some c)"
  proof -
    obtain r where r: "r \<in> set (d_blocks db)" "sb_number r = uint (ec_BlockNumber c)" using 1 cc by (auto simp: list_ex_iff)
    then obtain b where "block_rel b r" using list_all2_members(2) [OF F(4) r(1)] by blast
    then show ?thesis using r(2) by (auto simp: block_row_Inr)
  qed
  then show ?thesis using 1 by (auto simp: canonicalCursorExists_def postgresInt64_def)
qed

lemma address_page:
  assumes R: "represented d bs db" and inv: "memory_inv m" and ms: "mset (m_bundles m) = mset (keyed bs)"
    and limit: "q_Limit q \<noteq> 0" and current: "cursor_current m (q_Before q)"
  shows "queryAddressEventPage d no_failures q db =
    Inr (page_of (q_Limit q) (filter (\<lambda>e. eventBeforeCursor e (q_Before q)) (events_of m (q_Address q))))"
proof -
  let ?m = "m\<lparr>m_bundles := keyed bs\<rparr>" and ?k = "Suc (unat (q_Limit q))"
  let ?P = "\<lambda>e. e_Address e = q_Address q \<and> eventBeforeCursor e (q_Before q)"
  let ?es = "filter (\<lambda>e. eventBeforeCursor e (q_Before q)) (events_of m (q_Address q))"
  have "events_of ?m (q_Address q) = events_of m (q_Address q)" by (rule events_of_perm [OF inv ms [symmetric]])
  moreover have "distinct (map event_key (stored_events ?m))" by (rule distinct_stored_events [OF memory_inv_perm [OF inv ms [symmetric]]])
  ultimately have "events_of m (q_Address q) = filter (\<lambda>e. e_Address e = q_Address q) (sort_Slice newest_first (stored_events ?m))"
    "sort_Slice newest_first (filter ?P (stored_events ?m)) = filter ?P (sort_Slice newest_first (stored_events ?m))"
    using newest.sort_filter [of "stored_events ?m"] by (simp_all add: events_of_def)
  then have es: "sort_Slice newest_first (filter ?P (map cloneEvent (all_events bs))) = ?es"
    by (simp add: keyed_events conj_commute)
  have clone: "?P (cloneEvent e) = ?P e" for e by (simp add: eventBeforeCursor_def split: option.splits)
  have lim: "postgresInt64 (ucast (q_Limit q) + 1) = Inr (int ?k)" by (rule widened_limit)
  define rows where "rows = (case q_Before q of
      None \<Rightarrow> eventsByAddressQuery (be_bytes 20 (q_Address q)) ?k db
    | Some c \<Rightarrow> eventsByAddressBeforeQuery (be_bytes 20 (q_Address q)) (uint (ec_BlockNumber c)) (uint (ec_LogIndex c)) ?k db)"
  have scan: "scanPostgresEvents d no_failures rows = Inr (take ?k ?es)"
  proof (cases "q_Before q")
    case None
    have "e_Address e = q_Address q \<and> eventBeforeCursor e (q_Before q) \<longleftrightarrow> sl_emitter r = be_bytes 20 (q_Address q)" if "event_rel e r" for e r
      using that None by (auto simp: event_row_Inr be_bytes_inj eventBeforeCursor_def)
    from sort_filter_events [where P = ?P and Q = "\<lambda>r. sl_emitter r = be_bytes 20 (q_Address q)" and k = ?k, OF R this clone]
    show ?thesis by (simp add: rows_def None eventsByAddressQuery_def es [unfolded None])
  next
    case (Some c)
    have "e_Address e = q_Address q \<and> eventBeforeCursor e (q_Before q) \<longleftrightarrow> sl_emitter r = be_bytes 20 (q_Address q) \<and>
        (sl_block_number r < uint (ec_BlockNumber c) \<or> sl_block_number r = uint (ec_BlockNumber c) \<and> sl_log_index r < uint (ec_LogIndex c))"
      if "event_rel e r" for e r
      using that Some by (auto simp: event_row_Inr be_bytes_inj eventBeforeCursor_def word_less_def word_uint_eq_iff)
    from sort_filter_events [where P = ?P and k = ?k and Q = "\<lambda>r. sl_emitter r = be_bytes 20 (q_Address q) \<and>
        (sl_block_number r < uint (ec_BlockNumber c) \<or> sl_block_number r = uint (ec_BlockNumber c) \<and> sl_log_index r < uint (ec_LogIndex c))",
        OF R this clone]
    show ?thesis by (simp add: rows_def Some eventsByAddressBeforeQuery_def es [unfolded Some])
  qed
  have cur: "uint (ec_BlockNumber c) \<le> MaxInt64" if "q_Before q = Some c" for c
    using cursor_exists [OF R inv ms, of c] current that by (auto simp: canonicalCursorExists_def split: if_splits)
  have page: "(if length (take ?k ?es) \<le> unat (q_Limit q) then Inr \<lparr>p_Events = take ?k ?es, p_NextCursor = None\<rparr>
      else (let pageEvents = butlast (take ?k ?es) in Inr \<lparr>p_Events = pageEvents, p_NextCursor = Some (cursor_of (last pageEvents))\<rparr>)) =
    Inr (page_of (q_Limit q) ?es)"
    by (auto simp: page_of_def Let_def butlast_take)
  have "queryAddressEventPage d no_failures q db = bind (wrap ''scan events for address %s: %w'' (scanPostgresEvents d no_failures rows))
      (\<lambda>events. if length events \<le> unat (q_Limit q) then Inr \<lparr>p_Events = events, p_NextCursor = None\<rparr>
        else (let pageEvents = butlast events in Inr \<lparr>p_Events = pageEvents, p_NextCursor = Some (cursor_of (last pageEvents))\<rparr>))"
  proof (cases "q_Before q")
    case None
    then show ?thesis by (simp only: queryAddressEventPage_def rows_def limit lim bind_simps(1) quiet option.case if_False nat_int)
  next
    case (Some c)
    have "postgresInt64 (ec_BlockNumber c) = Inr (uint (ec_BlockNumber c))"
      "postgresInt64 (ucast (ec_LogIndex c)) = Inr (uint (ec_LogIndex c))"
      using cur [OF Some] widened [of "ec_LogIndex c"] by (simp_all add: postgresInt64_def)
    then show ?thesis
      by (simp only: queryAddressEventPage_def rows_def limit lim bind_simps(1) quiet option.case if_False nat_int Some)
  qed
  then show ?thesis by (simp only: scan wrap_simps(1) bind_simps(1) page)
qed

lemma EventsByAddress_agrees:
  assumes "agrees d m db"
  shows "Postgres_EventsByAddress d no_failures q db = Memory_EventsByAddress None q m"
proof -
  obtain bs where inv: "memory_inv m" and ms: "mset (m_bundles m) = mset (keyed bs)" and R: "represented d bs db"
    by (rule represented_agrees [OF assms])
  show ?thesis
  proof (cases "q_Limit q > MaxEventPageSize")
    case True
    then show ?thesis by (simp add: Postgres_EventsByAddress_def EventsByAddress_iff [OF inv])
  next
    case ok: False
    have page: "queryAddressEventPage d no_failures q db = (if q_Limit q = 0 then Inr \<lparr>p_Events = [], p_NextCursor = None\<rparr>
        else Inr (page_of (q_Limit q) (filter (\<lambda>e. eventBeforeCursor e (q_Before q)) (events_of m (q_Address q)))))"
      if "cursor_current m (q_Before q)"
      using address_page [OF R inv ms _ that] by (auto simp: queryAddressEventPage_def)
    show ?thesis
    proof (cases "q_Before q")
      case None
      then have "cursor_current m (q_Before q)" by (simp add: cursor_current_def)
      then show ?thesis using ok None page by (simp add: Postgres_EventsByAddress_def EventsByAddress_iff [OF inv])
    next
      case (Some c)
      then show ?thesis
        using ok page cursor_exists [OF R inv ms, of c]
        by (cases "cursor_current m (q_Before q)") (simp_all add: Postgres_EventsByAddress_def EventsByAddress_iff [OF inv])
    qed
  qed
qed

section \<open>Pages\<close>

text \<open>The pages of PostgreSQL keep the contract of \<open>Paging\<close>, with the agreeing in-memory store as the witness of what is stored.\<close>

interpretation pg_pages: event_pager "\<lambda>q s. Postgres_EventsByAddress d no_failures q (snd s)" "\<lambda>s. events_of (fst s)"
  "\<lambda>s. agrees d (fst s) (snd s)" for d
proof
  fix s :: "Memory \<times> Tables" and limit :: u32 and a i
  assume agr: "agrees d (fst s) (snd s)" and limit: "0 < limit" "limit \<le> MaxEventPageSize"
  then have inv: "memory_inv (fst s)" by (simp add: agrees_def)
  show "Postgres_EventsByAddress d no_failures \<lparr>q_Address = a, q_Limit = limit, q_Before = None\<rparr> (snd s) =
      Inr (page_of limit (events_of (fst s) a))"
    using mem_pages.first_page [OF inv limit] EventsByAddress_agrees [OF agr] by simp
  assume "i < length (events_of (fst s) a)"
  then show "Postgres_EventsByAddress d no_failures
        \<lparr>q_Address = a, q_Limit = limit, q_Before = Some (cursor_of (events_of (fst s) a ! i))\<rparr> (snd s) =
      Inr (page_of limit (drop (Suc i) (events_of (fst s) a)))"
    using mem_pages.next_page [OF inv limit] EventsByAddress_agrees [OF agr] by simp
qed

end
