(* ===== verification/Postgres_Accepts.thy ===== *)
theory Postgres_Accepts
  imports Postgres_Answers
begin

text \<open>
  What PostgreSQL accepts when no statement fails: exactly the updates that pass validation, that the
  agreeing in-memory store accepts, whose payloads are not \<open>nil\<close>, that leave no two blocks with one hash, and
  whose range starts above a stored block or at the low end of the window.
\<close>

section \<open>Every validated value fits its column\<close>

lemma validated_statement:
  assumes wf: "wf_bundle b" and ok: "validatePostgresBundle b = None" and q: "q \<in> set (bundle_queue b)"
  shows "\<exists>s. statement_of q = Inr s"
proof -
  note v = bundle_ok [OF ok]
  have blk: "\<exists>r. block_row (bb_Block b) = Inr r" and n: "uint (bb_Number b) \<le> MaxInt64"
    using v(1) wf by (auto simp: validatePostgresBlock_def wf_bundle_def wf_transactions_def block_row_Inr split: if_splits)
  have "\<exists>r. transaction_row t = Inr r" if "t \<in> set (bb_Transactions b)" for t
    using v(2) [OF that] by (auto simp: validatePostgresTransaction_def transaction_row_Inr simp del: first_error.simps split: if_splits)
  moreover have "\<exists>r. event_row e = Inr r" if e: "e \<in> set (bb_Events b)" for e
    using v(3) [OF e] wf_member(2) [OF wf e] n by (auto simp: validatePostgresEvent_def event_row_Inr split: if_splits)
  ultimately show ?thesis using q blk by (fastforce simp: bundle_queue_def statement_of_def)
qed

lemma validated_statements:
  assumes "\<forall>b \<in> set bs. wf_bundle b \<and> validatePostgresBundle b = None"
  shows "\<exists>sts. list_all2 (\<lambda>q s. statement_of q = Inr s) (concat (map bundle_queue bs)) sts"
proof -
  have "\<forall>q \<in> set (concat (map bundle_queue bs)). \<exists>s. statement_of q = Inr s"
    using assms validated_statement by fastforce
  moreover have "\<exists>sts. list_all2 (\<lambda>q s. statement_of q = Inr s) qs sts" if "\<forall>q \<in> set qs. \<exists>s. statement_of q = Inr s" for qs
    using that by (induction qs) (auto simp: list_all2_Cons1)
  ultimately show ?thesis by blast
qed

section \<open>Inserting in order\<close>

text \<open>A block comes before its transactions, and a transaction before its events.\<close>

fun ready :: "u64 set \<Rightarrow> hash set \<Rightarrow> queued list \<Rightarrow> bool" where
  "ready B T [] = True"
| "ready B T (Queue_block b # qs) = ready (insert (b_Number b) B) T qs"
| "ready B T (Queue_transaction t # qs) = (t_BlockNumber t \<in> B \<and> ready B (insert (t_Hash t) T) qs)"
| "ready B T (Queue_event e # qs) = (e_BlockNumber e \<in> B \<and> e_TransactionHash e \<in> T \<and> ready B T qs)"

lemma ready_mono: "ready B T qs \<Longrightarrow> B \<subseteq> B' \<Longrightarrow> T \<subseteq> T' \<Longrightarrow> ready B' T' qs"
proof (induction B T qs arbitrary: B' T' rule: ready.induct)
  case (2 B T b qs)
  then have "insert (b_Number b) B \<subseteq> insert (b_Number b) B'" by auto
  then show ?case using "2.IH" [of "insert (b_Number b) B'" T'] "2.prems" by simp
next
  case (3 B T t qs)
  then have "insert (t_Hash t) T \<subseteq> insert (t_Hash t) T'" by auto
  then show ?case using "3.IH" [of B' "insert (t_Hash t) T'"] "3.prems" by auto
qed auto

lemma ready_events: "(\<forall>e \<in> set es. e_BlockNumber e \<in> B \<and> e_TransactionHash e \<in> T) \<Longrightarrow> ready B T qs \<Longrightarrow> ready B T (map Queue_event es @ qs)"
  by (induction es) auto

lemma ready_transactions:
  "(\<forall>t \<in> set ts. t_BlockNumber t \<in> B) \<Longrightarrow> ready B (T \<union> t_Hash ` set ts) qs \<Longrightarrow> ready B T (map Queue_transaction ts @ qs)"
  by (induction ts arbitrary: T) (auto simp: Un_commute insert_commute)

lemma ready_bundles: "\<forall>b \<in> set bs. wf_bundle b \<Longrightarrow> ready {} {} (concat (map bundle_queue bs))"
proof (induction bs)
  case (Cons b bs)
  let ?qs = "concat (map bundle_queue bs)" and ?B = "{bb_Number b}" and ?T = "t_Hash ` set (bb_Transactions b)"
  have wf: "wf_bundle b" using Cons.prems by simp
  have "ready ?B ?T ?qs" by (rule ready_mono [of "{}" "{}"]) (use Cons in auto)
  then have "ready ?B ?T (map Queue_event (bb_Events b) @ ?qs)"
    by (rule ready_events [rotated]) (use wf_member(2) [OF wf] in auto)
  then have "ready ?B {} (map Queue_transaction (bb_Transactions b) @ map Queue_event (bb_Events b) @ ?qs)"
    by (intro ready_transactions) (use wf_member(1) [OF wf] in auto)
  then show ?case by (simp add: bundle_queue_def [of b])
qed simp

definition row_checked :: "statement \<Rightarrow> bool" where
  "row_checked s = (case s of Insert_block r \<Rightarrow> check_block r | Insert_transaction r \<Rightarrow> check_transaction r | Insert_event r \<Rightarrow> check_event r)"

definition transaction_key :: "sql_transaction \<Rightarrow> int \<times> int" where
  "transaction_key r = (sx_block_number r, sx_transaction_index r)"

definition row_event_key :: "sql_event \<Rightarrow> int \<times> int" where
  "row_event_key r = (sl_block_number r, sl_log_index r)"

text \<open>The keys of the tables and of the rows to come are all different.\<close>

definition keys_distinct :: "statement list \<Rightarrow> Tables \<Rightarrow> bool" where
  "keys_distinct sts db \<longleftrightarrow>
     distinct (map sb_number (d_blocks db @ block_rows sts)) \<and> distinct (map sb_hash (d_blocks db @ block_rows sts)) \<and>
     distinct (map sx_hash (d_transactions db @ transaction_rows sts)) \<and>
     distinct (map transaction_key (d_transactions db @ transaction_rows sts)) \<and>
     distinct (map row_event_key (d_events db @ event_rows sts))"

lemma rows_simps [simp]:
  "transaction_rows [] = []" "transaction_rows (Insert_block b # sts) = transaction_rows sts"
  "transaction_rows (Insert_transaction r # sts) = r # transaction_rows sts" "transaction_rows (Insert_event e # sts) = transaction_rows sts"
  "event_rows [] = []" "event_rows (Insert_block b # sts) = event_rows sts"
  "event_rows (Insert_transaction r # sts) = event_rows sts" "event_rows (Insert_event e # sts) = e # event_rows sts"
  by (simp_all add: rows_defs)

lemma execute_ready:
  "list_all2 (\<lambda>q s. statement_of q = Inr s) qs sts \<Longrightarrow> ready B T qs \<Longrightarrow> list_all row_checked sts \<Longrightarrow> keys_distinct sts db \<Longrightarrow>
   uint ` B \<subseteq> sb_number ` set (d_blocks db) \<Longrightarrow> be_bytes 32 ` T \<subseteq> sx_hash ` set (d_transactions db) \<Longrightarrow>
   \<exists>db'. execute_all sts db = Inr db'"
proof (induction qs sts arbitrary: B T db rule: list_all2_induct)
  case (Cons q qs s sts)
  show ?case
  proof (cases q)
    case (Queue_block b)
    then obtain r where r: "s = Insert_block r" "block_row b = Inr r" using Cons.hyps(1) by (auto simp: statement_of_def)
    let ?db = "db\<lparr>d_blocks := d_blocks db @ [r]\<rparr>"
    have "execute s db = Inr ?db"
      using Cons.prems(2,3) by (auto simp: r(1) execute_def insert_block_def row_checked_def keys_distinct_def)
    moreover have "\<exists>db'. execute_all sts ?db = Inr db'"
      by (rule Cons.IH [of "insert (b_Number b) B" T])
        (use Cons.prems Queue_block r in \<open>auto simp: keys_distinct_def block_row_Inr\<close>)
    ultimately show ?thesis by simp
  next
    case (Queue_transaction t)
    then obtain r where r: "s = Insert_transaction r" "transaction_row t = Inr r" using Cons.hyps(1) by (auto simp: statement_of_def)
    let ?db = "db\<lparr>d_transactions := d_transactions db @ [r]\<rparr>"
    have "sx_block_number r \<in> sb_number ` set (d_blocks db)"
      using Cons.prems(1,4) r(2) Queue_transaction by (auto simp: transaction_row_Inr)
    then have "execute s db = Inr ?db"
      using Cons.prems(2,3)
      by (auto simp: r(1) execute_def insert_transaction_def row_checked_def keys_distinct_def transaction_key_def [abs_def])
    moreover have "\<exists>db'. execute_all sts ?db = Inr db'"
      by (rule Cons.IH [of B "insert (t_Hash t) T"])
        (use Cons.prems Queue_transaction r in \<open>auto simp: keys_distinct_def transaction_row_Inr\<close>)
    ultimately show ?thesis by simp
  next
    case (Queue_event e)
    then obtain r where r: "s = Insert_event r" "event_row e = Inr r" using Cons.hyps(1) by (auto simp: statement_of_def)
    let ?db = "db\<lparr>d_events := d_events db @ [r]\<rparr>"
    have "sl_block_number r \<in> sb_number ` set (d_blocks db)" "sl_transaction_hash r \<in> sx_hash ` set (d_transactions db)"
      using Cons.prems(1,4,5) r(2) Queue_event by (auto simp: event_row_Inr)
    then have "execute s db = Inr ?db"
      using Cons.prems(2,3) by (auto simp: r(1) execute_def insert_event_def row_checked_def keys_distinct_def row_event_key_def [abs_def])
    moreover have "\<exists>db'. execute_all sts ?db = Inr db'"
      by (rule Cons.IH [of B T]) (use Cons.prems Queue_event r in \<open>auto simp: keys_distinct_def\<close>)
    ultimately show ?thesis by simp
  qed
qed simp

section \<open>Rows that pass their constraints\<close>

text \<open>The fetcher never leaves a payload \<open>nil\<close>; the columns are \<open>NOT NULL\<close>.\<close>

definition payloads_present :: "BlockBundle \<Rightarrow> bool" where
  "payloads_present b \<longleftrightarrow> (\<forall>t \<in> set (bb_Transactions b). t_Input t \<noteq> None) \<and> (\<forall>e \<in> set (bb_Events b). e_Data e \<noteq> None)"

lemma uint256_column: "validateUint256 name v required = None \<Longrightarrow> wei_column v \<and> (required \<longrightarrow> v \<noteq> None)"
  by (auto simp: validateUint256_None wei_column_def split: option.splits)

lemma statement_checked:
  assumes wf: "wf_bundle b" and ok: "validatePostgresBundle b = None" and present: "payloads_present b"
    and q: "q \<in> set (bundle_queue b)" and s: "statement_of q = Inr s"
  shows "row_checked s"
proof -
  note v = bundle_ok [OF ok]
  consider "q = Queue_block (bb_Block b)" | t where "q = Queue_transaction t" "t \<in> set (bb_Transactions b)"
    | e where "q = Queue_event e" "e \<in> set (bb_Events b)" using q by (auto simp: bundle_queue_def)
  then show ?thesis
  proof cases
    case 1
    have "validateUint256 ''block base fee'' (b_BaseFeePerGas (bb_Block b)) False = None"
      using v(1) by (auto simp: validatePostgresBlock_def split: if_splits)
    then show ?thesis using s 1 uint256_column by (auto simp: statement_of_def row_checked_def check_block_def block_row_Inr)
  next
    case 2
    have n: "validateUint256 ''transaction value'' (t_Value t) True = None"
      "validateUint256 ''transaction gas price'' (t_GasPrice t) False = None"
      "validateUint256 ''transaction max fee'' (t_MaxFeePerGas t) False = None"
      "validateUint256 ''transaction max priority fee'' (t_MaxPriorityFeePerGas t) False = None"
      using v(2) [OF 2(2)] by (auto simp: validatePostgresTransaction_def simp del: first_error.simps split: if_splits)
    have "uint (t_Type t) \<le> 255" using unsigned_less [of "t_Type t", where 'a = int] by simp
    moreover have "t_Input t \<noteq> None" using present 2(2) by (auto simp: payloads_present_def)
    ultimately show ?thesis
      using s 2(1) uint256_column [OF n(1)] uint256_column [OF n(2)] uint256_column [OF n(3)]
        uint256_column [OF n(4)]
      by (auto simp: statement_of_def row_checked_def check_transaction_def transaction_row_Inr postgresAddress_def split: option.splits)
  next
    case 3
    have "length (e_Topics e) \<le> 4" using wf_member(2) [OF wf 3(2)] by blast
    moreover have "e_Data e \<noteq> None" using present 3(2) by (auto simp: payloads_present_def)
    ultimately show ?thesis using s 3(1) by (auto simp: statement_of_def row_checked_def check_event_def event_row_Inr)
  qed
qed

lemma statements_checked:
  assumes "\<forall>b \<in> set bs. wf_bundle b \<and> validatePostgresBundle b = None \<and> payloads_present b"
    and "list_all2 (\<lambda>q s. statement_of q = Inr s) (concat (map bundle_queue bs)) sts"
  shows "list_all row_checked sts"
  unfolding list_all_iff
proof
  fix s assume "s \<in> set sts"
  then obtain q where "q \<in> set (concat (map bundle_queue bs))" "statement_of q = Inr s"
    using list_all2_members(2) [OF assms(2)] by blast
  moreover from this obtain b where "b \<in> set bs" "q \<in> set (bundle_queue b)" by auto
  ultimately show "row_checked s" using statement_checked assms(1) by blast
qed

section \<open>Keys\<close>

lemma distinct_rows:
  assumes "list_all2 R xs rs" and "\<And>x r. R x r \<Longrightarrow> g r = h (f x)" and "inj h" and "distinct (map f xs)"
  shows "distinct (map g rs)"
proof -
  have "map g rs = map h (map f xs)" using assms(1) by (induction rule: list_all2_induct) (auto simp: assms(2))
  then show ?thesis using assms(3,4) by (metis distinct_map inj_on_subset subset_UNIV)
qed

lemma inj_uint: "inj (uint :: 'a::len word \<Rightarrow> int)"
  by (auto simp: inj_def word_uint_eq_iff)

lemma inj_uint_pair: "inj (map_prod uint uint :: 'a::len word \<times> 'b::len word \<Rightarrow> int \<times> int)"
  by (auto simp: inj_def word_uint_eq_iff)

lemma distinct_positions:
  assumes "\<forall>b \<in> set bs. wf_bundle b" and "distinct (map bb_Number bs)"
  shows "distinct (map (\<lambda>t. (t_BlockNumber t, t_Index t)) (all_transactions bs))"
  using assms
proof (induction bs)
  case (Cons b bs)
  have wf: "wf_bundle b" "\<forall>c \<in> set bs. wf_bundle c" using Cons.prems by auto
  have "t_Index (bb_Transactions b ! i) \<noteq> t_Index (bb_Transactions b ! j)"
    if "i < length (bb_Transactions b)" "j < length (bb_Transactions b)" "i \<noteq> j" for i j
  proof -
    have len: "int (length (bb_Transactions b)) \<le> MaxUint32" and idx: "\<forall>i < length (bb_Transactions b). t_Index (bb_Transactions b ! i) = of_nat i"
      using wf(1) by (auto simp: wf_bundle_def wf_transactions_def)
    have "unat (of_nat k :: u32) = k" if "k < length (bb_Transactions b)" for k
      using that len by (simp add: unsigned_of_nat take_bit_nat_eq_self MaxUint32_def)
    then show ?thesis using that idx by metis
  qed
  then have "distinct (map (\<lambda>t. (t_BlockNumber t, t_Index t)) (bb_Transactions b))" by (auto simp: distinct_conv_nth)
  moreover have "(t_BlockNumber s, t_Index s) \<noteq> (t_BlockNumber t, t_Index t)"
    if "s \<in> set (bb_Transactions b)" "c \<in> set bs" "t \<in> set (bb_Transactions c)" for s t c
    using that wf_member(1) [OF wf(1)] wf_member(1) [of c t] wf(2) Cons.prems(2) by fastforce
  moreover have "distinct (map (\<lambda>t. (t_BlockNumber t, t_Index t)) (all_transactions bs))" using Cons by simp
  ultimately show ?case by fastforce
qed simp

lemma keys_of_bundles:
  assumes rep: "represents kept db" and sts: "list_all2 (\<lambda>q s. statement_of q = Inr s) (concat (map bundle_queue new)) sts"
    and wf: "\<forall>b \<in> set (kept @ new). wf_bundle b" and numbers: "distinct (map bb_Number (kept @ new))"
    and hashes: "distinct (map bb_Hash (kept @ new))" and txs: "distinct (map t_Hash (all_transactions (kept @ new)))"
    and events: "distinct (map event_key (all_events (kept @ new)))"
  shows "keys_distinct sts db"
proof -
  have b: "list_all2 block_rel (kept @ new) (d_blocks db @ block_rows sts)"
    using rep statements_blocks [OF sts] by (simp add: represents_def list_all2_appendI)
  have t: "list_all2 transaction_rel (all_transactions (kept @ new)) (d_transactions db @ transaction_rows sts)"
    and e: "list_all2 event_rel (all_events (kept @ new)) (d_events db @ event_rows sts)"
    using rep statements_rows [OF sts] by (simp_all add: represents_def list_all2_appendI queued_bundles)
  have bytes: "inj (be_bytes 32 :: hash \<Rightarrow> bytes)" by (auto simp: inj_def be_bytes_inj)
  have "distinct (map sb_number (d_blocks db @ block_rows sts))"
    by (rule distinct_rows [OF b _ inj_uint numbers]) (auto simp: block_row_Inr)
  moreover have "distinct (map sb_hash (d_blocks db @ block_rows sts))"
    by (rule distinct_rows [OF b _ bytes hashes]) (auto simp: block_row_Inr)
  moreover have "distinct (map sx_hash (d_transactions db @ transaction_rows sts))"
    by (rule distinct_rows [OF t _ bytes txs]) (auto simp: transaction_row_Inr)
  moreover have "distinct (map transaction_key (d_transactions db @ transaction_rows sts))"
    by (rule distinct_rows [OF t _ inj_uint_pair distinct_positions [OF wf numbers]]) (auto simp: transaction_row_Inr transaction_key_def)
  moreover have "distinct (map row_event_key (d_events db @ event_rows sts))"
    by (rule distinct_rows [OF e _ inj_uint_pair events]) (auto simp: event_row_Inr row_event_key_def event_key_def)
  ultimately show ?thesis by (simp add: keys_distinct_def)
qed

section \<open>Updates that commit\<close>

definition hashes_distinct :: "chain \<Rightarrow> bool" where
  "hashes_distinct C \<longleftrightarrow> (\<forall>n k h p q. C n = Some (h, p) \<longrightarrow> C k = Some (h, q) \<longrightarrow> n = k)"

text \<open>PostgreSQL wants the block below the replaced range; the in-memory store takes a range without one.\<close>

definition parent_kept :: "CanonicalUpdate \<Rightarrow> chain \<Rightarrow> bool" where
  "parent_kept u C \<longleftrightarrow> u_Blocks u = [] \<or> u_ReplaceFrom u = u_RetainFrom u \<or> C (u_ReplaceFrom u - 1) \<noteq> None"

lemma quiet_update [simp]:
  "pe_lock no_failures = None" "pe_chain no_failures = None" "pe_delete no_failures = None" "pe_parent no_failures = None"
  "pe_batch no_failures k = None" "pe_tip no_failures = None" "pe_sync no_failures = None"
  by (simp_all add: no_failures_def)

lemma tip_readable:
  assumes blocks: "list_all2 block_rel bs (d_blocks db)" and d: "drivers_ok d"
  shows "canonicalTipInTransaction d no_failures db = Inr None \<or>
    (\<exists>n h. canonicalTipInTransaction d no_failures db = Inr (Some \<lparr>tip_Number = n, tip_Hash = h\<rparr>) \<and> uint n \<le> MaxInt64)"
proof (cases "canonicalTipQuery db")
  case (Some r)
  obtain rs where "sort_Slice higher (d_blocks db) = r # rs" using Some by (auto simp: canonicalTipQuery_def split: list.splits)
  then have "set (d_blocks db) = set (r # rs)" by (metis set_sort_Slice)
  then have "r \<in> set (d_blocks db)" by simp
  then obtain b where "block_rel b r" using list_all2_members(2) [OF blocks] by blast
  then have "sb_hash r = be_bytes 32 (bb_Hash b)" "sb_number r = uint (bb_Number b)" "uint (bb_Number b) \<le> MaxInt64"
    by (auto simp: block_row_Inr)
  then show ?thesis using Some by (simp add: canonicalTipInTransaction_def decodeHash_bytes [OF d])
qed (simp add: canonicalTipInTransaction_def)

lemma sync_state_written:
  assumes "u_ChainID u \<noteq> 0" and "uint (u_ChainID u) \<le> MaxInt64"
    and "tip = None \<or> (\<exists>n h. tip = Some \<lparr>tip_Number = n, tip_Hash = h\<rparr> \<and> uint n \<le> MaxInt64)"
  shows "\<exists>db'. writeSyncState no_failures u tip db = Inr db'"
proof -
  have pos: "0 < uint (u_ChainID u)" using assms(1) by (simp add: order_less_le uint_0_iff)
  define number where "number = map_option (\<lambda>t. uint (tip_Number t)) tip"
  let ?row = "\<lparr>ss_chain_id = uint (u_ChainID u), ss_last_number = number,
    ss_last_hash = map_option (\<lambda>t. be_bytes 32 (tip_Hash t)) tip, ss_last_sync_at = timestamptz (u_SyncedAt u)\<rparr>"
  have tip: "(case tip of None \<Rightarrow> Inr None | Some t \<Rightarrow> bind (postgresInt64 (tip_Number t)) (\<lambda>n. Inr (Some n))) = Inr number"
    using assms(3) by (auto simp: number_def)
  have chain: "postgresInt64 (u_ChainID u) = Inr (uint (u_ChainID u))" using assms(2) by simp
  have "check_sync_state ?row"
    using pos by (auto simp: check_sync_state_def non_negative_def number_def split: option.splits)
  then have "\<exists>db'. upsertSyncStateQuery ?row db = Inr db'" by (simp add: upsertSyncStateQuery_def)
  moreover have "writeSyncState no_failures u tip db = wrap ''write canonical sync state: %w'' (upsertSyncStateQuery ?row db)"
    by (simp only: writeSyncState_def tip chain bind_simps(1) quiet_update quiet)
  ultimately show ?thesis by (metis wrap_simps(1))
qed

lemma same_chain_accepted:
  assumes sync: "map ss_chain_id (d_sync_state db) = (if m_chainID m = 0 then [] else [uint (m_chainID m)])"
    and same: "m_chainID m = 0 \<or> m_chainID m = u_ChainID u" and "uint (u_ChainID u) \<le> MaxInt64"
  shows "rejectDifferentChain no_failures (u_ChainID u) db = Inr ()"
proof -
  have "other_chain (uint (u_ChainID u)) db = None"
    using sync same by (cases "m_chainID m = 0") (auto simp: other_chain_def)
  then show ?thesis using assms(3) by (simp add: rejectDifferentChain_def)
qed

lemma parent_accepted:
  assumes d: "drivers_ok d" and bs: "represents kept db" "kept = filter (\<lambda>b. u_RetainFrom u \<le> bb_Number b \<and> bb_Number b < u_ReplaceFrom u) bs"
    and le: "u_RetainFrom u \<le> u_ReplaceFrom u" and max: "uint (u_ReplaceFrom u) \<le> MaxInt64"
    and cons: "consecutive_from (u_ReplaceFrom u) (u_Blocks u)"
    and linked: "linked_chain (map_option header \<circ> map_of (keyed (kept @ u_Blocks u)))"
    and parent: "parent_kept u (map_option header \<circ> map_of (keyed bs))"
  shows "validateRetainedParent d no_failures u db = Inr ()"
proof (cases "u_Blocks u = [] \<or> u_ReplaceFrom u = u_RetainFrom u")
  case True
  then show ?thesis by (auto simp: validateRetainedParent_def split: list.splits)
next
  case False
  then obtain b new where new: "u_Blocks u = b # new" by (cases "u_Blocks u") auto
  let ?prev = "u_ReplaceFrom u - 1" and ?C = "map_option header \<circ> map_of (keyed (kept @ u_Blocks u))"
  have "u_ReplaceFrom u \<noteq> 0" using False le by auto
  then have num: "unat ?prev = unat (u_ReplaceFrom u) - 1" "0 < unat (u_ReplaceFrom u)"
    using unat_minus_one [of "u_ReplaceFrom u"] by (simp_all add: unat_gt_0)
  have "u_RetainFrom u < u_ReplaceFrom u" using False le by (auto simp: order_less_le)
  then have lt: "unat (u_RetainFrom u) < unat (u_ReplaceFrom u)" by (simp add: word_less_nat_alt)
  then have range: "u_RetainFrom u \<le> ?prev" "?prev < u_ReplaceFrom u" using num by (simp_all add: word_le_nat_alt word_less_nat_alt)
  obtain x where x: "map_of (keyed bs) ?prev = Some x" using parent False by (auto simp: parent_kept_def)
  then obtain c where c: "c \<in> set bs" "bb_Number c = ?prev" using map_of_SomeD [OF x] by auto
  then have "c \<in> set kept" using range by (simp add: bs(2))
  then have "map_of (keyed kept) (bb_Number c) \<noteq> None" by (simp add: map_of_eq_None_iff image_image)
  then obtain k where k: "map_of (keyed kept) ?prev = Some k" using c(2) by auto
  have "\<forall>n \<in> set (u_Blocks u). ?prev < bb_Number n" using consecutive_from_ge [OF cons] range(2) by (metis order.strict_trans2)
  then have "map_of (keyed (u_Blocks u)) ?prev = None" by (auto simp: map_of_eq_None_iff)
  then have prev: "?C ?prev = Some (header k)" using k by (simp add: map_add_def)
  have "bb_Number b = u_ReplaceFrom u" using cons new by simp
  moreover have "map_of (keyed kept) (u_ReplaceFrom u) = None" by (auto simp: map_of_eq_None_iff bs(2))
  ultimately have "?C (?prev + 1) = Some (header b)" by (simp add: new map_add_def)
  moreover have "?prev \<noteq> MaxUint64" using range(2) by (rule less_imp_neq_MaxUint64)
  ultimately have "bb_ParentHash b = bb_Hash k" using linked prev unfolding linked_chain_def header_def by blast
  moreover have "pg_chain db ?prev = Some (header k)" using represents_chain [OF bs(1)] k by simp
  then obtain r where r: "find (\<lambda>r. sb_number r = uint ?prev) (d_blocks db) = Some r" "be_word (sb_hash r) = bb_Hash k"
    by (auto simp: pg_chain_def rows_chain_def row_header_def header_def)
  have "list_all2 block_rel kept (d_blocks db)" using bs(1) by (simp add: represents_def)
  from find_block_row(2) [OF this r(1)] have "length (sb_hash r) = 32" by (auto simp: block_row_Inr)
  then have "decodeHash d (sb_hash r) = Inr (bb_Hash k)" using d r(2) by (simp add: decodeHash_def drivers_ok_def)
  moreover have "uint ?prev \<le> MaxInt64" using range(2) max by (simp add: word_less_def)
  ultimately show ?thesis using False r(1) new by (simp add: validateRetainedParent_def canonicalHashQuery_def)
qed

lemma canonical_hashes:
  assumes inv: "memory_inv m" and ms: "mset (m_bundles m) = mset (keyed bs)"
  shows "distinct (map t_Hash (all_transactions bs))"
proof -
  note k = keyed_facts [OF inv ms]
  have at: "map_of (m_bundles m) (bb_Number b) = Some (cloneBundle b)" if "b \<in> set bs" for b
    unfolding k(2) using that k(1) by (intro map_of_is_SomeI) (auto simp: comp_def)
  have "distinct (map t_Hash (all_transactions cs))" if "set cs \<subseteq> set bs" "distinct (map bb_Number cs)" for cs
    using that
  proof (induction cs)
    case (Cons c cs)
    have c: "c \<in> set bs" using Cons.prems(1) by simp
    have "distinct (map t_Hash (bb_Transactions c))" using k(3) c by (simp add: wf_bundle_def wf_transactions_def)
    moreover have "t_Hash ` set (bb_Transactions c) \<inter> t_Hash ` set (bb_Transactions e) = {}" if e: "e \<in> set cs" for e
    proof -
      have ne: "bb_Number e \<noteq> bb_Number c" "e \<in> set bs" using Cons.prems e by (auto simp: image_iff)
      show ?thesis using tx_block_unique [OF inv at [OF c] at [OF ne(2)]] ne(1) by (auto simp: image_image)
    qed
    ultimately show ?case using Cons by fastforce
  qed simp
  then show ?thesis using k(1) by blast
qed

lemma hash_distinct_bundles:
  assumes "distinct (map bb_Number bs)" and "hashes_distinct (map_option header \<circ> map_of (keyed bs))"
  shows "distinct (map bb_Hash bs)"
proof -
  have at: "(map_option header \<circ> map_of (keyed bs)) (bb_Number b) = Some (bb_Hash b, bb_ParentHash b)" if b: "b \<in> set bs" for b
  proof -
    have "map_of (keyed bs) (bb_Number b) = Some (cloneBundle b)" using b assms(1) by (intro map_of_is_SomeI) (auto simp: comp_def)
    then show ?thesis by (simp add: header_def)
  qed
  have "inj_on bb_Hash (set bs)"
  proof (rule inj_onI)
    fix b c assume "b \<in> set bs" "c \<in> set bs" "bb_Hash b = bb_Hash c"
    then have "bb_Number b = bb_Number c"
      using assms(2) [unfolded hashes_distinct_def, rule_format, OF at [of b], of "bb_Number c" "bb_ParentHash c"] at [of c] by simp
    then show "b = c" using assms(1) \<open>b \<in> set bs\<close> \<open>c \<in> set bs\<close> by (auto simp: distinct_map inj_on_def)
  qed
  then show ?thesis using assms(1) by (simp add: distinct_map)
qed

lemma accepted_commits:
  assumes agr: "agrees d m db" and valid: "validatePostgresUpdate u = None"
    and app: "Memory_ApplyCanonicalUpdate None u m = (None, m')" and present: "\<forall>b \<in> set (u_Blocks u). payloads_present b"
    and hashes: "hashes_distinct (memory_chain m')" and parent: "parent_kept u (memory_chain m)"
  shows "\<exists>db3 sent. update_transaction d no_failures u db = Inr (db3, sent)"
proof -
  have inv: "memory_inv m" and pg: "pg_inv d db" and d: "drivers_ok d"
    and sync: "map ss_chain_id (d_sync_state db) = (if m_chainID m = 0 then [] else [uint (m_chainID m)])"
    using agr by (auto simp: agrees_def pg_inv_def)
  obtain bs where ms: "mset (m_bundles m) = mset (keyed bs)" and rep: "represents bs db"
    and ok: "\<forall>b \<in> set bs. validatePostgresBundle b = None" using agr by (auto simp: agrees_def)
  note k = keyed_facts [OF inv ms] and v = validatePostgresUpdate_None [OF valid] and fin = Memory_Apply_chain(1) [OF inv app refl]
  define kept where "kept = filter (\<lambda>b. u_RetainFrom u \<le> bb_Number b \<and> bb_Number b < u_ReplaceFrom u) bs"
  note upd = update_keyed [OF v(3) k(1), folded kept_def]
  have inv': "memory_inv m'" by (rule Memory_Apply_inv [OF inv app])
  have M': "map_of (m_bundles m') = map_of (keyed (kept @ u_Blocks u))" using fin k(2) upd(2) by simp
  then have ms': "mset (m_bundles m') = mset (keyed (kept @ u_Blocks u))" using fin upd(1) by (intro mset_of_map) (simp_all add: comp_def)
  note k' = keyed_facts [OF inv' ms']
  have chains: "memory_chain m = map_option header \<circ> map_of (keyed bs)" "memory_chain m' = map_option header \<circ> map_of (keyed (kept @ u_Blocks u))"
    by (simp_all add: memory_chain_def fun_eq_iff k(2) M')
  let ?db = "deleteCanonicalRangeQuery (uint (u_ReplaceFrom u)) (uint (u_RetainFrom u)) db"
  let ?gone = "\<lambda>number. number \<ge> uint (u_ReplaceFrom u) \<or> number < uint (u_RetainFrom u)"
  have "filter (\<lambda>b. \<not> ?gone (uint (bb_Number b))) bs = kept"
    unfolding kept_def by (rule filter_cong) (auto simp: word_le_def word_less_def)
  then have rep1: "represents kept ?db" using delete_represents [OF rep k(3), of ?gone] by (simp add: deleteCanonicalRangeQuery_def)
  have new: "\<forall>b \<in> set (u_Blocks u). wf_bundle b \<and> validatePostgresBundle b = None \<and> payloads_present b"
    using k'(3) v(5) present by auto
  obtain sts where sts: "list_all2 (\<lambda>q s. statement_of q = Inr s) (concat (map bundle_queue (u_Blocks u))) sts"
    using validated_statements [of "u_Blocks u"] new by blast
  have "keys_distinct sts ?db"
  proof (rule keys_of_bundles [OF rep1 sts k'(3) upd(1)])
    show "distinct (map bb_Hash (kept @ u_Blocks u))" using hash_distinct_bundles [OF upd(1)] hashes chains(2) by simp
    let ?m = "m'\<lparr>m_bundles := keyed (kept @ u_Blocks u)\<rparr>"
    have "distinct (map event_key (stored_events ?m))" by (rule distinct_stored_events [OF memory_inv_perm [OF inv' ms' [symmetric]]])
    then show "distinct (map event_key (all_events (kept @ u_Blocks u)))" 
      by (simp only: keyed_events map_map event_key_def [abs_def] comp_def cloneEvent_sel)
    show "distinct (map t_Hash (all_transactions (kept @ u_Blocks u)))" by (rule canonical_hashes [OF inv' ms'])
  qed
  then obtain db2 where "execute_all sts ?db = Inr db2"
    using execute_ready [OF sts ready_bundles [of "u_Blocks u"] statements_checked [OF new sts]] new by blast
  then obtain sent where ins: "insertCanonicalBundles no_failures (u_Blocks u) ?db = Inr (db2, sent)"
    using insert_queued_complete [of no_failures "concat (map bundle_queue (u_Blocks u))" sts "[]" ?db db2] sts
    by (cases "u_Blocks u = []") (auto simp: insertCanonicalBundles_def)
  have u: "u_ChainID u \<noteq> 0" "uint (u_ChainID u) \<le> MaxInt64" "uint (u_RetainFrom u) \<le> MaxInt64"
    using valid by (auto simp: validatePostgresUpdate_def split: if_splits)
  have "distinct (map sb_number (d_blocks ?db))" "distinct (map sx_hash (d_transactions ?db))"
    using pg agr by (auto simp: pg_inv_def agrees_def deleteCanonicalRangeQuery_def delete_blocks_def Let_def distinct_map_filter)
  then have "represents (kept @ u_Blocks u) db2" using insert_represents [OF rep1 ins] by blast
  then obtain tip where tip: "canonicalTipInTransaction d no_failures db2 = Inr tip"
    "tip = None \<or> (\<exists>n h. tip = Some \<lparr>tip_Number = n, tip_Hash = h\<rparr> \<and> uint n \<le> MaxInt64)"
    using tip_readable [OF _ d, of "kept @ u_Blocks u" db2] by (auto simp: represents_def)
  obtain db3 where "writeSyncState no_failures u tip db2 = Inr db3" using sync_state_written [OF u(1,2) tip(2)] by blast
  moreover have "rejectDifferentChain no_failures (u_ChainID u) db = Inr ()"
    using same_chain_accepted [OF sync _ u(2)] fin by (auto simp: update_accepted_def)
  moreover have "validateRetainedParent d no_failures u ?db = Inr ()"
    using parent_accepted [OF d rep1 kept_def v(1,2,3)] mem.chain_linked [OF inv'] parent chains by simp
  ultimately show ?thesis using u(3) v(2) tip(1) ins by (simp add: update_transaction_def Let_def)
qed

lemma Postgres_accepts:
  assumes agr: "agrees d m db" and valid: "validatePostgresUpdate u = None"
    and app: "Memory_ApplyCanonicalUpdate None u m = (None, m')" and present: "\<forall>b \<in> set (u_Blocks u). payloads_present b"
    and hashes: "hashes_distinct (memory_chain m')" and parent: "parent_kept u (memory_chain m)"
  shows "\<exists>db'. Postgres_ApplyCanonicalUpdate d no_failures u db = (None, db') \<and> agrees d m' db'"
proof -
  obtain db3 sent where run: "update_transaction d no_failures u db = Inr (db3, sent)"
    using accepted_commits [OF assms] by blast
  then have "agrees d m' db3" using commit_agrees [OF agr valid run] app by simp
  then show ?thesis using run valid by (simp add: Postgres_ApplyCanonicalUpdate_def)
qed

section \<open>What a committed update tells\<close>

text \<open>Every statement that was executed passed the constraints of its row, and block hashes stay unique.\<close>

lemma execute_all_checked: "execute_all sts db = Inr db' \<Longrightarrow> list_all row_checked sts"
proof (induction sts arbitrary: db)
  case (Cons s sts)
  then obtain db1 where db1: "execute s db = Inr db1" "execute_all sts db1 = Inr db'" by auto
  then have "row_checked s"
    by (cases s) (auto simp: execute_def insert_block_def insert_transaction_def insert_event_def row_checked_def split: if_splits)
  then show ?case using Cons.IH [OF db1(2)] by simp
qed simp

lemma execute_all_hashes:
  "execute_all sts db = Inr db' \<Longrightarrow> distinct (map sb_hash (d_blocks db)) \<Longrightarrow> distinct (map sb_hash (d_blocks db'))"
proof (induction sts arbitrary: db)
  case (Cons s sts)
  then obtain db1 where db1: "execute s db = Inr db1" "execute_all sts db1 = Inr db'" by auto
  have "distinct (map sb_hash (d_blocks db1))"
    using db1(1) Cons.prems(2)
    by (cases s) (auto simp: execute_def insert_block_def insert_transaction_def insert_event_def split: if_splits)
  then show ?case using Cons.IH [OF db1(2)] by simp
qed simp

lemma checked_payloads:
  assumes "list_all2 (\<lambda>q s. statement_of q = Inr s) (concat (map bundle_queue bs)) sts" and "list_all row_checked sts"
  shows "\<forall>b \<in> set bs. payloads_present b"
proof
  fix b assume b: "b \<in> set bs"
  have checked: "\<exists>s. statement_of q = Inr s \<and> row_checked s" if "q \<in> set (bundle_queue b)" for q
    using list_all2_members(1) [OF assms(1), of q] that b assms(2) by (fastforce simp: list_all_iff)
  have "t_Input t \<noteq> None" if "t \<in> set (bb_Transactions b)" for t
    using checked [of "Queue_transaction t"] that
    by (auto simp: bundle_queue_def statement_of_def row_checked_def check_transaction_def transaction_row_Inr)
  moreover have "e_Data e \<noteq> None" if "e \<in> set (bb_Events b)" for e
    using checked [of "Queue_event e"] that
    by (auto simp: bundle_queue_def statement_of_def row_checked_def check_event_def event_row_Inr)
  ultimately show "payloads_present b" by (simp add: payloads_present_def)
qed

lemma hashes_of_bundles:
  assumes "distinct (map bb_Number bs)" and "distinct (map bb_Hash bs)"
  shows "hashes_distinct (map_option header \<circ> map_of (keyed bs))"
  unfolding hashes_distinct_def
proof (intro allI impI)
  fix n k h p q
  assume "(map_option header \<circ> map_of (keyed bs)) n = Some (h, p)" "(map_option header \<circ> map_of (keyed bs)) k = Some (h, q)"
  then obtain x y where x: "map_of (keyed bs) n = Some x" "bb_Hash x = h" and y: "map_of (keyed bs) k = Some y" "bb_Hash y = h"
    by (auto simp: header_def)
  obtain b where b: "b \<in> set bs" "n = bb_Number b" "x = cloneBundle b" using map_of_SomeD [OF x(1)] by auto
  obtain c where c: "c \<in> set bs" "k = bb_Number c" "y = cloneBundle c" using map_of_SomeD [OF y(1)] by auto
  have "bb_Hash b = bb_Hash c" using b c x y by simp
  then have "b = c" using assms(2) b(1) c(1) by (auto simp: distinct_map inj_on_def)
  then show "n = k" using b c by simp
qed

lemma agrees_chain: "agrees d m db \<Longrightarrow> pg_chain db = memory_chain m"
  using represents_chain keyed_facts(2) by (fastforce simp: agrees_def memory_chain_def fun_eq_iff)

lemma block_hashes_iff:
  assumes agr: "agrees d m db"
  shows "distinct (map sb_hash (d_blocks db)) \<longleftrightarrow> hashes_distinct (memory_chain m)"
proof -
  obtain bs where inv: "memory_inv m" and ms: "mset (m_bundles m) = mset (keyed bs)" and rep: "represents bs db"
    using agr by (auto simp: agrees_def)
  note k = keyed_facts [OF inv ms]
  have rel: "list_all2 block_rel bs (d_blocks db)" using rep by (simp add: represents_def)
  then have "map sb_hash (d_blocks db) = map (be_bytes 32) (map bb_Hash bs)"
    by (induction rule: list_all2_induct) (auto simp: block_row_Inr)
  moreover have "inj (be_bytes 32 :: hash \<Rightarrow> bytes)" by (auto simp: inj_def be_bytes_inj)
  ultimately have "distinct (map sb_hash (d_blocks db)) \<longleftrightarrow> distinct (map bb_Hash bs)"
    by (metis distinct_map inj_on_subset subset_UNIV)
  moreover have "memory_chain m = map_option header \<circ> map_of (keyed bs)" by (simp add: memory_chain_def fun_eq_iff k(2))
  ultimately show ?thesis using hash_distinct_bundles [OF k(1)] hashes_of_bundles [OF k(1)] by auto
qed

lemma retained_parent_kept:
  assumes "validateRetainedParent d x u (deleteCanonicalRangeQuery lo hi db) = Inr ()"
  shows "parent_kept u (pg_chain db)"
proof (cases "u_Blocks u = [] \<or> u_ReplaceFrom u = u_RetainFrom u")
  case False
  then have "canonicalHashQuery (uint (u_ReplaceFrom u - 1)) (deleteCanonicalRangeQuery lo hi db) \<noteq> None"
    using assms by (auto simp: validateRetainedParent_def split: list.splits option.splits if_splits)
  then have "find (\<lambda>r. sb_number r = uint (u_ReplaceFrom u - 1)) (d_blocks db) \<noteq> None"
    by (auto simp: canonicalHashQuery_def deleteCanonicalRangeQuery_def delete_blocks_def Let_def find_None_iff)
  then show ?thesis by (auto simp: parent_kept_def pg_chain_def rows_chain_def)
qed (auto simp: parent_kept_def)

lemma committed_tells:
  assumes agr: "agrees d m db" and hashes: "hashes_distinct (memory_chain m)"
    and run: "update_transaction d x u db = Inr (db3, sent)"
  shows "\<forall>b \<in> set (u_Blocks u). payloads_present b" and "parent_kept u (memory_chain m)"
    and "distinct (map sb_hash (d_blocks db3))"
proof -
  obtain lo hi tip db2 where
    parent: "validateRetainedParent d x u (deleteCanonicalRangeQuery lo hi db) = Inr ()"
    and ins: "insertCanonicalBundles x (u_Blocks u) (deleteCanonicalRangeQuery lo hi db) = Inr (db2, sent)"
    and sync: "writeSyncState x u tip db2 = Inr db3"
    using run by (auto simp: update_transaction_def Let_def split: prod.splits)
  show "parent_kept u (memory_chain m)" using retained_parent_kept [OF parent] agrees_chain [OF agr] by simp
  obtain sts where sts: "list_all2 (\<lambda>q s. statement_of q = Inr s) (concat (map bundle_queue (u_Blocks u))) sts"
    "execute_all sts (deleteCanonicalRangeQuery lo hi db) = Inr db2"
    using insertCanonicalBundles_Inr [OF ins] by blast
  show "\<forall>b \<in> set (u_Blocks u). payloads_present b" by (rule checked_payloads [OF sts(1) execute_all_checked [OF sts(2)]])
  have "distinct (map sb_hash (d_blocks db))" using block_hashes_iff [OF agr] hashes by simp
  then have "distinct (map sb_hash (d_blocks (deleteCanonicalRangeQuery lo hi db)))"
    by (simp add: deleteCanonicalRangeQuery_def delete_blocks_def Let_def distinct_map_filter)
  then have "distinct (map sb_hash (d_blocks db2))" by (rule execute_all_hashes [OF sts(2)])
  moreover have "d_blocks db3 = d_blocks db2"
    using sync by (auto simp: writeSyncState_def upsertSyncStateQuery_def Let_def split: option.splits if_splits)
  ultimately show "distinct (map sb_hash (d_blocks db3))" by simp
qed

section \<open>Widths of columns\<close>

text \<open>
  The values a row may hold, written down from the schema: \<open>bigint\<close> and \<open>integer\<close> with their upper
  ends, byte strings of a fixed length, and amounts below 2 to the 256.
\<close>

definition fits_bigint :: "int \<Rightarrow> bool" where "fits_bigint v \<longleftrightarrow> 0 \<le> v \<and> v < 2 ^ 63"
definition fits_integer :: "int \<Rightarrow> bool" where "fits_integer v \<longleftrightarrow> 0 \<le> v \<and> v < 2 ^ 31"
definition fits_amount :: "int option \<Rightarrow> bool" where "fits_amount v \<longleftrightarrow> (\<forall>i. v = Some i \<longrightarrow> 0 \<le> i \<and> i < 2 ^ 256)"

definition block_fits :: "sql_block \<Rightarrow> bool" where
  "block_fits r \<longleftrightarrow> fits_bigint (sb_number r) \<and> length (sb_hash r) = 32 \<and> length (sb_parent_hash r) = 32 \<and>
     fits_bigint (sb_block_timestamp r) \<and> fits_bigint (sb_gas_limit r) \<and> fits_bigint (sb_gas_used r) \<and>
     fits_amount (sb_base_fee r) \<and> fits_integer (sb_transaction_count r)"

definition transaction_fits :: "sql_transaction \<Rightarrow> bool" where
  "transaction_fits r \<longleftrightarrow> length (sx_hash r) = 32 \<and> fits_bigint (sx_block_number r) \<and> fits_integer (sx_transaction_index r) \<and>
     0 \<le> sx_transaction_type r \<and> sx_transaction_type r \<le> 255 \<and> fits_bigint (sx_nonce r) \<and> length (sx_sender r) = 20 \<and>
     (\<forall>a. sx_recipient r = Some a \<longrightarrow> length a = 20) \<and> sx_value r \<noteq> None \<and> fits_amount (sx_value r) \<and>
     fits_bigint (sx_gas_limit r) \<and> fits_amount (sx_gas_price r) \<and> fits_amount (sx_max_fee r) \<and>
     fits_amount (sx_max_priority_fee r)"

definition event_fits :: "sql_event \<Rightarrow> bool" where
  "event_fits r \<longleftrightarrow> fits_bigint (sl_block_number r) \<and> length (sl_transaction_hash r) = 32 \<and>
     fits_integer (sl_transaction_index r) \<and> fits_integer (sl_log_index r) \<and> length (sl_emitter r) = 20 \<and>
     length (sl_topics r) \<le> 4 \<and> (\<forall>t \<in> set (sl_topics r). length t = 32)"

definition row_fits :: "statement \<Rightarrow> bool" where
  "row_fits s = (case s of Insert_block r \<Rightarrow> block_fits r | Insert_transaction r \<Rightarrow> transaction_fits r | Insert_event r \<Rightarrow> event_fits r)"

lemma fits_amount_iff: "validateUint256 name v required = None \<Longrightarrow> fits_amount v \<and> (required \<longrightarrow> v \<noteq> None)"
  by (auto simp: validateUint256_None fits_amount_def split: option.splits)

lemma fits_uint: "uint (v :: u64) \<le> MaxInt64 \<Longrightarrow> fits_bigint (uint v)" "uint (i :: u32) \<le> MaxInt32 \<Longrightarrow> fits_integer (uint i)"
  by (simp_all add: fits_bigint_def fits_integer_def MaxInt64_def MaxInt32_def)

lemma statement_fits:
  assumes wf: "wf_bundle b" and ok: "validatePostgresBundle b = None"
    and q: "q \<in> set (bundle_queue b)" and s: "statement_of q = Inr s"
  shows "row_fits s"
proof -
  note v = bundle_ok [OF ok]
  consider "q = Queue_block (bb_Block b)" | t where "q = Queue_transaction t" "t \<in> set (bb_Transactions b)"
    | e where "q = Queue_event e" "e \<in> set (bb_Events b)" using q by (auto simp: bundle_queue_def)
  then show ?thesis
  proof cases
    case 1
    have "validateUint256 ''block base fee'' (b_BaseFeePerGas (bb_Block b)) False = None"
      using v(1) by (auto simp: validatePostgresBlock_def split: if_splits)
    from fits_amount_iff [OF this] show ?thesis using s 1
      by (auto simp: statement_of_def row_fits_def block_fits_def block_row_Inr fits_bigint_def fits_integer_def MaxInt64_def MaxInt32_def)
  next
    case 2
    have n: "validateUint256 ''transaction value'' (t_Value t) True = None"
      "validateUint256 ''transaction gas price'' (t_GasPrice t) False = None"
      "validateUint256 ''transaction max fee'' (t_MaxFeePerGas t) False = None"
      "validateUint256 ''transaction max priority fee'' (t_MaxPriorityFeePerGas t) False = None"
      using v(2) [OF 2(2)] by (auto simp: validatePostgresTransaction_def simp del: first_error.simps split: if_splits)
    have "uint (t_Type t) \<le> 255" using unsigned_less [of "t_Type t", where 'a = int] by simp
    then show ?thesis
      using s 2(1) fits_amount_iff [OF n(1)] fits_amount_iff [OF n(2)] fits_amount_iff [OF n(3)] fits_amount_iff [OF n(4)]
      by (auto simp: statement_of_def row_fits_def transaction_fits_def transaction_row_Inr postgresAddress_def fits_uint split: option.splits)
  next
    case 3
    have "length (e_Topics e) \<le> 4" using wf_member(2) [OF wf 3(2)] by blast
    then show ?thesis using s 3(1) by (auto simp: statement_of_def row_fits_def event_fits_def event_row_Inr fits_uint)
  qed
qed

lemma validated_fit:
  assumes "\<forall>b \<in> set bs. wf_bundle b \<and> validatePostgresBundle b = None"
    and "list_all2 (\<lambda>q s. statement_of q = Inr s) (concat (map bundle_queue bs)) sts"
  shows "list_all row_fits sts" and "list_all row_checked sts \<longleftrightarrow> (\<forall>b \<in> set bs. payloads_present b)"
proof -
  show "list_all row_fits sts"
    unfolding list_all_iff
  proof
    fix s assume "s \<in> set sts"
    then obtain q where "q \<in> set (concat (map bundle_queue bs))" "statement_of q = Inr s"
      using list_all2_members(2) [OF assms(2)] by blast
    moreover from this obtain b where "b \<in> set bs" "q \<in> set (bundle_queue b)" by auto
    ultimately show "row_fits s" using statement_fits assms(1) by blast
  qed
  show "list_all row_checked sts \<longleftrightarrow> (\<forall>b \<in> set bs. payloads_present b)"
    using checked_payloads [OF assms(2)] statements_checked [OF _ assms(2)] assms(1) by blast
qed

section \<open>The decision\<close>

lemma Postgres_decides:
  assumes agr: "agrees d m db" and hashes: "hashes_distinct (memory_chain m)"
  shows "case Postgres_ApplyCanonicalUpdate d no_failures u db of
      (None, db') \<Rightarrow>
        validatePostgresUpdate u = None \<and> (\<forall>b \<in> set (u_Blocks u). payloads_present b) \<and> parent_kept u (memory_chain m) \<and>
        (\<exists>m'. Memory_ApplyCanonicalUpdate None u m = (None, m') \<and> hashes_distinct (memory_chain m') \<and> agrees d m' db')
    | (Some e, db') \<Rightarrow> db' = db \<and>
        \<not> (validatePostgresUpdate u = None \<and> (\<forall>b \<in> set (u_Blocks u). payloads_present b) \<and> parent_kept u (memory_chain m) \<and>
          (\<exists>m'. Memory_ApplyCanonicalUpdate None u m = (None, m') \<and> hashes_distinct (memory_chain m')))"
proof (cases "validatePostgresUpdate u")
  case valid: None
  show ?thesis
  proof (cases "update_transaction d no_failures u db")
    case (Inl e)
    then show ?thesis using valid accepted_commits [OF agr valid, of _] by (auto simp: Postgres_ApplyCanonicalUpdate_def)
  next
    case (Inr y)
    obtain db3 sent where y: "y = (db3, sent)" by (rule prod.exhaust)
    note run = Inr [unfolded y] and tells = committed_tells [OF agr hashes Inr [unfolded y]]
    obtain m' where m': "Memory_ApplyCanonicalUpdate None u m = (None, m')" "agrees d m' db3"
      using commit_agrees [OF agr valid run] by blast
    then have "hashes_distinct (memory_chain m')" using block_hashes_iff tells(3) by blast
    then show ?thesis using valid run tells(1,2) m' by (auto simp: Postgres_ApplyCanonicalUpdate_def)
  qed
qed (simp add: Postgres_ApplyCanonicalUpdate_def)

end
