(* ===== verification/Postgres_Theorems.thy ===== *)
theory Postgres_Theorems
  imports Postgres_Accepts Syncer_Theorems
begin

text \<open>
  The properties of the PostgreSQL store, each applied to a small database: two linked blocks, written to
  freshly migrated tables.
\<close>

section \<open>A small database\<close>

definition sample_numeric :: "int \<Rightarrow> Numeric" where
  "sample_numeric v = \<lparr>nm_Int = Some v, nm_Exp = 0, nm_NaN = False, nm_Finite = True, nm_Valid = True\<rparr>"

definition sample_drivers :: Drivers where
  "sample_drivers = \<lparr>dr_BytesToHash = be_word, dr_BytesToAddress = be_word, dr_ScanNumeric = sample_numeric\<rparr>"

lemma sample_drivers_ok: "drivers_ok sample_drivers"
  by (simp add: drivers_ok_def sample_drivers_def sample_numeric_def Let_def)

definition sample_time :: Time where
  "sample_time = \<lparr>t_unixNano = 7500, t_location = UTC\<rparr>"

definition sample_row_bundle :: "u64 \<Rightarrow> hash \<Rightarrow> hash \<Rightarrow> hash \<Rightarrow> BlockBundle" where
  "sample_row_bundle n h p x =
     (let b = sample_bundle n h p x in
      b\<lparr>bb_Block := (bb_Block b)\<lparr>b_IndexedAt := sample_time\<rparr>,
        bb_Transactions := map (\<lambda>t. t\<lparr>t_Input := Some []\<rparr>) (bb_Transactions b),
        bb_Events := map (\<lambda>e. e\<lparr>e_Data := Some [7]\<rparr>) (bb_Events b)\<rparr>)"

definition sample_row_update :: CanonicalUpdate where
  "sample_row_update = \<lparr>u_ChainID = 1, u_ReplaceFrom = 10, u_RetainFrom = 10,
     u_Blocks = [sample_row_bundle 10 110 109 1010, sample_row_bundle 11 111 110 1011], u_SyncedAt = sample_time\<rparr>"

definition sample_row_memory :: Memory where
  "sample_row_memory = snd (Memory_ApplyCanonicalUpdate None sample_row_update NewMemory)"

lemma uint256_code [code_unfold]:
  "(2 :: int) ^ 256 = 115792089237316195423570985008687907853269984665640564039457584007913129639936"
  by simp

lemma sample_row_valid: "validatePostgresUpdate sample_row_update = None"
  by code_simp

lemma sample_row_memory_eq: "Memory_ApplyCanonicalUpdate None sample_row_update NewMemory = (None, sample_row_memory)"
proof -
  have "fst (Memory_ApplyCanonicalUpdate None sample_row_update NewMemory) = None" by code_simp
  then show ?thesis by (simp add: sample_row_memory_def prod_eq_iff)
qed

lemma sample_row_chain: "memory_chain sample_row_memory = [10 \<mapsto> (110, 109), 11 \<mapsto> (111, 110)]"
proof
  fix n
  have "map (\<lambda>(n, b). (n, header b)) (m_bundles sample_row_memory) = [(10, 110, 109), (11, 111, 110)]" by code_simp
  moreover have "map_option header (map_of bs n) = map_of (map (\<lambda>(n, b). (n, header b)) bs) n" for bs :: "(u64 \<times> BlockBundle) list"
    by (induction bs) auto
  ultimately show "memory_chain sample_row_memory n = [10 \<mapsto> (110, 109), 11 \<mapsto> (111, 110)] n"
    by (simp add: memory_chain_def)
qed

lemma sample_row_present: "\<forall>b \<in> set (u_Blocks sample_row_update). payloads_present b"
  by (simp add: sample_row_update_def payloads_present_def sample_row_bundle_def sample_bundle_def Let_def)

lemma sample_row_hashes: "hashes_distinct (memory_chain sample_row_memory)"
  unfolding sample_row_chain hashes_distinct_def by (auto split: if_splits)

lemma sample_row_parent: "parent_kept sample_row_update C"
  by (simp add: parent_kept_def sample_row_update_def)

definition sample_tables :: Tables where
  "sample_tables = snd (Postgres_ApplyCanonicalUpdate sample_drivers no_failures sample_row_update migrated)"

lemma sample_tables_eq:
  "Postgres_ApplyCanonicalUpdate sample_drivers no_failures sample_row_update migrated = (None, sample_tables)"
  and sample_tables_agree: "agrees sample_drivers sample_row_memory sample_tables"
  using Postgres_accepts [OF agrees_migrated [OF sample_drivers_ok] sample_row_valid sample_row_memory_eq sample_row_present
      sample_row_hashes sample_row_parent] by (auto simp: sample_tables_def)

section \<open>Properties\<close>

lemma first_error_Some: "first_error es = Some e \<Longrightarrow> Some e \<in> set es"
  by (induction es) (auto split: option.splits)

lemma validateUint256_Is: "validateUint256 name v required = Some e \<Longrightarrow> errors_Is e ErrInvalidCanonicalUpdate"
  by (auto simp: validateUint256_def split: option.splits if_splits)

lemma validatePostgresBundle_Is:
  assumes "validatePostgresBundle b = Some e"
  shows "errors_Is e ErrInvalidCanonicalUpdate"
proof -
  have "errors_Is e ErrInvalidCanonicalUpdate" if "validatePostgresBlock k = Some e" for k
    using that by (auto simp: validatePostgresBlock_def dest: validateUint256_Is split: if_splits)
  moreover have "errors_Is e ErrInvalidCanonicalUpdate" if "validatePostgresTransaction t = Some e" for t
    using that by (auto simp: validatePostgresTransaction_def simp del: first_error.simps dest!: first_error_Some dest: validateUint256_Is [OF sym]
        split: if_splits)
  moreover have "errors_Is e ErrInvalidCanonicalUpdate" if "validatePostgresEvent v = Some e" for v
    using that by (auto simp: validatePostgresEvent_def split: if_splits)
  ultimately show ?thesis
    using first_error_Some [OF assms [unfolded validatePostgresBundle_def]] by (auto dest: sym)
qed

lemma validatePostgresUpdate_Is:
  assumes "validatePostgresUpdate u = Some e"
  shows "errors_Is e ErrInvalidCanonicalUpdate"
proof -
  consider "errors_Is e ErrInvalidCanonicalUpdate"
    | "first_error ([validateReplacement u, validateCanonicalBundles (fold (\<lambda>b. AList.update (bb_Number b) b) (u_Blocks u) [])] @
         map validatePostgresBundle (u_Blocks u)) = Some e"
    using assms by (auto simp: validatePostgresUpdate_def simp del: first_error.simps split: if_splits)
  then show ?thesis
  proof cases
    case 2
    from first_error_Some [OF this] show ?thesis
      by (auto dest: validateReplacement_Is [OF sym] validateCanonicalBundles_Is [OF sym] validatePostgresBundle_Is [OF sym])
  qed
qed

text \<open>
  C1: PostgreSQL refines the in-memory store. From agreeing states, an update that returns \<open>nil\<close> is one the
  in-memory store accepts, and the results agree. An update that returns an error changes nothing, or,
  when the commit was applied although its answer was lost, everything. Validation
  failures are \<open>ErrInvalidCanonicalUpdate\<close>. Every statement may fail at any point.
\<close>

theorem postgres_refines_memory:
  assumes "agrees d m db"
  shows "case Postgres_ApplyCanonicalUpdate d x u db of
      (None, db') \<Rightarrow> \<exists>m'. Memory_ApplyCanonicalUpdate None u m = (None, m') \<and> agrees d m' db'
    | (Some e, db') \<Rightarrow>
        (db' = db \<or> pe_commit x \<noteq> None \<and> pe_applied x \<and>
          (\<exists>m'. Memory_ApplyCanonicalUpdate None u m = (None, m') \<and> agrees d m' db')) \<and>
        (validatePostgresUpdate u \<noteq> None \<longrightarrow> db' = db \<and> errors_Is e ErrInvalidCanonicalUpdate)"
proof (cases "validatePostgresUpdate u")
  case valid: None
  show ?thesis
  proof (cases "update_transaction d x u db")
    case (Inr y)
    obtain db1 sent where y: "y = (db1, sent)" by (rule prod.exhaust)
    obtain m' where "Memory_ApplyCanonicalUpdate None u m = (None, m')" "agrees d m' db1"
      using commit_agrees [OF assms valid Inr [unfolded y]] by blast
    then show ?thesis using valid Inr y by (auto simp: Postgres_ApplyCanonicalUpdate_def split: option.splits)
  qed (simp add: Postgres_ApplyCanonicalUpdate_def valid)
next
  case (Some e)
  then show ?thesis using validatePostgresUpdate_Is [OF Some] by (simp add: Postgres_ApplyCanonicalUpdate_def)
qed

theorem postgres_refines_memory_witness:
  "\<exists>m'. Memory_ApplyCanonicalUpdate None sample_row_update NewMemory = (None, m') \<and> agrees sample_drivers m' sample_tables"
  using postgres_refines_memory [OF agrees_migrated [OF sample_drivers_ok], where x = no_failures and u = sample_row_update]
  by (simp add: sample_tables_eq)

text \<open>
  C37: exactly what PostgreSQL accepts. When no statement fails and no two stored blocks share a hash, an
  update is committed if and only if it passes PostgreSQL's validation, none of its payloads is \<open>nil\<close>, the
  block below a range that starts inside the window is stored, and the in-memory store accepts it
  with a result in which no two blocks share a hash. The results then agree; otherwise the tables are
  unchanged. The widths of the columns, present payloads, the stored block below and distinct hashes are what
  PostgreSQL asks beyond the in-memory store.
\<close>

theorem postgres_accepts_canonical:
  assumes "agrees d m db" and "hashes_distinct (memory_chain m)"
  shows "case Postgres_ApplyCanonicalUpdate d no_failures u db of
      (None, db') \<Rightarrow>
        validatePostgresUpdate u = None \<and> (\<forall>b \<in> set (u_Blocks u). payloads_present b) \<and> parent_kept u (memory_chain m) \<and>
        (\<exists>m'. Memory_ApplyCanonicalUpdate None u m = (None, m') \<and> hashes_distinct (memory_chain m') \<and> agrees d m' db')
    | (Some e, db') \<Rightarrow> db' = db \<and>
        \<not> (validatePostgresUpdate u = None \<and> (\<forall>b \<in> set (u_Blocks u). payloads_present b) \<and> parent_kept u (memory_chain m) \<and>
          (\<exists>m'. Memory_ApplyCanonicalUpdate None u m = (None, m') \<and> hashes_distinct (memory_chain m')))"
  using assms by (rule Postgres_decides)

theorem postgres_accepts_canonical_witness:
  "(\<exists>db'. Postgres_ApplyCanonicalUpdate sample_drivers no_failures sample_row_update migrated = (None, db') \<and>
      agrees sample_drivers sample_row_memory db') \<and>
   (\<exists>e. Postgres_ApplyCanonicalUpdate sample_drivers no_failures
      (sample_row_update\<lparr>u_RetainFrom := 9\<rparr>) migrated = (Some e, migrated))"
proof -
  have empty: "hashes_distinct (memory_chain NewMemory)" by (simp add: hashes_distinct_def memory_chain_def NewMemory_def)
  note decides = postgres_accepts_canonical [OF agrees_migrated [OF sample_drivers_ok] empty]
  have "\<not> parent_kept (sample_row_update\<lparr>u_RetainFrom := 9\<rparr>) (memory_chain NewMemory)"
    by (simp add: parent_kept_def sample_row_update_def memory_chain_def NewMemory_def)
  then have "\<exists>e. Postgres_ApplyCanonicalUpdate sample_drivers no_failures
      (sample_row_update\<lparr>u_RetainFrom := 9\<rparr>) migrated = (Some e, migrated)"
    using decides [of "sample_row_update\<lparr>u_RetainFrom := 9\<rparr>"] by (auto split: prod.splits option.splits)
  moreover have "agrees sample_drivers sample_row_memory sample_tables"
    using decides [of sample_row_update] by (simp add: sample_tables_eq sample_row_memory_eq)
  ultimately show ?thesis using sample_tables_eq by blast
qed

text \<open>
  C12: agreeing stores answer alike. Transactions and event pages, not-found and stale-cursor errors included,
  are equal; a block is equal up to \<open>IndexedAt\<close>, which keeps its microseconds and loses its zone.
\<close>

theorem postgres_answers_like_memory:
  assumes "agrees d m db"
  shows "Postgres_BlockByNumber d no_failures n db =
      map_sum id (\<lambda>r. r\<lparr>br_Block := stored_block (br_Block r)\<rparr>) (Memory_BlockByNumber None n m) \<and>
    Postgres_TransactionByHash d no_failures h db = Memory_TransactionByHash None h m \<and>
    Postgres_EventsByAddress d no_failures q db = Memory_EventsByAddress None q m"
  using BlockByNumber_agrees [OF assms] TransactionByHash_agrees [OF assms] EventsByAddress_agrees [OF assms] by blast

theorem postgres_answers_like_memory_witness:
  "Postgres_TransactionByHash sample_drivers no_failures 1011 sample_tables = Memory_TransactionByHash None 1011 sample_row_memory \<and>
   \<not> isl (Memory_TransactionByHash None 1011 sample_row_memory) \<and>
   Postgres_BlockByNumber sample_drivers no_failures 12 sample_tables = Inl (Sentinel ErrNotFound)"
proof -
  have "\<not> isl (Memory_TransactionByHash None 1011 sample_row_memory)"
    "Memory_BlockByNumber None 12 sample_row_memory = Inl (Sentinel ErrNotFound)" by code_simp+
  then show ?thesis using postgres_answers_like_memory [OF sample_tables_agree, of 12 1011 "\<lparr>q_Address = 99, q_Limit = 1, q_Before = None\<rparr>"] by simp
qed

text \<open>
  C38: every value of a validated update fits its column: no conversion panics, integers are within \<open>bigint\<close>
  and \<open>integer\<close>, hashes and addresses have their length, amounts are below 2 to the 256 and a value is present. The rows
  meet all constraints of the schema exactly when no payload is \<open>nil\<close>, which validation lets through and the
  \<open>NOT NULL\<close> columns refuse. Sending the inserts
  in batches of at most \<open>canonicalBatchQueryLimit\<close> is the same as executing them one after the other: the batches
  are the statements in order, the tables are the same, and it fails exactly when the sequence fails.
\<close>

theorem postgres_batches:
  assumes "validatePostgresUpdate u = None" and "\<forall>k. pe_batch x k = None"
  shows "\<exists>sts. list_all2 (\<lambda>q s. statement_of q = Inr s) (concat (map bundle_queue (u_Blocks u))) sts \<and>
    list_all row_fits sts \<and> (list_all row_checked sts \<longleftrightarrow> (\<forall>b \<in> set (u_Blocks u). payloads_present b)) \<and>
    (case insertCanonicalBundles x (u_Blocks u) db of
       Inl e \<Rightarrow> isl (execute_all sts db)
     | Inr (db', sent) \<Rightarrow> execute_all sts db = Inr db' \<and> concat sent = sts \<and>
         (\<forall>b \<in> set sent. b \<noteq> [] \<and> length b \<le> canonicalBatchQueryLimit))"
proof -
  note v = validatePostgresUpdate_None [OF assms(1)]
  have "map_of (map (\<lambda>b. (bb_Number b, b)) (u_Blocks u)) (bb_Number b) = Some b" if "b \<in> set (u_Blocks u)" for b
    using that consecutive_from_distinct [OF v(3)] by (intro map_of_is_SomeI) (auto simp: comp_def)
  then have new: "\<forall>b \<in> set (u_Blocks u). wf_bundle b \<and> validatePostgresBundle b = None"
    using v(4,5) unfolding canonical_bundles_def by blast
  then obtain sts where sts: "list_all2 (\<lambda>q s. statement_of q = Inr s) (concat (map bundle_queue (u_Blocks u))) sts"
    using validated_statements by blast
  note fit = validated_fit [OF new]
  show ?thesis
  proof (cases "insertCanonicalBundles x (u_Blocks u) db")
    case (Inl e)
    have "execute_all sts db \<noteq> Inr db'" for db'
      using Inl insert_queued_complete [OF assms(2) sts, of "[]" db db' "[]"]
      by (cases "u_Blocks u = []") (auto simp: insertCanonicalBundles_def)
    then have "isl (execute_all sts db)" by (cases "execute_all sts db") auto
    then show ?thesis using sts Inl fit [OF sts] by auto
  next
    case (Inr y)
    obtain db' sent where y: "y = (db', sent)" by (rule prod.exhaust)
    obtain sts' where sts': "list_all2 (\<lambda>q s. statement_of q = Inr s) (concat (map bundle_queue (u_Blocks u))) sts'"
      "execute_all sts' db = Inr db'" "concat sent = sts'" "\<forall>b \<in> set sent. b \<noteq> [] \<and> length b \<le> canonicalBatchQueryLimit"
      using insertCanonicalBundles_Inr [OF Inr [unfolded y]] by blast
    then show ?thesis using Inr y fit [OF sts'(1)] by (intro exI [of _ sts']) simp
  qed
qed

theorem postgres_batches_witness:
  "\<exists>sts. list_all2 (\<lambda>q s. statement_of q = Inr s) (concat (map bundle_queue (u_Blocks sample_row_update))) sts \<and> length sts = 8 \<and>
     list_all row_fits sts \<and> list_all row_checked sts"
proof -
  obtain sts where sts: "list_all2 (\<lambda>q s. statement_of q = Inr s) (concat (map bundle_queue (u_Blocks sample_row_update))) sts"
    "list_all row_fits sts" "list_all row_checked sts"
    using postgres_batches [OF sample_row_valid, where x = no_failures] sample_row_present by auto
  moreover have "length (concat (map bundle_queue (u_Blocks sample_row_update))) = 8" by code_simp
  ultimately show ?thesis using list_all2_lengthD [OF sts(1)] by auto
qed

lemma pg_tip_read:
  assumes inv: "pg_inv d db" and top: "pg_chain db n = Some (h, p)" and highest: "\<forall>k \<in> dom (pg_chain db). k \<le> n"
  shows "Postgres_CanonicalTip d no_failures db = Inr (Some \<lparr>tip_Number = n, tip_Hash = h\<rparr>)"
proof -
  have dist: "distinct (map sb_number (d_blocks db))" using inv by (simp add: pg_inv_def)
  have "d_blocks db \<noteq> []" using top by (auto simp: pg_chain_def rows_chain_def)
  then obtain r where r: "canonicalTipQuery db = Some r" using canonicalTipQuery_None by auto
  have "check_block r" using canonicalTipQuery_Some(1) [OF r dist] inv by (auto simp: pg_inv_def)
  then have "0 \<le> sb_number r" "length (sb_hash r) = 32" by (simp_all add: check_block_def)
  then obtain tip where tip: "Postgres_CanonicalTip d no_failures db = Inr (Some tip)"
    using r by (simp add: Postgres_CanonicalTip_def decodeHash_def decodePostgresUint64_def)
  note t = pg_tip [OF inv tip]
  have "tip_Number tip = n" using t top highest by (meson domI order_antisym)
  then show ?thesis using t(1) top tip by (cases tip) simp
qed

text \<open>
  C39: a synchronization cycle over PostgreSQL, whatever the node answers and whatever statements fail. After
  success the tables hold one linked chain inside the configured window, and its tip is the head the node reported for
  the configured mode. After a failure they hold a linked chain too: the old one or, when a commit took effect though it
  reported an error, the old one with one whole update applied, which again ends at the head the node reported and lies in
  the window below it.
\<close>

theorem postgres_sync_window:
  assumes "pg_inv d db" and "y_store sy = Some (PostgresIndexStore d)" and "SyncOnce ctx sy db w = (r, db', w')"
  shows "linked_chain (pg_chain db') \<and>
    (case r of
       Inl e \<Rightarrow> pg_chain db' = pg_chain db \<or> 
         (\<exists>u tip p. pg_chain db' = updated header u (pg_chain db) \<and> head_reported sy w tip \<and>
            pg_chain db' (tip_Number tip) = Some (tip_Hash tip, p) \<and>
            dom (pg_chain db') \<subseteq> {windowStart (tip_Number tip) (c_BlockWindow (y_config sy)) .. tip_Number tip})
     | Inr res \<Rightarrow>
         head_reported sy w (sr_Head res) \<and>
         Postgres_CanonicalTip d no_failures db' = Inr (Some (sr_Head res)) \<and>
         dom (pg_chain db') \<subseteq>
           {windowStart (tip_Number (sr_Head res)) (c_BlockWindow (y_config sy)) .. tip_Number (sr_Head res)} \<and>
         card (dom (pg_chain db')) \<le> unat (c_BlockWindow (y_config sy)) \<and> c_BlockWindow (y_config sy) \<le> MaxBlockWindow)"
proof (cases r)
  case (Inl e)
  note failed = pg.sync_failed [OF assms(1,2) assms(3) [unfolded Inl]]
  have "linked_chain (pg_chain db')" using failed pg.chain_linked by blast
  then show ?thesis using failed Inl by simp
next
  case (Inr res)
  note run = assms(3) [unfolded Inr] and ok = pg.sync_ok [OF assms(1,2) assms(3) [unfolded Inr]]
  let ?hi = "tip_Number (sr_Head res)" and ?b = "c_BlockWindow (y_config sy)"
  obtain p where p: "pg_chain db' ?hi = Some (tip_Hash (sr_Head res), p)" using ok(2) by blast
  have v: "validateSyncOnceConfig sy = None" by (rule SyncOnce_ok [OF run])
  note window = validated_window [OF v]
  have dom: "dom (pg_chain db') \<subseteq> {windowStart ?hi ?b .. ?hi}" using ok(3,4) by auto
  have "card (dom (pg_chain db')) \<le> unat ?b"
    using card_window(2) [OF dom] windowStart_size [OF window(1), of ?hi] by simp
  moreover have "Postgres_CanonicalTip d no_failures db' = Inr (Some (sr_Head res))"
    using pg_tip_read [OF ok(1) p] ok(3) by (cases "sr_Head res") auto
  ultimately show ?thesis using dom window(2) Inr pg.chain_linked [OF ok(1)] ok(5) by simp
qed

definition sample_pg_syncer :: "(PgEnv, Tables, nat) Syncer" where
  "sample_pg_syncer = NewSyncer sample_geth (\<lambda>w. (sample_time, Suc w)) (Some (sample_fetcher 11))
     (Some (sample_reader 11)) (Some (PostgresIndexStore sample_drivers)) sample_config (\<lambda>e w. w)"

definition sample_pg_context :: "(PgEnv, nat) Context" where
  "sample_pg_context = \<lparr>cx_env = sample_env, cx_call = (\<lambda>w. (no_failures, Suc w))\<rparr>"

definition sample_refresh :: CanonicalUpdate where
  "sample_refresh = \<lparr>u_ChainID = 1, u_ReplaceFrom = 12, u_RetainFrom = 9, u_Blocks = [], u_SyncedAt = sample_time\<rparr>"

lemma sample_refresh_commits:
  "\<exists>db'. Postgres_ApplyCanonicalUpdate sample_drivers no_failures sample_refresh sample_tables = (None, db')"
proof -
  have "validatePostgresUpdate sample_refresh = None" by code_simp
  moreover obtain m' where m': "Memory_ApplyCanonicalUpdate None sample_refresh sample_row_memory = (None, m')"
  proof -
    have "fst (Memory_ApplyCanonicalUpdate None sample_refresh sample_row_memory) = None" by code_simp
    then show ?thesis using that by (metis prod.collapse)
  qed
  moreover have "hashes_distinct (memory_chain m')"
  proof -
    have "map_of (m_bundles m') = updated cloneBundle sample_refresh (map_of (m_bundles sample_row_memory))"
      using Memory_Apply_chain(1) [OF _ m' refl] sample_tables_agree by (simp add: agrees_def)
    then have "memory_chain m' n = (if 9 \<le> n \<and> n < 12 then memory_chain sample_row_memory n else None)" for n
      by (simp add: memory_chain_def updated_def sample_refresh_def)
    then show ?thesis using sample_row_hashes by (auto simp: hashes_distinct_def split: if_splits)
  qed
  moreover have "parent_kept sample_refresh C" for C by (simp add: parent_kept_def sample_refresh_def)
  moreover have "\<forall>b \<in> set (u_Blocks sample_refresh). payloads_present b" by (simp add: sample_refresh_def)
  ultimately show ?thesis using Postgres_accepts [OF sample_tables_agree] by blast
qed

lemma sample_pg_chain: "pg_chain sample_tables = [10 \<mapsto> (110, 109), 11 \<mapsto> (111, 110)]"
proof -
  obtain bs where "memory_inv sample_row_memory" "mset (m_bundles sample_row_memory) = mset (keyed bs)" "represents bs sample_tables"
    using sample_tables_agree by (auto simp: agrees_def)
  then have "pg_chain sample_tables = map_option header \<circ> map_of (m_bundles sample_row_memory)"
    using represents_chain keyed_facts(2) by simp
  then have "pg_chain sample_tables = memory_chain sample_row_memory" by (simp add: memory_chain_def fun_eq_iff)
  then show ?thesis by (simp add: sample_row_chain)
qed

theorem postgres_sync_window_witness:
  "\<exists>res db' w'. SyncOnce sample_pg_context sample_pg_syncer sample_tables 0 = (Inr res, db', w') \<and>
     Postgres_CanonicalTip sample_drivers no_failures db' = Inr (Some \<lparr>tip_Number = 11, tip_Hash = 111\<rparr>)"
proof -
  have inv: "pg_inv sample_drivers sample_tables" using sample_tables_agree by (simp add: agrees_def)
  have tip: "Postgres_CanonicalTip sample_drivers no_failures sample_tables = Inr (Some \<lparr>tip_Number = 11, tip_Hash = 111\<rparr>)"
    by (rule pg_tip_read [OF inv, of 11 111 110]) (auto simp: sample_pg_chain)
  obtain db' where app: "Postgres_ApplyCanonicalUpdate sample_drivers no_failures sample_refresh sample_tables = (None, db')"
    using sample_refresh_commits by blast
  have v: "validateSyncOnceConfig sample_pg_syncer = None"
    and head: "selectedHead sample_pg_syncer 0 = (Inr \<lparr>h_Number = Some 11, h_Hash = 111\<rparr>, 1)"
    and num: "validHeaderNumber \<lparr>h_Number = Some 11, h_Hash = 111\<rparr> = Inr 11" and win: "windowStart 11 3 = 9" by code_simp+
  have store: "y_store sample_pg_syncer = Some (PostgresIndexStore sample_drivers)" "c_BlockWindow (y_config sample_pg_syncer) = 3"
    "c_ChainID (y_config sample_pg_syncer) = 1" "y_now sample_pg_syncer w = (sample_time, Suc w)" "cx_call sample_pg_context w = (no_failures, Suc w)" for w
    by (simp_all add: sample_pg_syncer_def NewSyncer_def sample_config_def sample_pg_context_def)
  have utc: "Time_UTC sample_time = sample_time" by (simp add: Time_UTC_def sample_time_def)
  obtain res w' where run: "SyncOnce sample_pg_context sample_pg_syncer sample_tables 0 = (Inr res, db', w')"
    and "sr_Head res = \<lparr>tip_Number = 11, tip_Hash = 111\<rparr>"
    using tip app
    by (simp add: SyncOnce_def v head num win store utc storedTip_read_def replacementStart_def fetch_missing_def apply_update_def
        PostgresIndexStore_def sample_refresh_def MaxUint64_def sync_result_def)
  then show ?thesis using postgres_sync_window [OF inv store(1) run] by auto
qed

end
