(* ===== verification/Syncer_Live.thy ===== *)
theory Syncer_Live
  imports Syncer_Theorems
begin

text \<open>
  Convergence: against a node that answers steadily, one cycle succeeds from every consistent
  store, whatever fork it holds, and leaves the node's chain in it.
\<close>

section \<open>A steady node\<close>

text \<open>
  The node's chain up to \<open>N\<close>: hash \<open>H n\<close>, parent hash \<open>P n\<close> and transaction hashes \<open>T n\<close> of the
  block at each height. It answers every header and every block of it each time it is asked.
\<close>

definition steady_node ::
  "('x, 's, 'w) Syncer \<Rightarrow> 'w Fetcher \<Rightarrow> u64 \<Rightarrow> (u64 \<Rightarrow> hash) \<Rightarrow> (u64 \<Rightarrow> hash) \<Rightarrow> (u64 \<Rightarrow> hash set) \<Rightarrow> bool" where
  "steady_node sy f N H P T \<longleftrightarrow>
     (\<exists>chain. y_chain sy = Some chain \<and>
        (\<forall>w. \<exists>w'. r_HeaderByNumber chain (head_selector sy) w =
           (Inr (Some \<lparr>h_Number = Some (uint N), h_Hash = H N\<rparr>), w')) \<and>
        (\<forall>n < N. \<forall>w. \<exists>w'. r_HeaderByNumber chain (Some (uint n)) w =
           (Inr (Some \<lparr>h_Number = Some (uint n), h_Hash = H n\<rparr>), w'))) \<and>
     y_fetcher sy = Some f \<and> block_numbers (f_chain f) \<and>
     (\<forall>n \<le> N. \<forall>w. \<exists>b w'. FetchBlock f n w = (Inr b, w') \<and> header b = (H n, P n) \<and>
        t_Hash ` set (bb_Transactions b) = T n) \<and>
     (\<forall>n < N. P (n + 1) = H n) \<and> (\<forall>n \<le> N. \<forall>k \<le> N. n \<noteq> k \<longrightarrow> T n \<inter> T k = {})"

text \<open>Nothing is cancelled, and no store call meets a context that is done.\<close>

definition calm :: "(ctx, 'w) Context \<Rightarrow> bool" where
  "calm ctx \<longleftrightarrow> (\<forall>w. fst (env_ctx (cx_env ctx) w) = None) \<and> (\<forall>w. fst (cx_call ctx w) = None)"

text \<open>A block hash determines the block: a stored block with the node's hash is the node's block.\<close>

definition binds :: "Memory \<Rightarrow> (u64 \<Rightarrow> hash) \<Rightarrow> (u64 \<Rightarrow> hash) \<Rightarrow> (u64 \<Rightarrow> hash set) \<Rightarrow> bool" where
  "binds m H P T \<longleftrightarrow>
     (\<forall>n b. map_of (m_bundles m) n = Some b \<longrightarrow> bb_Hash b = H n \<longrightarrow>
        bb_ParentHash b = P n \<and> t_Hash ` set (bb_Transactions b) = T n)"

section \<open>The reads of a cycle\<close>

lemma selectedHead_steady:
  assumes "steady_node sy f N H P T"
  shows "\<exists>w'. selectedHead sy w = (Inr \<lparr>h_Number = Some (uint N), h_Hash = H N\<rparr>, w')"
proof -
  obtain chain where c: "y_chain sy = Some chain" and
    "\<forall>w. \<exists>w'. r_HeaderByNumber chain (head_selector sy) w =
       (Inr (Some \<lparr>h_Number = Some (uint N), h_Hash = H N\<rparr>), w')"
    using assms unfolding steady_node_def by blast
  then obtain w' where "r_HeaderByNumber chain (head_selector sy) w =
      (Inr (Some \<lparr>h_Number = Some (uint N), h_Hash = H N\<rparr>), w')" by blast
  with c show ?thesis by (simp add: selectedHead_def)
qed

lemma chainHash_steady:
  assumes "steady_node sy f N H P T" and "n \<le> N"
  shows "\<exists>w'. chainHash sy n N (H N) w = (Inr (H n), w')"
proof (cases "n = N")
  case False
  then have "n < N" using assms(2) by simp
  then obtain chain w' where "y_chain sy = Some chain"
      "r_HeaderByNumber chain (Some (uint n)) w = (Inr (Some \<lparr>h_Number = Some (uint n), h_Hash = H n\<rparr>), w')"
    using assms(1) unfolding steady_node_def by blast
  moreover have "validHeaderNumber \<lparr>h_Number = Some (uint n), h_Hash = H n\<rparr> = Inr n"
    by (simp add: validHeaderNumber_iff)
  ultimately show ?thesis using False by (simp add: chainHash_def SetUint64_def)
qed (simp add: chainHash_def)

lemma canonical_as_steady:
  assumes "steady_node sy f N H P T" and "n \<le> N" and "canonical_as sy N (H N) n h"
  shows "h = H n"
  using chainHash_steady [OF assms(1,2)] assms(3) unfolding canonical_as_def by (metis Inr_inject prod.inject)

lemma storedHash_calm:
  assumes "calm ctx" and "y_store sy = Some MemoryIndexStore"
  shows "\<exists>w'. storedHash ctx sy tip n m w =
    (if n = tip_Number tip then Inr (tip_Hash tip) else Memory_CanonicalHash None n m, w')"
proof -
  obtain w' where "cx_call ctx w = (None, w')" using assms(1) unfolding calm_def by (metis prod.collapse)
  then show ?thesis using assms(2) by (simp add: storedHash_def MemoryIndexStore_def)
qed

lemma CanonicalHash_chain:
  "Memory_CanonicalHash None n m = (case memory_chain m n of None \<Rightarrow> Inl (Sentinel ErrNotFound) | Some (h, p) \<Rightarrow> Inr h)"
  by (simp add: Memory_CanonicalHash_def memory_chain_def header_def split: option.splits)

lemma stored_as_calm:
  assumes "calm ctx" and "y_store sy = Some MemoryIndexStore" and "memory_inv m"
    and "Memory_CanonicalTip None m = Inr (Some tip)" and "stored_as ctx sy tip m n h"
  shows "\<exists>p. memory_chain m n = Some (h, p)"
proof (cases "n = tip_Number tip")
  case True
  have "is_CanonicalTip MemoryIndexStore None m = Inr (Some tip)" using assms(4) by (simp add: MemoryIndexStore_def)
  with mem.tip_Some [OF assms(3)] True assms(5) show ?thesis by (auto simp: stored_as_tip)
next
  case False
  obtain w w' where "storedHash ctx sy tip n m w = (Inr h, w')" using assms(5) by (auto simp: stored_as_def)
  then have "Memory_CanonicalHash None n m = Inr h"
    using storedHash_calm [OF assms(1,2), of tip n m w] False by auto
  then show ?thesis by (auto simp: CanonicalHash_chain split: option.splits prod.splits)
qed

lemma commonAncestor_returns:
  assumes node: "steady_node sy f N H P T" and ctx: "calm ctx" and store: "y_store sy = Some MemoryIndexStore"
    and "lo \<le> n" and "n \<le> N"
  shows "\<exists>x w'. commonAncestor_loop ctx sy tip N (H N) lo n m w = (Inr x, w')"
  using assms(4,5)
proof (induction "unat (n - lo)" arbitrary: n w rule: less_induct)
  case less
  obtain w1 where st: "storedHash ctx sy tip n m w =
      (if n = tip_Number tip then Inr (tip_Hash tip) else Memory_CanonicalHash None n m, w1)"
    using storedHash_calm [OF ctx store] by blast
  show ?case
  proof (cases "n = tip_Number tip \<or> memory_chain m n \<noteq> None")
    case True
    then obtain h where h: "storedHash ctx sy tip n m w = (Inr h, w1)"
      using st by (auto simp: CanonicalHash_chain split: if_splits)
    obtain w2 where c: "chainHash sy n N (H N) w1 = (Inr (H n), w2)"
      using chainHash_steady [OF node less.prems(2)] by blast
    show ?thesis
    proof (cases "h = H n \<or> n = lo")
      case True
      then show ?thesis by (auto simp: commonAncestor_step [OF h c])
    next
      case False
      then have lt: "lo < n" using less.prems by auto
      note pred = pred_u64 [OF lt]
      have "\<exists>x w'. commonAncestor_loop ctx sy tip N (H N) lo (n - 1) m w2 = (Inr x, w')"
        using less.hyps [OF countdown] False pred less.prems by (meson less_imp_le order_trans)
      then show ?thesis using False by (simp add: commonAncestor_step [OF h c])
    qed
  next
    case False
    then have "n \<noteq> tip_Number tip" "memory_chain m n = None" by blast+
    then have "storedHash ctx sy tip n m w = (Inl (Sentinel ErrNotFound), w1)"
      using st by (simp add: CanonicalHash_chain)
    then show ?thesis by (simp add: commonAncestor_loop.simps [of ctx sy tip N "H N" lo n m w])
  qed
qed

lemma replacementStart_returns:
  assumes node: "steady_node sy f N H P T" and ctx: "calm ctx" and store: "y_store sy = Some MemoryIndexStore"
    and inv: "memory_inv m" and tip: "Memory_CanonicalTip None m = Inr tip" and "lo \<le> N" and "N \<noteq> MaxUint64"
  shows "\<exists>plan w'. replacementStart ctx sy tip N (H N) lo m w = (Inr plan, w') \<and>
    (rp_From plan = lo \<or>
     (\<exists>k p. rp_From plan = k + 1 \<and> lo \<le> k \<and> k \<le> N \<and> memory_chain m k = Some (H k, p)))"
proof (cases tip)
  case None
  then show ?thesis by (simp add: replacementStart_def)
next
  case (Some t)
  show ?thesis
  proof (cases "tip_Number t > N \<or> tip_Number t < lo")
    case True
    then show ?thesis using Some by (auto simp: replacementStart_def)
  next
    case inside: False
    have at: "is_CanonicalTip MemoryIndexStore None m = Inr (Some t)" using tip Some by (simp add: MemoryIndexStore_def)
    show ?thesis
    proof (cases "tip_Number t = N \<and> tip_Hash t = H N")
      case True
      then obtain p where "memory_chain m N = Some (H N, p)" using mem.tip_Some [OF inv at] by auto
      then show ?thesis using True Some inside assms(6,7) by (auto simp: replacementStart_def)
    next
      case False
      have start: "lo \<le> min (tip_Number t) N" "min (tip_Number t) N \<le> N" using inside assms(6) by (auto simp: not_less)
      obtain x w1 where x: "commonAncestor ctx sy t N (H N) lo m w = (Inr x, w1)"
        using commonAncestor_returns [OF node ctx store start] unfolding commonAncestor_def Let_def by blast
      show ?thesis
      proof (cases x)
        case None
        then show ?thesis using Some inside False x by (auto simp: replacementStart_def)
      next
        case a: (Some a)
        note found = commonAncestor_loop_found [OF x [unfolded a commonAncestor_def Let_def] start(1)]
        have le: "tip_Number a \<le> N" using found start(2) by (meson order_trans)
        have "tip_Number a \<noteq> MaxUint64" using le assms(7) by (metis le_MaxUint64 order_antisym)
        then have "\<exists>plan. replacementStart ctx sy tip N (H N) lo m w = (Inr plan, w1) \<and> rp_From plan = tip_Number a + 1"
          using Some inside False x a by (auto simp: replacementStart_def Let_def)
        moreover have "tip_Hash a = H (tip_Number a)" using canonical_as_steady [OF node le] found by blast
        moreover have "\<exists>p. memory_chain m (tip_Number a) = Some (tip_Hash a, p)"
          using stored_as_calm [OF ctx store inv] tip Some found by blast
        ultimately show ?thesis using found le by metis
      qed
    qed
  qed
qed

section \<open>The update of a cycle\<close>

text \<open>The node's block at a height, as far as validation looks at it.\<close>

definition node_block :: "(u64 \<Rightarrow> hash) \<Rightarrow> (u64 \<Rightarrow> hash) \<Rightarrow> (u64 \<Rightarrow> hash set) \<Rightarrow> u64 \<Rightarrow> BlockBundle \<Rightarrow> bool" where
  "node_block H P T n b \<longleftrightarrow> bb_Number b = n \<and> wf_bundle b \<and> header b = (H n, P n) \<and>
     t_Hash ` set (bb_Transactions b) = T n"

lemma node_block_clone: "node_block H P T n b \<Longrightarrow> node_block H P T n (cloneBundle b)"
  by (simp add: node_block_def image_image)

lemma canonical_node:
  assumes block: "\<And>n b. M n = Some b \<Longrightarrow> n \<le> N \<and> node_block H P T n b"
    and interval: "\<And>a c x. a \<in> dom M \<Longrightarrow> c \<in> dom M \<Longrightarrow> a \<le> x \<Longrightarrow> x \<le> c \<Longrightarrow> x \<in> dom M"
    and parents: "\<forall>n < N. P (n + 1) = H n" and disjoint: "\<forall>n \<le> N. \<forall>k \<le> N. n \<noteq> k \<longrightarrow> T n \<inter> T k = {}"
  shows "canonical_bundles M"
  unfolding canonical_bundles_def
proof (intro conjI allI impI)
  fix n b assume "M n = Some b"
  then show "bb_Number b = n" "wf_bundle b" using block by (auto simp: node_block_def)
next
  have dom: "dom (map_option header \<circ> M) = dom M" by auto
  have "p' = h" if ne: "n \<noteq> MaxUint64" and at: "(map_option header \<circ> M) n = Some (h, p)"
      "(map_option header \<circ> M) (n + 1) = Some (h', p')" for n h p h' p'
  proof -
    obtain b c where bc: "M n = Some b" "M (n + 1) = Some c" "header b = (h, p)" "header c = (h', p')"
      using at by auto
    then have "n + 1 \<le> N" "h = H n" "p' = P (n + 1)" using block by (auto simp: node_block_def)
    moreover have "n < N" using less_Suc_u64 [OF ne] calculation(1) by (meson less_le_trans)
    ultimately show ?thesis using parents by simp
  qed
  then show "linked_chain (map_option header \<circ> M)" unfolding linked_chain_def dom using interval by blast
next
  fix n k b c assume "M n = Some b" "M k = Some c" "n \<noteq> k"
  then show "t_Hash ` set (bb_Transactions b) \<inter> t_Hash ` set (bb_Transactions c) = {}"
    using block disjoint by (simp add: node_block_def)
qed

text \<open>Below a stored block of the node's chain everything stored is of that chain.\<close>

lemma stored_below:
  assumes node: "steady_node sy f N H P T" and inv: "memory_inv m" and binds: "binds m H P T"
    and k: "memory_chain m k = Some (H k, p)" "k \<le> N" and n: "map_of (m_bundles m) n = Some b" "n \<le> k"
  shows "node_block H P T n b"
proof -
  have hash: "bb_Hash b = H n" if "map_of (m_bundles m) n = Some b" "n \<le> k" for n b
    using that
  proof (induction "unat k - unat n" arbitrary: n b)
    case 0
    then have "unat k \<le> unat n" "unat n \<le> unat k" by (simp_all add: word_le_nat_alt)
    then have "n = k" by (simp add: word_unat_eq_iff)
    with 0 k show ?case by (auto simp: memory_chain_def header_def)
  next
    case (Suc d)
    then have lt: "n < k" by (simp add: word_less_nat_alt)
    note ne = less_imp_neq_MaxUint64 [OF lt]
    have linked: "linked_chain (memory_chain m)" by (rule mem.chain_linked [OF inv])
    have here: "memory_chain m n = Some (header b)" using Suc.prems by (simp add: memory_chain_def)
    have "n + 1 \<in> dom (memory_chain m)"
      using linked here k(1) less_imp_le [OF less_Suc_u64 [OF ne]] inc_le [OF lt] unfolding linked_chain_def by blast
    then obtain c where c: "map_of (m_bundles m) (n + 1) = Some c" by (auto simp: memory_chain_def)
    then have "bb_Hash c = H (n + 1)"
      using Suc.hyps(1) [OF _ c inc_le [OF lt]] Suc.hyps(2) by (simp add: unat_Suc_u64 [OF ne])
    then have "bb_ParentHash c = P (n + 1)" using binds c by (simp add: binds_def)
    moreover have "bb_ParentHash c = bb_Hash b"
    proof -
      have "memory_chain m n = Some (bb_Hash b, bb_ParentHash b)"
        "memory_chain m (n + 1) = Some (bb_Hash c, bb_ParentHash c)"
        using here c by (simp_all add: memory_chain_def header_def)
      with linked ne show ?thesis unfolding linked_chain_def by blast
    qed
    moreover have "P (n + 1) = H n" using node lt k(2) unfolding steady_node_def by (meson less_le_trans)
    ultimately show ?case by simp
  qed
  note wf = stored_wf [OF inv n(1)] and here = hash [OF n]
  have "bb_ParentHash b = P n" "t_Hash ` set (bb_Transactions b) = T n"
    using binds n(1) here unfolding binds_def by blast+
  with wf here show ?thesis unfolding node_block_def header_def by simp
qed

lemma fetch_missing_steady:
  assumes node: "steady_node sy f N H P T" and ctx: "calm ctx" and "from \<le> N" and small: "uint (N - from) < MaxInt64"
  shows "\<exists>bs w'. fetch_missing ctx sy from N (H N) w = (Inr bs, w') \<and>
    (\<forall>b \<in> set bs. node_block H P T (bb_Number b) b \<and> from \<le> bb_Number b \<and> bb_Number b \<le> N) \<and>
    (\<forall>n. from \<le> n \<longrightarrow> n \<le> N \<longrightarrow> n \<in> bb_Number ` set bs)"
proof -
  let ?Q = "\<lambda>n b. header b = (H n, P n) \<and> t_Hash ` set (bb_Transactions b) = T n"
  have f: "y_fetcher sy = Some f" "block_numbers (f_chain f)" using node by (auto simp: steady_node_def)
  have up: "unat (from + of_nat i) = unat from + i" "from + of_nat i \<le> N" if "i \<le> unat (N - from)" for i
  proof -
    have "unat (N - from) = unat N - unat from" using assms(3) by (simp add: unat_sub)
    then have i: "unat from + i \<le> unat N" using that assms(3) by (simp add: word_le_nat_alt)
    moreover have "unat N < 2 ^ 64" using unsigned_less [of N] by simp
    ultimately show "unat (from + of_nat i) = unat from + i"
      by (simp add: unat_word_ariths unat_of_nat)
    then show "from + of_nat i \<le> N" using i by (simp add: word_le_nat_alt)
  qed
  have answers: "answers f from (Suc (unat (N - from))) ?Q"
    unfolding answers_def
  proof (intro allI impI)
    fix i w assume "i < Suc (unat (N - from))"
    then have "from + of_nat i \<le> N" using up(2) by simp
    then show "\<exists>b w'. FetchBlock f (from + of_nat i) w = (Inr b, w') \<and> ?Q (from + of_nat i) b"
      using node unfolding steady_node_def by blast
  qed
  have links: "bb_ParentHash c = bb_Hash b"
    if "i < unat (N - from)" "?Q (from + of_nat i) b" "?Q (from + of_nat (Suc i)) c" for i b c
  proof -
    have "from + of_nat i < N"
      using up(1) [of i] up(1) [of "Suc i"] up(2) [of "Suc i"] that(1) by (simp add: word_less_nat_alt word_le_nat_alt)
    then have "P (from + of_nat i + 1) = H (from + of_nat i)" using node unfolding steady_node_def by blast
    moreover have "from + of_nat (Suc i) = from + of_nat i + 1" by (simp add: algebra_simps)
    ultimately have "P (from + of_nat (Suc i)) = H (from + of_nat i)" by (simp only:)
    with that(2,3) show ?thesis unfolding header_def by (metis prod.inject)
  qed
  have calm: "fst (env_ctx (cx_env ctx) v) = None" for v using ctx by (simp add: calm_def)
  have "\<exists>bs w'. FetchRange (cx_env ctx) f from N (c_RPCConcurrency (y_config sy)) w = (Inr bs, w') \<and>
      length bs = Suc (unat (N - from)) \<and> (\<forall>i < length bs. ?Q (from + of_nat i) (bs ! i))"
    by (rule FetchRange_live [OF assms(3) small answers calm links])
  then obtain bs w' where bs: "FetchRange (cx_env ctx) f from N (c_RPCConcurrency (y_config sy)) w = (Inr bs, w')"
      "length bs = Suc (unat (N - from))" "\<forall>i < length bs. ?Q (from + of_nat i) (bs ! i)"
    by blast
  note ok = FetchRange_ok [OF bs(1)] and cons = FetchRange_consecutive [OF bs(1)]
  have at: "bb_Number (bs ! i) = from + of_nat i \<and> node_block H P T (from + of_nat i) (bs ! i)" if i: "i < length bs" for i
  proof -
    obtain v v' where v: "FetchBlock f (from + of_nat i) v = (Inr (bs ! i), v')" using ok(4) [OF i] by (auto simp: fetched_def)
    show ?thesis using FetchBlock_number [OF v] FetchBlock_wf [OF v f(2)] bs(3) i by (simp add: node_block_def)
  qed
  have "header (last bs) = (H N, P N)"
  proof -
    have "bs ! unat (N - from) = last bs" using bs(2) cons(2) by (simp add: last_conv_nth)
    moreover have "from + of_nat (unat (N - from)) = N" by simp
    ultimately show ?thesis using bs(3) bs(2) by (metis lessI)
  qed
  then have "fetch_missing ctx sy from N (H N) w = (Inr bs, w')"
    using bs(1) f assms(3) cons(2) by (simp add: fetch_missing_def header_def)
  moreover have "node_block H P T (bb_Number b) b \<and> from \<le> bb_Number b \<and> bb_Number b \<le> N" if b: "b \<in> set bs" for b
  proof -
    obtain i where i: "i < length bs" "bs ! i = b" using b unfolding in_set_conv_nth by blast
    have "from \<le> bb_Number b" "bb_Number b \<le> N"
      using consecutive_from_ge [OF cons(1) b] consecutive_from_last [OF cons(1) b] cons(3) by auto
    with at [OF i(1)] i(2) show ?thesis by simp
  qed
  moreover have "n \<in> bb_Number ` set bs" if "from \<le> n" "n \<le> N" for n
  proof -
    have i: "unat (n - from) < length bs"
      using that bs(2) assms(3) by (simp add: unat_sub word_le_nat_alt)
    moreover have "from + of_nat (unat (n - from)) = n" by simp
    ultimately show ?thesis using at [OF i] nth_mem by (metis imageI)
  qed
  ultimately show ?thesis by blast
qed

lemma window_fits:
  assumes "validateSyncOnceConfig sy = None" and "windowStart N (c_BlockWindow (y_config sy)) \<le> from" and "from \<le> N"
  shows "uint (N - from) < MaxInt64"
proof -
  let ?lo = "windowStart N (c_BlockWindow (y_config sy))"
  have "unat (N - from) \<le> unat N - unat ?lo" using assms(2,3) by (simp add: unat_sub word_le_nat_alt)
  also have "\<dots> < unat (c_BlockWindow (y_config sy))"
    using windowStart_size [OF validated_window(1) [OF assms(1)], of N] by simp
  also have "\<dots> \<le> 50" using validated_window(2) [OF assms(1)] by (simp add: MaxBlockWindow_def word_le_nat_alt)
  finally have "int (unat (N - from)) < int 50" by (simp only: of_nat_less_iff)
  then show ?thesis by (simp add: MaxInt64_def)
qed

text \<open>The candidate of a cycle is canonical: the store accepts the update.\<close>

lemma candidate_canonical:
  assumes node: "steady_node sy f N H P T" and inv: "memory_inv m" and binds: "binds m H P T"
    and below: "from = lo \<or> (\<exists>k p. from = k + 1 \<and> lo \<le> k \<and> k \<le> N \<and> memory_chain m k = Some (H k, p))"
    and "N \<noteq> MaxUint64" and u: "u_ReplaceFrom u = from" "u_RetainFrom u = lo" "u_Blocks u = bs" and cons: "consecutive_from from bs"
    and blocks: "\<forall>b \<in> set bs. node_block H P T (bb_Number b) b \<and> from \<le> bb_Number b \<and> bb_Number b \<le> N"
      "\<forall>n. from \<le> n \<longrightarrow> n \<le> N \<longrightarrow> n \<in> bb_Number ` set bs"
  shows "canonical_bundles (updated cloneBundle u (map_of (m_bundles m)))"
    and "\<And>n b. updated cloneBundle u (map_of (m_bundles m)) n = Some b \<Longrightarrow> n \<le> N \<and> node_block H P T n b"
    and "\<And>n. from \<le> n \<Longrightarrow> n \<le> N \<Longrightarrow> n \<in> dom (updated cloneBundle u (map_of (m_bundles m)))"
proof -
  let ?M = "map_of (m_bundles m)" and ?M' = "updated cloneBundle u (map_of (m_bundles m))"
  have retained: "node_block H P T n b \<and> n \<le> N" if n: "lo \<le> n" "n < from" "?M n = Some b" for n b
  proof -
    obtain k p where k: "from = k + 1" "k \<le> N" "memory_chain m k = Some (H k, p)" using below n(1,2) by auto
    have "k \<noteq> MaxUint64" using k(2) assms(5) by (metis le_MaxUint64 order_antisym)
    then have "n \<le> k" using n(2) k(1) by (metis between_Suc_u64 inc_le leI less_le_not_le)
    with stored_below [OF node inv binds k(3,2) n(3)] k(2) show ?thesis by (meson order_trans)
  qed
  show block: "n \<le> N \<and> node_block H P T n b" if "?M' n = Some b" for n b
    using updated_Some [OF that] retained blocks(1) node_block_clone by (auto simp: u)
  have dom: "n \<in> dom ?M' \<longleftrightarrow> (lo \<le> n \<and> n < from \<and> n \<in> dom ?M) \<or> (from \<le> n \<and> n \<le> N)" for n
  proof
    assume "n \<in> dom ?M'"
    then obtain b where "?M' n = Some b" by blast
    from updated_Some [OF this] show "(lo \<le> n \<and> n < from \<and> n \<in> dom ?M) \<or> (from \<le> n \<and> n \<le> N)"
      using blocks(1) by (auto simp: u)
  next
    assume "(lo \<le> n \<and> n < from \<and> n \<in> dom ?M) \<or> (from \<le> n \<and> n \<le> N)"
    then show "n \<in> dom ?M'"
    proof
      assume "from \<le> n \<and> n \<le> N"
      then obtain b where b: "b \<in> set bs" "bb_Number b = n" using blocks(2) by blast
      then have "?M' (bb_Number b) = Some (cloneBundle b)" using updated_block [of "from" u b] cons u by simp
      with b show ?thesis by blast
    qed (auto simp: updated_def u map_add_dom_app_simps)
  qed
  have "x \<in> dom ?M'" if ac: "a \<in> dom ?M'" "c \<in> dom ?M'" "a \<le> x" "x \<le> c" for a c x
  proof (cases "from \<le> x")
    case True
    have "c \<le> N" using ac(2) block by blast
    with True ac(4) show ?thesis unfolding dom by (meson order_trans)
  next
    case False
    then have "a < from" using ac(3) by auto
    then have a: "lo \<le> a" "a \<in> dom ?M" using ac(1) unfolding dom by auto
    obtain k p where k: "from = k + 1" "k \<le> N" "memory_chain m k = Some (H k, p)"
      using below a(1) \<open>a < from\<close> by auto
    have "k \<noteq> MaxUint64" using k(2) assms(5) by (metis le_MaxUint64 order_antisym)
    then have "x \<le> k" using False k(1) by (metis between_Suc_u64 inc_le leI less_le_not_le)
    moreover have "a \<in> dom (memory_chain m)" "k \<in> dom (memory_chain m)" using a(2) k(3) by (auto simp: memory_chain_def)
    ultimately have "x \<in> dom (memory_chain m)"
      using mem.chain_linked [OF inv] ac(3) unfolding linked_chain_def by blast
    then have "x \<in> dom ?M" by (auto simp: memory_chain_def)
    moreover have "lo \<le> x" using a(1) ac(3) by (meson order_trans)
    ultimately show ?thesis using False unfolding dom by auto
  qed
  note interval = this
  show "canonical_bundles ?M'"
  proof (rule canonical_node [where N = N and H = H and P = P and T = T])
    show "n \<le> N \<and> node_block H P T n b" if "?M' n = Some b" for n b by (rule block [OF that])
    show "x \<in> dom ?M'" if "a \<in> dom ?M'" "c \<in> dom ?M'" "a \<le> x" "x \<le> c" for a c x by (rule interval [OF that])
    show "\<forall>n < N. P (n + 1) = H n" "\<forall>n \<le> N. \<forall>k \<le> N. n \<noteq> k \<longrightarrow> T n \<inter> T k = {}"
      using node unfolding steady_node_def by blast+
  qed
  show "n \<in> dom ?M'" if "from \<le> n" "n \<le> N" for n using that dom by blast
qed

lemma sync_steady:
  assumes inv: "memory_inv m" and store: "y_store sy = Some MemoryIndexStore"
    and valid: "validateSyncOnceConfig sy = None"
    and id: "m_chainID m = 0 \<or> m_chainID m = c_ChainID (y_config sy)"
    and ctx: "calm ctx" and node: "steady_node sy f N H P T" and binds: "binds m H P T" and N: "N \<noteq> MaxUint64"
  obtains r m' w' fr where "SyncOnce ctx sy m w = (Inr r, m', w')"
    and "sr_Head r = \<lparr>tip_Number = N, tip_Hash = H N\<rparr>"
    and "\<And>n h p. memory_chain m' n = Some (h, p) \<Longrightarrow> n \<le> N \<and> h = H n \<and> p = P n"
    and "\<And>n. fr \<le> n \<Longrightarrow> n \<le> N \<Longrightarrow> n \<in> dom (memory_chain m')"
    and "m_bundles m = [] \<Longrightarrow> fr = windowStart N (c_BlockWindow (y_config sy))"
    and "binds m' H P T" and "m_chainID m' = c_ChainID (y_config sy)"
proof -
  let ?lo = "windowStart N (c_BlockWindow (y_config sy))"
  obtain w1 where head: "selectedHead sy w = (Inr \<lparr>h_Number = Some (uint N), h_Hash = H N\<rparr>, w1)"
    using selectedHead_steady [OF node] by blast
  have num: "validHeaderNumber \<lparr>h_Number = Some (uint N), h_Hash = H N\<rparr> = Inr N" by (simp add: validHeaderNumber_iff)
  obtain tip where tip: "Memory_CanonicalTip None m = Inr tip"
    by (cases "Memory_CanonicalTip None m") (auto simp: Memory_CanonicalTip_def split: prod.splits if_splits)
  obtain w2 where "cx_call ctx w1 = (None, w2)" using ctx unfolding calm_def by (metis prod.collapse)
  then have read: "storedTip_read ctx sy m w1 = (Inr tip, w2)"
    using store tip by (simp add: storedTip_read_def MemoryIndexStore_def)
  have lo: "?lo \<le> N" by (rule windowStart_le [OF validated_window(1) [OF valid]])
  obtain plan w3 where plan: "replacementStart ctx sy tip N (H N) ?lo m w2 = (Inr plan, w3)"
    and below: "rp_From plan = ?lo \<or> (\<exists>k p. rp_From plan = k + 1 \<and> ?lo \<le> k \<and> k \<le> N \<and> memory_chain m k = Some (H k, p))"
    using replacementStart_returns [OF node ctx store inv tip lo N] by blast
  note bounds = replacementStart_bounds [OF plan lo]
  obtain bs w4 where bs: "fetch_missing ctx sy (rp_From plan) N (H N) w3 = (Inr bs, w4)"
    and blocks: "\<forall>b \<in> set bs. node_block H P T (bb_Number b) b \<and> rp_From plan \<le> bb_Number b \<and> bb_Number b \<le> N"
      "\<forall>n. rp_From plan \<le> n \<longrightarrow> n \<le> N \<longrightarrow> n \<in> bb_Number ` set bs"
    and cons: "consecutive_from (rp_From plan) bs"
  proof (cases "rp_From plan \<le> N")
    case True
    with bounds have "uint (N - rp_From plan) < MaxInt64" using window_fits [OF valid] by blast
    from fetch_missing_steady [OF node ctx True this, of w3] obtain bs w4
      where bs: "fetch_missing ctx sy (rp_From plan) N (H N) w3 = (Inr bs, w4)"
        and blocks: "\<forall>b \<in> set bs. node_block H P T (bb_Number b) b \<and> rp_From plan \<le> bb_Number b \<and> bb_Number b \<le> N"
          "\<forall>n. rp_From plan \<le> n \<longrightarrow> n \<le> N \<longrightarrow> n \<in> bb_Number ` set bs" by blast
    show thesis by (rule that [OF bs blocks fetch_missing_range(1) [OF bs True]])
  next
    case False
    then have none: "fetch_missing ctx sy (rp_From plan) N (H N) w3 = (Inr [], w3)" by (simp add: fetch_missing_def)
    show thesis by (rule that [OF none]) (use False in auto)
  qed
  obtain t w5 where t: "y_now sy w4 = (t, w5)" by fastforce
  let ?u = "\<lparr>u_ChainID = c_ChainID (y_config sy), u_ReplaceFrom = rp_From plan, u_RetainFrom = ?lo,
    u_Blocks = bs, u_SyncedAt = Time_UTC t\<rparr>"
  note cand = candidate_canonical [OF node inv binds below N, of ?u bs, OF _ _ _ cons blocks, simplified]
  have acc: "update_accepted (m_chainID m) (map_of (m_bundles m)) ?u"
    using id bounds cons cand(1) validated_window(3) [OF valid] by (auto simp: update_accepted_def)
  obtain m' where app: "Memory_ApplyCanonicalUpdate None ?u m = (None, m')"
    using Memory_Apply_cases(1) [OF inv acc] by blast
  have stored: "map_of (m_bundles m') = updated cloneBundle ?u (map_of (m_bundles m))"
    using Memory_Apply_chain(1) [OF inv app] by simp
  obtain w6 where "cx_call ctx w5 = (None, w6)" using ctx unfolding calm_def by (metis prod.collapse)
  then have upd: "apply_update ctx sy ?u m w5 = (None, m', w6)"
    using store app by (simp add: apply_update_def MemoryIndexStore_def)
  let ?r = "sync_result N (H N) tip plan ?lo bs (Time_UTC t)"
  have "SyncOnce ctx sy m w = (Inr ?r, m', w6)"
    using valid head num read plan bs t upd by (simp add: SyncOnce_def Let_def)
  moreover have "sr_Head ?r = \<lparr>tip_Number = N, tip_Hash = H N\<rparr>" by (simp add: sync_result_def)
  moreover have "n \<le> N \<and> h = H n \<and> p = P n" if "memory_chain m' n = Some (h, p)" for n h p
    using that cand(2) [of n] by (auto simp: memory_chain_def stored node_block_def)
  moreover have "n \<in> dom (memory_chain m')" if "rp_From plan \<le> n" "n \<le> N" for n
    using cand(3) [OF that] by (auto simp: memory_chain_def stored)
  moreover have "rp_From plan = ?lo" if "m_bundles m = []" using below that by (auto simp: memory_chain_def)
  moreover have "binds m' H P T" unfolding binds_def stored using cand(2) by (simp add: node_block_def header_def)
  moreover have "m_chainID m' = c_ChainID (y_config sy)" using Memory_Apply_chain(1) [OF inv app] by simp
  ultimately show thesis by (rule that)
qed

lemma sync_steady_chain:
  assumes "memory_inv m" and "y_store sy = Some MemoryIndexStore" and "validateSyncOnceConfig sy = None"
    and "m_chainID m = 0 \<or> m_chainID m = c_ChainID (y_config sy)"
    and "calm ctx" and "steady_node sy f N H P T" and "binds m H P T" and "N \<noteq> MaxUint64"
  shows "\<exists>r m' w' low. SyncOnce ctx sy m w = (Inr r, m', w') \<and>
    sr_Head r = \<lparr>tip_Number = N, tip_Hash = H N\<rparr> \<and>
    windowStart N (c_BlockWindow (y_config sy)) \<le> low \<and> low \<le> N \<and>
    memory_chain m' = (\<lambda>n. if low \<le> n \<and> n \<le> N then Some (H n, P n) else None) \<and>
    (m_bundles m = [] \<longrightarrow> low = windowStart N (c_BlockWindow (y_config sy))) \<and>
    memory_inv m' \<and> binds m' H P T \<and> m_chainID m' = c_ChainID (y_config sy)"
proof -
  let ?lo = "windowStart N (c_BlockWindow (y_config sy))"
  obtain r m' w' fr where run: "SyncOnce ctx sy m w = (Inr r, m', w')" "sr_Head r = \<lparr>tip_Number = N, tip_Hash = H N\<rparr>"
    and own: "\<And>n h p. memory_chain m' n = Some (h, p) \<Longrightarrow> n \<le> N \<and> h = H n \<and> p = P n"
    and full: "\<And>n. fr \<le> n \<Longrightarrow> n \<le> N \<Longrightarrow> n \<in> dom (memory_chain m')"
    and start: "m_bundles m = [] \<Longrightarrow> fr = ?lo" and keep: "binds m' H P T" "m_chainID m' = c_ChainID (y_config sy)"
    by (rule sync_steady [OF assms, of w]) (rule that)
  note ok = mem.sync_ok [OF assms(1,2) run(1), unfolded run(2), simplified]
  let ?D = "dom (memory_chain m')"
  have N: "N \<in> ?D" using ok(2) by blast
  have inside: "?lo \<le> n \<and> n \<le> N" if "n \<in> ?D" for n using ok(3,4) that by auto
  have finite: "finite ?D" by (rule mem.chain_finite [OF ok(1)])
  have low: "Min ?D \<in> ?D" using Min_in [OF finite] N by blast
  have dom: "n \<in> ?D \<longleftrightarrow> Min ?D \<le> n \<and> n \<le> N" for n
    using mem.chain_linked [OF ok(1)] N low inside Min_le [OF finite] unfolding linked_chain_def by blast
  have "memory_chain m' n = (if Min ?D \<le> n \<and> n \<le> N then Some (H n, P n) else None)" for n
    using dom [of n] own [of n] by (cases "memory_chain m' n") (auto simp: domIff)
  moreover have "Min ?D = ?lo" if "m_bundles m = []"
  proof -
    have "?lo \<in> ?D" using full [of ?lo] start [OF that] inside [OF N] by simp
    then show ?thesis using Min_le [OF finite] inside [OF low] by (meson order.antisym)
  qed
  ultimately show ?thesis using run inside [OF low] keep ok(1) by blast
qed

section \<open>Property\<close>

text \<open>
  C3: a cycle converges. Against a node that answers every request from one chain with head
  \<open>N\<close>, and with nothing cancelled, \<open>SyncOnce\<close> succeeds from every consistent store of that chain ID,
  on whatever fork the store is and however far behind or ahead. Afterwards the store holds an
  unbroken run of the node's own blocks that ends at the head, and from an empty store it is the
  whole window.
\<close>

theorem sync_converges:
  assumes "memory_inv m" and "y_store sy = Some MemoryIndexStore" and "validateSyncOnceConfig sy = None"
    and "m_chainID m = 0 \<or> m_chainID m = c_ChainID (y_config sy)"
    and "calm ctx" and "steady_node sy f N H P T" and "binds m H P T" and "N \<noteq> MaxUint64"
  shows "\<exists>r m' w' low. SyncOnce ctx sy m w = (Inr r, m', w') \<and>
    sr_Head r = \<lparr>tip_Number = N, tip_Hash = H N\<rparr> \<and>
    windowStart N (c_BlockWindow (y_config sy)) \<le> low \<and> low \<le> N \<and>
    memory_chain m' = (\<lambda>n. if low \<le> n \<and> n \<le> N then Some (H n, P n) else None) \<and>
    (m_bundles m = [] \<longrightarrow> low = windowStart N (c_BlockWindow (y_config sy)))"
  using sync_steady_chain [OF assms, of w] by blast

definition sample_stale :: Memory where
  "sample_stale = snd (Memory_ApplyCanonicalUpdate None \<lparr>u_ChainID = 1, u_ReplaceFrom = 0, u_RetainFrom = 0,
     u_Blocks = [sample_bundle 0 100 99 1000, sample_bundle 1 701 100 5001], u_SyncedAt = zero_Time\<rparr> NewMemory)"

definition sample_hash :: "u64 \<Rightarrow> hash" where "sample_hash n = 100 + ucast n"
definition sample_parent :: "u64 \<Rightarrow> hash" where "sample_parent n = 99 + ucast n"
definition sample_hashes :: "u64 \<Rightarrow> hash set" where "sample_hashes n = {1000 + ucast n}"

lemma upto_2: "n \<le> (2 :: u64) \<Longrightarrow> n = 0 \<or> n = 1 \<or> n = 2"
proof -
  assume "n \<le> 2"
  then have "unat n \<le> 2" by (simp add: word_le_nat_alt)
  then have "unat n = 0 \<or> unat n = 1 \<or> unat n = 2" by linarith
  then show ?thesis by (simp add: word_unat_eq_iff)
qed

lemma sample_answers:
  "\<forall>w. \<exists>b w'. FetchBlock (sample_fetcher 2) n w = (Inr b, w') \<and> header b = (sample_hash n, sample_parent n) \<and>
     t_Hash ` set (bb_Transactions b) = sample_hashes n" if "n \<le> 2"
proof
  fix w
  have "(case fst (FetchBlock (sample_fetcher 2) n 0) of Inl e \<Rightarrow> False
      | Inr b \<Rightarrow> header b = (sample_hash n, sample_parent n) \<and> t_Hash ` set (bb_Transactions b) = sample_hashes n)"
    using upto_2 [OF that] by (elim disjE; simp only:; code_simp)
  then show "\<exists>b w'. FetchBlock (sample_fetcher 2) n w = (Inr b, w') \<and> header b = (sample_hash n, sample_parent n) \<and>
     t_Hash ` set (bb_Transactions b) = sample_hashes n"
    unfolding sample_fetch_world [of 2 n 0 w]
    by (cases "FetchBlock (sample_fetcher 2) n w") (auto split: sum.splits)
qed

lemma sample_steady_node:
  "steady_node (sample_syncer 2) (sample_fetcher 2) 2 sample_hash sample_parent sample_hashes"
  unfolding steady_node_def
proof (intro conjI)
  show "\<exists>chain. y_chain (sample_syncer 2) = Some chain \<and>
        (\<forall>w. \<exists>w'. r_HeaderByNumber chain (head_selector (sample_syncer 2)) w =
           (Inr (Some \<lparr>h_Number = Some (uint (2 :: u64)), h_Hash = sample_hash 2\<rparr>), w')) \<and>
        (\<forall>n < 2. \<forall>w. \<exists>w'. r_HeaderByNumber chain (Some (uint n)) w =
           (Inr (Some \<lparr>h_Number = Some (uint n), h_Hash = sample_hash n\<rparr>), w'))"
    by (auto simp: sample_syncer_def NewSyncer_def sample_reader_def head_selector_def sample_config_def
        HeadLatest_def HeadSafe_def HeadFinalized_def sample_hash_def word_less_def unsigned_ucast_eq)
  show "y_fetcher (sample_syncer 2) = Some (sample_fetcher 2)" by (simp add: sample_syncer_def NewSyncer_def)
  show "block_numbers (f_chain (sample_fetcher 2))" by (rule sample_block_numbers)
  show "\<forall>n \<le> 2. \<forall>w. \<exists>b w'. FetchBlock (sample_fetcher 2) n w = (Inr b, w') \<and>
      header b = (sample_hash n, sample_parent n) \<and> t_Hash ` set (bb_Transactions b) = sample_hashes n"
    using sample_answers by blast
  show "\<forall>n < 2. sample_parent (n + 1) = sample_hash n"
    by (auto simp: sample_parent_def sample_hash_def dest!: less_imp_le upto_2)
  show "\<forall>n \<le> 2. \<forall>k \<le> 2. n \<noteq> k \<longrightarrow> sample_hashes n \<inter> sample_hashes k = {}"
    by (auto simp: sample_hashes_def dest!: upto_2)
qed

lemma sample_stale_facts:
  "memory_inv sample_stale" "m_chainID sample_stale = 1" "memory_chain sample_stale 1 = Some (701, 100)"
  "m_bundles sample_stale = [(0, cloneBundle (sample_bundle 0 100 99 1000)), (1, cloneBundle (sample_bundle 1 701 100 5001))]"
proof -
  show "memory_inv sample_stale"
    unfolding sample_stale_def by (rule Memory_Apply_inv [OF NewMemory_inv prod.collapse [symmetric]])
qed (code_simp+)

lemma sample_binds: "binds sample_stale sample_hash sample_parent sample_hashes"
  unfolding binds_def sample_stale_facts(4)
  by (auto simp: cloneBundle_def sample_defs sample_hash_def sample_parent_def sample_hashes_def split: if_splits)

lemma sample_calm: "calm sample_context"
  by (simp add: calm_def sample_context_def sample_env_def)

theorem sync_converges_witness:
  "\<exists>r m' w'. SyncOnce sample_context (sample_syncer 2) sample_stale 0 = (Inr r, m', w') \<and>
     sr_Head r = \<lparr>tip_Number = 2, tip_Hash = 102\<rparr> \<and> memory_chain sample_stale 1 = Some (701, 100) \<and>
     memory_chain m' 2 = Some (102, 101)"
proof -
  have valid: "validateSyncOnceConfig (sample_syncer 2) = None" and "c_ChainID (y_config (sample_syncer 2)) = 1"
    by code_simp+
  then have id: "m_chainID sample_stale = 0 \<or> m_chainID sample_stale = c_ChainID (y_config (sample_syncer 2))"
    using sample_stale_facts(2) by simp
  obtain r m' w' low where run: "SyncOnce sample_context (sample_syncer 2) sample_stale 0 = (Inr r, m', w')"
      "sr_Head r = \<lparr>tip_Number = 2, tip_Hash = sample_hash 2\<rparr>" "low \<le> 2"
      "memory_chain m' = (\<lambda>n. if low \<le> n \<and> n \<le> 2 then Some (sample_hash n, sample_parent n) else None)"
    using sync_converges [OF sample_stale_facts(1) sample_store valid id sample_calm sample_steady_node sample_binds, of 0]
    by (auto simp: MaxUint64_def)
  have "memory_chain m' 2 = Some (102, 101)" using run(3) by (simp add: run(4) sample_hash_def sample_parent_def)
  then show ?thesis using run(1,2) sample_stale_facts(3) by (simp add: sample_hash_def)
qed

end
