(* ===== verification/Runner.thy ===== *)
theory Runner
  imports Syncer
begin

text \<open>
  The polling loop of \<open>internal/indexer/runner.go\<close>: retries with exponential backoff, the permanent
  errors that are not retried, and the loop that runs until its context is done. The loop may run
  forever, so \<open>run\<close> is a partial function whose value \<^const>\<open>None\<close> is not returning; one turn of it
  is \<open>poll\<close>. A \<open>SyncFunc\<close> is the argument \<open>sync\<close> of \<open>run\<close>.
\<close>

type_synonym ('x, 's, 'w) SyncFunc = "('x, 'w) Context \<Rightarrow> 's \<Rightarrow> 'w \<Rightarrow> (err + SyncResult) \<times> 's \<times> 'w"

definition ctx_Err :: "('x, 'w) Context \<Rightarrow> 'w \<Rightarrow> ctx \<times> 'w" where
  "ctx_Err ctx w = env_ctx (cx_env ctx) w"

section \<open>Retries\<close>

definition isPermanentSyncError :: "err \<Rightarrow> bool" where
  "isPermanentSyncError e \<longleftrightarrow>
     errors_Is e ErrInvalidSyncConfig \<or> errors_Is e ErrInvalidSyncDependency \<or>
     errors_Is e ErrInvalidCanonicalUpdate \<or> errors_Is e ErrInconsistentData"

definition nextRetryBackoff :: "int \<Rightarrow> int \<Rightarrow> int" where
  "nextRetryBackoff current maximum =
     (if current \<ge> maximum \<or> current > maximum - current then maximum else current * 2)"

definition retry_warning :: "Config \<Rightarrow> err \<Rightarrow> int \<Rightarrow> int \<Rightarrow> LogEntry" where
  "retry_warning config e retry backoff =
     \<lparr>le_Level = WarnLevel,
      le_Fields = [(''error'', LErr e), (''retry'', LInt (retry + 1)),
        (''retry_limit'', LInt (c_RetryAttempts config)), (''backoff'', LDur backoff)],
      le_Msg = ''Ethereum synchronization failed; retrying''\<rparr>"

text \<open>The loop of \<open>syncWithRetry\<close> from the attempt number \<open>retry\<close> on.\<close>

function retry_loop ::
  "('x, 's, 'w) Syncer \<Rightarrow> ('x, 's, 'w) SyncFunc \<Rightarrow> ('x, 'w) Context \<Rightarrow> int \<Rightarrow> int \<Rightarrow> 's \<Rightarrow> 'w
   \<Rightarrow> (err + SyncResult) \<times> 's \<times> 'w" where
  "retry_loop sy sync ctx retry backoff s w =
     (case sync ctx s w of
        (Inr result, s1, w1) \<Rightarrow> (Inr result, s1, w1)
      | (Inl e, s1, w1) \<Rightarrow>
     (case ctx_Err ctx w1 of
        (Some c, w2) \<Rightarrow> (Inl (ctx_err c), s1, w2)
      | (None, w2) \<Rightarrow>
          if isPermanentSyncError e then (Inl e, s1, w2)
          else if retry \<ge> c_RetryAttempts (y_config sy)
          then (Inl (Errorf ''%w after %d attempts: %w'' [Sentinel ErrSyncRetriesExhausted, e]), s1, w2)
          else
     (case y_wait sy ctx backoff (y_logger sy (retry_warning (y_config sy) e retry backoff) w2) of
        (Some e', w3) \<Rightarrow>
          (case ctx_Err ctx w3 of
             (Some c, w4) \<Rightarrow> (Inl (ctx_err c), s1, w4)
           | (None, w4) \<Rightarrow> (Inl (Errorf ''wait before synchronization retry: %w'' [e']), s1, w4))
      | (None, w3) \<Rightarrow>
          retry_loop sy sync ctx (retry + 1)
            (nextRetryBackoff backoff (c_RetryMaxBackoff (y_config sy))) s1 w3)))"
  by pat_completeness auto
termination
  by (relation "measure (\<lambda>(sy, sync, ctx, retry, backoff, s, w). nat (c_RetryAttempts (y_config sy) - retry))") auto

declare retry_loop.simps [simp del]

definition syncWithRetry ::
  "('x, 's, 'w) Syncer \<Rightarrow> ('x, 's, 'w) SyncFunc \<Rightarrow> ('x, 'w) Context \<Rightarrow> 's \<Rightarrow> 'w
   \<Rightarrow> (err + SyncResult) \<times> 's \<times> 'w" where
  "syncWithRetry sy sync ctx s w = retry_loop sy sync ctx 0 (c_RetryMinBackoff (y_config sy)) s w"

section \<open>Configuration and logging\<close>

definition validateRunConfig :: "('x, 's, 'w) Syncer \<Rightarrow> error" where
  "validateRunConfig sy =
     (case validateSyncOnceConfig sy of
        Some e \<Rightarrow> Some e
      | None \<Rightarrow>
          let config = y_config sy in
          if c_PollInterval config \<le> 0
          then Some (sync_config ''%w: poll interval must be greater than zero'')
          else if c_RetryAttempts config < 0
          then Some (sync_config ''%w: retry attempts cannot be negative'')
          else if c_RetryMinBackoff config \<le> 0
          then Some (sync_config ''%w: retry minimum backoff must be greater than zero'')
          else if c_RetryMaxBackoff config \<le> 0
          then Some (sync_config ''%w: retry maximum backoff must be greater than zero'')
          else if c_RetryMinBackoff config > c_RetryMaxBackoff config
          then Some (sync_config ''%w: retry minimum backoff cannot exceed maximum backoff'')
          else None)"

definition sync_level :: "SyncResult \<Rightarrow> log_level" where
  "sync_level result =
     (if sr_Reorg result \<noteq> None then WarnLevel
      else if sr_BlockCount result = 0 then DebugLevel else InfoLevel)"

definition reorg_fields :: "ReorgResult \<Rightarrow> (string \<times> log_value) list" where
  "reorg_fields reorg =
     [(''reorg_replaced_from_block'', LUint64 (rr_ReplacedFrom reorg)),
      (''reorg_replaced_to_block'', LUint64 (rr_ReplacedTo reorg)),
      (''reorg_replaced_blocks'', LUint64 (rr_ReplacedBlockCount reorg)),
      (''common_ancestor_found'', LBool (rr_CommonAncestor reorg \<noteq> None))] @
     (case rr_CommonAncestor reorg of
        None \<Rightarrow> []
      | Some a \<Rightarrow> [(''common_ancestor_number'', LUint64 (tip_Number a)),
                   (''common_ancestor_hash'', LHash (tip_Hash a))])"

definition sync_fields :: "Config \<Rightarrow> SyncResult \<Rightarrow> (string \<times> log_value) list" where
  "sync_fields config result =
     [(''chain_id'', LUint64 (c_ChainID config)),
      (''head_mode'', LStr (c_HeadMode config)),
      (''sync_mode'', LStr (sr_Mode result)),
      (''stored_tip_present'', LBool (sr_StoredTip result \<noteq> None)),
      (''selected_head_number'', LUint64 (tip_Number (sr_Head result))),
      (''selected_head_hash'', LHash (tip_Hash (sr_Head result))),
      (''retained_from_block'', LUint64 (sr_FromBlock result)),
      (''retained_to_block'', LUint64 (tip_Number (sr_Head result))),
      (''retained_blocks'', LUint64 (tip_Number (sr_Head result) - sr_FromBlock result + 1)),
      (''fetched_blocks'', LInt (sr_BlockCount result)),
      (''fetched_transactions'', LInt (sr_TransactionCount result)),
      (''fetched_events'', LInt (sr_EventCount result)),
      (''reorg_detected'', LBool (sr_Reorg result \<noteq> None)),
      (''synced_at'', LTime (sr_SyncedAt result))] @
     (case sr_StoredTip result of
        None \<Rightarrow> []
      | Some tip \<Rightarrow> [(''stored_tip_number'', LUint64 (tip_Number tip)), (''stored_tip_hash'', LHash (tip_Hash tip))]) @
     (if sr_BlockCount result > 0
      then [(''fetched_from_block'', LUint64 (sr_ReplaceFrom result)),
            (''fetched_to_block'', LUint64 (tip_Number (sr_Head result)))]
      else []) @
     (case sr_Reorg result of None \<Rightarrow> [] | Some reorg \<Rightarrow> reorg_fields reorg)"

definition logSyncResult :: "('x, 's, 'w) Syncer \<Rightarrow> SyncResult \<Rightarrow> 'w \<Rightarrow> 'w" where
  "logSyncResult sy result w =
     y_logger sy \<lparr>le_Level = sync_level result, le_Fields = sync_fields (y_config sy) result,
       le_Msg = ''Ethereum block window synchronized''\<rparr> w"

definition cycle_failed :: "err \<Rightarrow> LogEntry" where
  "cycle_failed e = \<lparr>le_Level = ErrorLevel, le_Fields = [(''error'', LErr e)],
     le_Msg = ''Ethereum synchronization cycle failed''\<rparr>"

section \<open>The loop\<close>

text \<open>One turn of the loop of \<open>run\<close>: it returns with an error, or goes on in a new state.\<close>

definition poll ::
  "('x, 's, 'w) Syncer \<Rightarrow> ('x, 's, 'w) SyncFunc \<Rightarrow> ('x, 'w) Context \<Rightarrow> 's \<Rightarrow> 'w
   \<Rightarrow> err option \<times> 's \<times> 'w" where
  "poll sy sync ctx s w =
     (case y_wait sy ctx (c_PollInterval (y_config sy)) w of
        (Some e, w1) \<Rightarrow>
          (case ctx_Err ctx w1 of
             (Some c, w2) \<Rightarrow> (Some (ctx_err c), s, w2)
           | (None, w2) \<Rightarrow> (Some (Errorf ''wait for next synchronization: %w'' [e]), s, w2))
      | (None, w1) \<Rightarrow>
     (case syncWithRetry sy sync ctx s w1 of
        (Inl e, s1, w2) \<Rightarrow>
          (case ctx_Err ctx w2 of
             (Some c, w3) \<Rightarrow> (Some (ctx_err c), s1, w3)
           | (None, w3) \<Rightarrow> (None, s1, y_logger sy (cycle_failed e) w3))
      | (Inr result, s1, w2) \<Rightarrow> (None, s1, logSyncResult sy result w2)))"

partial_function (option) poll_loop ::
  "('x, 's, 'w) Syncer \<Rightarrow> ('x, 's, 'w) SyncFunc \<Rightarrow> ('x, 'w) Context \<Rightarrow> 's \<Rightarrow> 'w \<Rightarrow> (err \<times> 's \<times> 'w) option" where
  "poll_loop sy sync ctx s w =
     (case poll sy sync ctx s w of
        (Some e, s1, w1) \<Rightarrow> Some (e, s1, w1)
      | (None, s1, w1) \<Rightarrow> poll_loop sy sync ctx s1 w1)"

text \<open>The synchronization before the loop: the error \<open>run\<close> returns, or the state it starts polling in.\<close>

definition startup ::
  "('x, 's, 'w) Syncer \<Rightarrow> ('x, 's, 'w) SyncFunc \<Rightarrow> ('x, 'w) Context \<Rightarrow> 's \<Rightarrow> 'w
   \<Rightarrow> err option \<times> 's \<times> 'w" where
  "startup sy sync ctx s w =
     (case validateRunConfig sy of
        Some e \<Rightarrow> (Some e, s, w)
      | None \<Rightarrow>
     (case syncWithRetry sy sync ctx s w of
        (Inl e, s1, w1) \<Rightarrow>
          (case ctx_Err ctx w1 of
             (Some c, w2) \<Rightarrow> (Some (ctx_err c), s1, w2)
           | (None, w2) \<Rightarrow> (Some (Errorf ''initial synchronization: %w'' [e]), s1, w2))
      | (Inr result, s1, w1) \<Rightarrow> (None, s1, logSyncResult sy result w1)))"

definition run ::
  "('x, 's, 'w) Syncer \<Rightarrow> ('x, 's, 'w) SyncFunc \<Rightarrow> ('x, 'w) Context \<Rightarrow> 's \<Rightarrow> 'w \<Rightarrow> (err \<times> 's \<times> 'w) option" where
  "run sy sync ctx s w =
     (case startup sy sync ctx s w of
        (Some e, s1, w1) \<Rightarrow> Some (e, s1, w1)
      | (None, s1, w1) \<Rightarrow> poll_loop sy sync ctx s1 w1)"

definition Run ::
  "('x, 's, 'w) Syncer \<Rightarrow> ('x, 'w) Context \<Rightarrow> 's \<Rightarrow> 'w \<Rightarrow> (err \<times> 's \<times> 'w) option" where
  "Run sy ctx s w = run sy (\<lambda>ctx. SyncOnce ctx sy) ctx s w"

end
