(* ===== verification/Runner_Props.thy ===== *)
theory Runner_Props
  imports Syncer_Live Runner
begin

text \<open>
  The proofs about the polling loop: the backoff schedule, the errors the retries return, the states
  the loop is reached in, and when \<open>run\<close> returns.
\<close>

section \<open>Backoff\<close>

lemma nextRetryBackoff_doubles:
  assumes "0 < mn"
  shows "nextRetryBackoff (min (mn * 2 ^ k) mx) mx = min (mn * 2 ^ Suc k) mx"
proof -
  have "0 < mn * 2 ^ k" using assms by simp
  then show ?thesis by (auto simp: nextRetryBackoff_def min_def)
qed

definition schedule :: "Config \<Rightarrow> nat \<Rightarrow> int" where
  "schedule config k = min (c_RetryMinBackoff config * 2 ^ k) (c_RetryMaxBackoff config)"

lemma nextRetryBackoff_schedule:
  "0 < c_RetryMinBackoff config \<Longrightarrow>
   nextRetryBackoff (schedule config k) (c_RetryMaxBackoff config) = schedule config (Suc k)"
  unfolding schedule_def by (rule nextRetryBackoff_doubles)

lemma schedule_0: "c_RetryMinBackoff config \<le> c_RetryMaxBackoff config \<Longrightarrow> schedule config 0 = c_RetryMinBackoff config"
  by (simp add: schedule_def)

lemma schedule_bounds:
  assumes "0 < c_RetryMinBackoff config" and "c_RetryMinBackoff config \<le> c_RetryMaxBackoff config"
  shows "c_RetryMinBackoff config \<le> schedule config k" "schedule config k \<le> c_RetryMaxBackoff config"
  using assms mult_left_mono [of 1 "2 ^ k" "c_RetryMinBackoff config"] by (simp_all add: schedule_def)

lemma validated_run:
  assumes "validateRunConfig sy = None"
  shows "validateSyncOnceConfig sy = None" "0 < c_PollInterval (y_config sy)" "0 \<le> c_RetryAttempts (y_config sy)"
    "0 < c_RetryMinBackoff (y_config sy)" "c_RetryMinBackoff (y_config sy) \<le> c_RetryMaxBackoff (y_config sy)"
  using assms by (auto simp: validateRunConfig_def Let_def split: option.splits if_splits)

section \<open>One attempt\<close>

lemma retry_loop_cases:
  assumes "retry_loop sy sync ctx k d s w = (r, s', w')"
  obtains (success) result where "sync ctx s w = (Inr result, s', w')" "r = Inr result"
    | (cancelled) e w1 c where "sync ctx s w = (Inl e, s', w1)" "ctx_Err ctx w1 = (Some c, w')" "r = Inl (ctx_err c)"
    | (permanent) e w1 where "sync ctx s w = (Inl e, s', w1)" "ctx_Err ctx w1 = (None, w')" "isPermanentSyncError e"
        "r = Inl e"
    | (exhausted) e w1 where "sync ctx s w = (Inl e, s', w1)" "ctx_Err ctx w1 = (None, w')"
        "\<not> isPermanentSyncError e" "c_RetryAttempts (y_config sy) \<le> k"
        "r = Inl (Errorf ''%w after %d attempts: %w'' [Sentinel ErrSyncRetriesExhausted, e])"
    | (interrupted) e w1 w2 e' w3 c where "sync ctx s w = (Inl e, s', w1)" "ctx_Err ctx w1 = (None, w2)"
        "\<not> isPermanentSyncError e" "k < c_RetryAttempts (y_config sy)"
        "y_wait sy ctx d (y_logger sy (retry_warning (y_config sy) e k d) w2) = (Some e', w3)" "ctx_Err ctx w3 = (c, w')"
        "r = Inl (case c of None \<Rightarrow> Errorf ''wait before synchronization retry: %w'' [e'] | Some c \<Rightarrow> ctx_err c)"
    | (again) e s1 w1 w2 w3 where "sync ctx s w = (Inl e, s1, w1)" "ctx_Err ctx w1 = (None, w2)"
        "\<not> isPermanentSyncError e" "k < c_RetryAttempts (y_config sy)"
        "y_wait sy ctx d (y_logger sy (retry_warning (y_config sy) e k d) w2) = (None, w3)"
        "retry_loop sy sync ctx (k + 1) (nextRetryBackoff d (c_RetryMaxBackoff (y_config sy))) s1 w3 = (r, s', w')"
proof -
  obtain q s1 w1 where q: "sync ctx s w = (q, s1, w1)" by (rule prod_cases3)
  obtain c w2 where c: "ctx_Err ctx w1 = (c, w2)" by fastforce
  note step = assms [unfolded retry_loop.simps [of sy sync ctx k d s w] q, simplified]
  show thesis
  proof (cases q)
    case (Inr result)
    with step q success show ?thesis by auto
  next
    case (Inl e)
    show ?thesis
    proof (cases "c = None \<and> \<not> isPermanentSyncError e \<and> k < c_RetryAttempts (y_config sy)")
      case False
      with step q c Inl cancelled permanent exhausted show ?thesis by (auto split: option.splits if_splits)
    next
      case True
      obtain z w3 where z: "y_wait sy ctx d (y_logger sy (retry_warning (y_config sy) e k d) w2) = (z, w3)" by fastforce
      obtain c' w4 where c': "ctx_Err ctx w3 = (c', w4)" by fastforce
      show ?thesis
      proof (cases z)
        case None
        with step q c z Inl True again show ?thesis by simp
      next
        case (Some e')
        with step q c z c' Inl True interrupted show ?thesis by (cases c') auto
      qed
    qed
  qed
qed

section \<open>Counting attempts\<close>

text \<open>
  \<open>calls\<close> and \<open>waits\<close> read off the world how often \<open>sync\<close> was called and for how long the loop
  waited. Nothing else changes them.
\<close>

definition observes ::
  "('x, 's, 'w) Syncer \<Rightarrow> ('x, 's, 'w) SyncFunc \<Rightarrow> ('x, 'w) Context \<Rightarrow> ('w \<Rightarrow> nat) \<Rightarrow> ('w \<Rightarrow> int list) \<Rightarrow> bool" where
  "observes sy sync ctx calls waits \<longleftrightarrow>
     (\<forall>s w r s' w'. sync ctx s w = (r, s', w') \<longrightarrow> calls w' = Suc (calls w) \<and> waits w' = waits w) \<and>
     (\<forall>w c w'. ctx_Err ctx w = (c, w') \<longrightarrow> calls w' = calls w \<and> waits w' = waits w) \<and>
     (\<forall>d w r w'. y_wait sy ctx d w = (r, w') \<longrightarrow> calls w' = calls w \<and> waits w' = waits w @ [d]) \<and>
     (\<forall>e w. calls (y_logger sy e w) = calls w \<and> waits (y_logger sy e w) = waits w)"

lemma observes_simps:
  assumes "observes sy sync ctx calls waits"
  shows "sync ctx s w = (r, s', w') \<Longrightarrow> calls w' = Suc (calls w) \<and> waits w' = waits w"
    and "ctx_Err ctx w = (c, w') \<Longrightarrow> calls w' = calls w \<and> waits w' = waits w"
    and "y_wait sy ctx d w = (q, w') \<Longrightarrow> calls w' = calls w \<and> waits w' = waits w @ [d]"
    and "calls (y_logger sy e w) = calls w" and "waits (y_logger sy e w) = waits w"
  using assms unfolding observes_def by blast+

lemma retry_loop_observed:
  assumes obs: "observes sy sync ctx calls waits" and pos: "0 < c_RetryMinBackoff (y_config sy)"
  shows "retry_loop sy sync ctx (int k) (schedule (y_config sy) k) s w = (r, s', w') \<Longrightarrow>
    \<exists>j. (j \<noteq> 0 \<longrightarrow> int (k + j) \<le> c_RetryAttempts (y_config sy)) \<and>
      waits w' = waits w @ map (schedule (y_config sy)) [k ..< k + j] \<and>
      calls w + j \<le> calls w' \<and> calls w' \<le> calls w + Suc j"
proof (induction "nat (c_RetryAttempts (y_config sy)) - k" arbitrary: k s w rule: less_induct)
  case less
  note obs = observes_simps [OF obs]
  from less.prems show ?case
  proof (cases rule: retry_loop_cases)
    case success
    then show ?thesis using obs(1) by (intro exI [of _ 0]) fastforce
  next
    case (cancelled e w1 c)
    then show ?thesis using obs(1) [OF cancelled(1)] obs(2) [OF cancelled(2)] by (intro exI [of _ 0]) simp
  next
    case (permanent e w1)
    then show ?thesis using obs(1) [OF permanent(1)] obs(2) [OF permanent(2)] by (intro exI [of _ 0]) simp
  next
    case (exhausted e w1)
    then show ?thesis using obs(1) [OF exhausted(1)] obs(2) [OF exhausted(2)] by (intro exI [of _ 0]) simp
  next
    case (interrupted e w1 w2 e' w3 c)
    then show ?thesis
      using obs(1) [OF interrupted(1)] obs(2) [OF interrupted(2)] obs(3) [OF interrupted(5)] obs(2) [OF interrupted(6)]
      by (intro exI [of _ 1]) (simp add: obs(4,5))
  next
    case (again e s1 w1 w2 w3)
    let ?d = "schedule (y_config sy)" and ?A = "c_RetryAttempts (y_config sy)"
    have w3: "calls w3 = Suc (calls w)" "waits w3 = waits w @ [?d k]"
      using obs(1) [OF again(1)] obs(2) [OF again(2)] obs(3) [OF again(5)] by (simp_all add: obs(4,5))
    have "retry_loop sy sync ctx (int (Suc k)) (?d (Suc k)) s1 w3 = (r, s', w')"
      using again(6) by (simp add: nextRetryBackoff_schedule [OF pos] add.commute)
    moreover have "nat ?A - Suc k < nat ?A - k" using again(4) by simp
    ultimately obtain j where j: "j \<noteq> 0 \<longrightarrow> int (Suc k + j) \<le> ?A"
      "waits w' = waits w3 @ map ?d [Suc k ..< Suc k + j]" "calls w3 + j \<le> calls w'" "calls w' \<le> calls w3 + Suc j"
      using less.hyps by blast
    have "[k ..< k + Suc j] = k # [Suc k ..< Suc k + j]" by (simp add: upt_conv_Cons)
    then show ?thesis using j w3 again(4) by (intro exI [of _ "Suc j"]) (cases j; simp)
  qed
qed

section \<open>What the retries return\<close>

text \<open>An invariant of the store that \<open>sync\<close> keeps is kept by the retries, by startup and by a turn.\<close>

definition keeps :: "('s \<Rightarrow> bool) \<Rightarrow> ('x, 's, 'w) SyncFunc \<Rightarrow> ('x, 'w) Context \<Rightarrow> bool" where
  "keeps I sync ctx \<longleftrightarrow> (\<forall>s w r s' w'. I s \<longrightarrow> sync ctx s w = (r, s', w') \<longrightarrow> I s')"

lemma retry_loop_keeps:
  assumes keeps: "keeps I sync ctx"
  shows "I s \<Longrightarrow> retry_loop sy sync ctx k d s w = (r, s', w') \<Longrightarrow> I s'"
proof (induction "nat (c_RetryAttempts (y_config sy) - k)" arbitrary: k d s w rule: less_induct)
  case less
  have keep: "I s1" if "sync ctx s w = (q, s1, w1)" for q s1 w1
    using keeps less.prems(1) that unfolding keeps_def by blast
  from less.prems(2) show ?case
  proof (cases rule: retry_loop_cases)
    case (again e s1 w1 w2 w3)
    then show ?thesis using less.hyps [of "k + 1"] keep by auto
  qed (auto dest: keep)
qed

lemma retry_loop_error:
  "retry_loop sy sync ctx k d s w = (Inl e, s', w') \<Longrightarrow>
     (\<exists>c. e = ctx_err c) \<or> (\<exists>s w. fst (sync ctx s w) = Inl e \<and> isPermanentSyncError e) \<or>
     (\<exists>s w e0. fst (sync ctx s w) = Inl e0 \<and> \<not> isPermanentSyncError e0 \<and>
        e = Errorf ''%w after %d attempts: %w'' [Sentinel ErrSyncRetriesExhausted, e0]) \<or>
     (\<exists>d w e0. fst (y_wait sy ctx d w) = Some e0 \<and> e = Errorf ''wait before synchronization retry: %w'' [e0])"
proof (induction "nat (c_RetryAttempts (y_config sy) - k)" arbitrary: k d s w rule: less_induct)
  case less
  from less.prems show ?case
  proof (cases rule: retry_loop_cases)
    case (interrupted e0 w1 w2 e' w3 c)
    from interrupted(5) have "\<exists>d w. fst (y_wait sy ctx d w) = Some e'" by (metis fst_conv)
    with interrupted(7) show ?thesis by (cases c) auto
  next
    case (again e s1 w1 w2 w3)
    then show ?thesis using less.hyps [of "k + 1"] by simp
  next
    case (permanent e0 w1)
    then have "fst (sync ctx s w) = Inl e0" "e = e0" by simp_all
    then show ?thesis using permanent(3) by blast
  next
    case (exhausted e0 w1)
    then have "fst (sync ctx s w) = Inl e0" by simp
    then show ?thesis using exhausted(3,5) by blast
  qed auto
qed

text \<open>
  Failures that end: \<open>sync\<close> fails for a reason that is not permanent until it has been called
  \<open>n\<close> times and succeeds from then on; nothing is cancelled and no wait is cut short.
\<close>

definition recovers_after ::
  "nat \<Rightarrow> ('x, 's, 'w) Syncer \<Rightarrow> ('x, 's, 'w) SyncFunc \<Rightarrow> ('x, 'w) Context \<Rightarrow> ('w \<Rightarrow> nat) \<Rightarrow> bool" where
  "recovers_after n sy sync ctx calls \<longleftrightarrow>
     (\<forall>s w. case fst (sync ctx s w) of
        Inl e \<Rightarrow> calls w < n \<and> \<not> isPermanentSyncError e | Inr r \<Rightarrow> n \<le> calls w) \<and>
     (\<forall>w. fst (ctx_Err ctx w) = None) \<and> (\<forall>d w. fst (y_wait sy ctx d w) = None)"

lemma recovers_sync:
  assumes "recovers_after n sy sync ctx calls" and "sync ctx s w = (q, s1, w1)"
  shows "case q of Inl e \<Rightarrow> calls w < n \<and> \<not> isPermanentSyncError e | Inr r \<Rightarrow> n \<le> calls w"
  using assms unfolding recovers_after_def by (metis fst_conv)

lemma retry_loop_recovers:
  assumes rec: "recovers_after n sy sync ctx calls" and obs: "observes sy sync ctx calls waits"
  shows "calls w \<le> n \<Longrightarrow> k + int (n - calls w) \<le> c_RetryAttempts (y_config sy) \<Longrightarrow>
    \<exists>result s' w'. retry_loop sy sync ctx k d s w = (Inr result, s', w') \<and> calls w' = Suc n"
proof (induction "n - calls w" arbitrary: k d s w)
  case 0
  obtain q s' w' where q: "sync ctx s w = (q, s', w')" by (rule prod_cases3)
  then obtain result where ok: "sync ctx s w = (Inr result, s', w')"
    using recovers_sync [OF rec q] 0 by (cases q) auto
  then show ?case using observes_simps(1) [OF obs ok] 0 by (subst retry_loop.simps) simp
next
  case (Suc m)
  obtain q s1 w1 where q: "sync ctx s w = (q, s1, w1)" by (rule prod_cases3)
  then obtain e where e: "sync ctx s w = (Inl e, s1, w1)" "\<not> isPermanentSyncError e"
    using recovers_sync [OF rec q] Suc.hyps(2) by (cases q) auto
  obtain w2 where c: "ctx_Err ctx w1 = (None, w2)" using rec unfolding recovers_after_def by (metis prod.collapse)
  obtain w3 where z: "y_wait sy ctx d (y_logger sy (retry_warning (y_config sy) e k d) w2) = (None, w3)"
    using rec unfolding recovers_after_def by (metis prod.collapse)
  have w3: "calls w3 = Suc (calls w)"
    using observes_simps(1) [OF obs e(1)] observes_simps(2) [OF obs c] observes_simps(3) [OF obs z]
    by (simp add: observes_simps(4) [OF obs])
  have "\<exists>result s' w'. retry_loop sy sync ctx (k + 1) (nextRetryBackoff d (c_RetryMaxBackoff (y_config sy))) s1 w3 =
      (Inr result, s', w') \<and> calls w' = Suc n"
    by (rule Suc.hyps(1)) (use Suc.hyps(2) Suc.prems w3 in auto)
  moreover have "k < c_RetryAttempts (y_config sy)" using Suc.prems(2) Suc.hyps(2) by simp
  ultimately show ?case using e c z by (subst retry_loop.simps) simp
qed

section \<open>The states of the loop\<close>

text \<open>The states in which \<open>run\<close> is at the head of its loop.\<close>

inductive polling ::
  "('x, 's, 'w) Syncer \<Rightarrow> ('x, 's, 'w) SyncFunc \<Rightarrow> ('x, 'w) Context \<Rightarrow> 's \<Rightarrow> 'w \<Rightarrow> 's \<Rightarrow> 'w \<Rightarrow> bool"
  for sy sync ctx s w where
  started: "startup sy sync ctx s w = (None, s1, w1) \<Longrightarrow> polling sy sync ctx s w s1 w1"
| polled: "polling sy sync ctx s w s1 w1 \<Longrightarrow> poll sy sync ctx s1 w1 = (None, s2, w2) \<Longrightarrow>
    polling sy sync ctx s w s2 w2"

lemma poll_loop_ends:
  assumes "poll_loop sy sync ctx s1 w1 = Some (e, s', w')" and "polling sy sync ctx s w s1 w1"
  shows "\<exists>s2 w2. polling sy sync ctx s w s2 w2 \<and> poll sy sync ctx s2 w2 = (Some e, s', w')"
proof -
  have "\<forall>s w. polling sy sync ctx s w s1 w1 \<longrightarrow>
      (\<exists>s2 w2. polling sy sync ctx s w s2 w2 \<and> poll sy sync ctx s2 w2 = (Some (fst y), snd y))"
    if "poll_loop sy sync ctx s1 w1 = Some y" for y
    using _ that
  proof (rule poll_loop.raw_induct)
    fix loop and sy :: "('x, 's, 'w) Syncer" and sync ctx s1 w1 y
    assume IH: "\<And>sy sync ctx s1 w1 y. loop sy sync ctx s1 w1 = Some y \<Longrightarrow> \<forall>s w. polling sy sync ctx s w s1 w1 \<longrightarrow>
        (\<exists>s2 w2. polling sy sync ctx s w s2 w2 \<and> poll sy sync ctx s2 w2 = (Some (fst y), snd y))"
      and y: "(case poll sy sync ctx s1 w1 of (None, s1, w1) \<Rightarrow> loop sy sync ctx s1 w1
        | (Some e, s1, w1) \<Rightarrow> Some (e, s1, w1)) = Some y"
    show "\<forall>s w. polling sy sync ctx s w s1 w1 \<longrightarrow>
        (\<exists>s2 w2. polling sy sync ctx s w s2 w2 \<and> poll sy sync ctx s2 w2 = (Some (fst y), snd y))"
    proof (intro allI impI)
      fix s w assume p: "polling sy sync ctx s w s1 w1"
      obtain z s2 w2 where z: "poll sy sync ctx s1 w1 = (z, s2, w2)" by (rule prod_cases3)
      show "\<exists>s2 w2. polling sy sync ctx s w s2 w2 \<and> poll sy sync ctx s2 w2 = (Some (fst y), snd y)"
      proof (cases z)
        case None
        then show ?thesis using IH y z polled [OF p] by auto
      next
        case (Some e)
        then show ?thesis using y z p by (intro exI [of _ s1] exI [of _ w1]) auto
      qed
    qed
  qed
  from this [OF assms(1)] assms(2) show ?thesis by simp
qed

lemma poll_loop_polling:
  "polling sy sync ctx s w s1 w1 \<Longrightarrow> run sy sync ctx s w = poll_loop sy sync ctx s1 w1"
  by (induction rule: polling.induct) (simp_all add: run_def poll_loop.simps [of sy sync ctx])

lemma run_returns:
  "run sy sync ctx s w = Some (e, s', w') \<longleftrightarrow>
     startup sy sync ctx s w = (Some e, s', w') \<or>
     (\<exists>s1 w1. polling sy sync ctx s w s1 w1 \<and> poll sy sync ctx s1 w1 = (Some e, s', w'))"
proof
  assume r: "run sy sync ctx s w = Some (e, s', w')"
  obtain z s1 w1 where z: "startup sy sync ctx s w = (z, s1, w1)" by (rule prod_cases3)
  show "startup sy sync ctx s w = (Some e, s', w') \<or>
     (\<exists>s1 w1. polling sy sync ctx s w s1 w1 \<and> poll sy sync ctx s1 w1 = (Some e, s', w'))"
  proof (cases z)
    case None
    with r z poll_loop_ends [OF _ started] show ?thesis by (simp add: run_def)
  next
    case (Some e')
    with r z show ?thesis by (simp add: run_def)
  qed
next
  assume "startup sy sync ctx s w = (Some e, s', w') \<or>
     (\<exists>s1 w1. polling sy sync ctx s w s1 w1 \<and> poll sy sync ctx s1 w1 = (Some e, s', w'))"
  then show "run sy sync ctx s w = Some (e, s', w')"
    by (auto simp: run_def poll_loop_polling [unfolded run_def] poll_loop.simps [of sy sync ctx])
qed

lemma startup_keeps:
  assumes "keeps I sync ctx" and "I s" and "startup sy sync ctx s w = (z, s1, w1)"
  shows "I s1"
  using assms(2,3) retry_loop_keeps [OF assms(1,2)]
  by (auto simp: startup_def syncWithRetry_def split: option.splits prod.splits sum.splits)

lemma poll_keeps:
  assumes "keeps I sync ctx" and "I s" and "poll sy sync ctx s w = (z, s1, w1)"
  shows "I s1"
  using assms(2,3) retry_loop_keeps [OF assms(1,2)]
  by (auto simp: poll_def syncWithRetry_def split: option.splits prod.splits sum.splits)

lemma polling_keeps:
  assumes "polling sy sync ctx s w s1 w1" and keeps: "keeps I sync ctx" and "I s"
  shows "I s1"
  using assms(1) by induction (use startup_keeps [OF keeps assms(3)] poll_keeps [OF keeps] in blast)+

end
