(* ===== verification/Runner_Theorems.thy ===== *)
theory Runner_Theorems
  imports Runner_Props
begin

text \<open>
  The properties of the polling loop: bounded retries, which errors end it, that the store stays
  a consistent window at every turn, and that against a steady node it never ends.
\<close>

section \<open>Retries\<close>

text \<open>
  C29: retries are bounded. With a validated configuration \<open>syncWithRetry\<close> always returns; it calls
  \<open>sync\<close> at most \<open>RetryAttempts + 1\<close> times, and the \<open>k\<close>-th wait between two attempts lasts
  \<open>min (RetryMinBackoff * 2^k) RetryMaxBackoff\<close>, which never leaves the configured range.
\<close>

theorem retry_bounded:
  assumes "validateRunConfig sy = None" and "observes sy sync ctx calls waits"
    and "syncWithRetry sy sync ctx s w = (r, s', w')"
  shows "\<exists>j. int j \<le> c_RetryAttempts (y_config sy) \<and>
    calls w + j \<le> calls w' \<and> calls w' \<le> calls w + Suc j \<and>
    waits w' = waits w @ map (\<lambda>k. min (c_RetryMinBackoff (y_config sy) * 2 ^ k) (c_RetryMaxBackoff (y_config sy))) [0 ..< j] \<and>
    (\<forall>d \<in> set (drop (length (waits w)) (waits w')).
       c_RetryMinBackoff (y_config sy) \<le> d \<and> d \<le> c_RetryMaxBackoff (y_config sy))"
proof -
  note v = validated_run [OF assms(1)]
  have "retry_loop sy sync ctx (int 0) (schedule (y_config sy) 0) s w = (r, s', w')"
    using assms(3) by (simp add: syncWithRetry_def schedule_0 [OF v(5)])
  from retry_loop_observed [OF assms(2) v(4) this] obtain j where
    j: "j \<noteq> 0 \<longrightarrow> int j \<le> c_RetryAttempts (y_config sy)" "waits w' = waits w @ map (schedule (y_config sy)) [0 ..< j]"
      "calls w + j \<le> calls w'" "calls w' \<le> calls w + Suc j" by auto
  then have "int j \<le> c_RetryAttempts (y_config sy)" using v(3) by (cases j) auto
  moreover have "\<forall>d \<in> set (drop (length (waits w)) (waits w')).
       c_RetryMinBackoff (y_config sy) \<le> d \<and> d \<le> c_RetryMaxBackoff (y_config sy)"
    using schedule_bounds [OF v(4,5)] by (auto simp: j(2))
  moreover have "schedule (y_config sy) = (\<lambda>k. min (c_RetryMinBackoff (y_config sy) * 2 ^ k) (c_RetryMaxBackoff (y_config sy)))"
    by (simp add: fun_eq_iff schedule_def)
  ultimately show ?thesis using j(2-4) by metis
qed

record counted =
  n_calls :: nat
  n_waits :: "int list"

definition counted_context :: "(unit, counted) Context" where
  "counted_context = \<lparr>cx_env = \<lparr>env_pick = (\<lambda>w. (0, w)), env_ctx = (\<lambda>w. (None, w)),
       env_timer = (\<lambda>d w. w\<lparr>n_waits := n_waits w @ [d]\<rparr>)\<rparr>, cx_call = (\<lambda>w. ((), w))\<rparr>"

definition counted_reader :: "counted Reader" where
  "counted_reader = \<lparr>r_ChainID = (\<lambda>w. (Inr (Some 1), w)), r_BlockNumber = (\<lambda>w. (Inr 0, w)),
     r_BlockByNumber = (\<lambda>n w. (Inr None, w)), r_HeaderByNumber = (\<lambda>n w. (Inr None, w)),
     r_LogsByBlockHash = (\<lambda>h w. (Inr [], w))\<rparr>"

definition counted_store :: "(unit, nat) IndexStore" where
  "counted_store = \<lparr>is_CanonicalTip = (\<lambda>x s. Inr None), is_CanonicalHash = (\<lambda>x n s. Inl (Sentinel ErrNotFound)),
     is_ApplyCanonicalUpdate = (\<lambda>x u s. (None, s))\<rparr>"

definition counted_syncer :: "(unit, nat, counted) Syncer" where
  "counted_syncer = NewSyncer sample_geth (\<lambda>w. (zero_Time, w))
     (Some (NewFetcher sample_geth (\<lambda>w. (zero_Time, w)) counted_reader 1)) (Some counted_reader) (Some counted_store)
     sample_config (\<lambda>e w. w)"

definition counted_result :: SyncResult where
  "counted_result = sync_result 5 105 None \<lparr>rp_From = 3, rp_Mode = SyncModeInitialLoad, rp_Reorg = None\<rparr> 3 [] zero_Time"

text \<open>A synchronization that fails \<open>k\<close> times and then succeeds.\<close>

definition failing :: "nat \<Rightarrow> (unit, nat, counted) SyncFunc" where
  "failing k ctx s w =
     (if n_calls w < k then Inl (Foreign ''timeout'') else Inr counted_result, s, w\<lparr>n_calls := Suc (n_calls w)\<rparr>)"

lemma counted_valid: "validateRunConfig counted_syncer = None"
  by code_simp

lemma counted_observes: "observes counted_syncer (failing k) counted_context n_calls n_waits"
  by (auto simp: observes_def failing_def ctx_Err_def counted_context_def counted_syncer_def NewSyncer_def waitFor_def)

theorem retry_bounded_witness:
  "\<exists>r s' w'. syncWithRetry counted_syncer (failing 9) counted_context 0 \<lparr>n_calls = 0, n_waits = []\<rparr> = (r, s', w') \<and>
     n_calls w' \<le> 3 \<and> length (n_waits w') \<le> 2"
proof -
  let ?w = "\<lparr>n_calls = 0, n_waits = []\<rparr>"
  obtain r s' w' where run: "syncWithRetry counted_syncer (failing 9) counted_context 0 ?w = (r, s', w')"
    by (rule prod_cases3)
  have two: "c_RetryAttempts (y_config counted_syncer) = 2" by code_simp
  obtain j f where j: "int j \<le> 2" "n_calls w' \<le> n_calls ?w + Suc j" "n_waits w' = n_waits ?w @ map f [0 ..< j]"
    using retry_bounded [OF counted_valid counted_observes run] unfolding two by blast
  then have "n_calls w' \<le> 3 \<and> length (n_waits w') \<le> 2" by simp
  then show ?thesis using run by blast
qed

text \<open>
  C30: a passing outage is survived. If synchronization fails with an error that is not permanent
  for \<open>n \<le> RetryAttempts\<close> attempts and then works, \<open>syncWithRetry\<close> returns the success of attempt
  \<open>n + 1\<close>.
\<close>

theorem retry_recovers:
  assumes "recovers_after n sy sync ctx calls" and "observes sy sync ctx calls waits"
    and "calls w = 0" and "int n \<le> c_RetryAttempts (y_config sy)"
  shows "\<exists>result s' w'. syncWithRetry sy sync ctx s w = (Inr result, s', w') \<and> calls w' = Suc n"
  unfolding syncWithRetry_def by (rule retry_loop_recovers [OF assms(1,2)]) (use assms(3,4) in simp_all)

theorem retry_recovers_witness:
  "\<exists>result s' w'. syncWithRetry counted_syncer (failing 2) counted_context 0 \<lparr>n_calls = 0, n_waits = []\<rparr> =
     (Inr result, s', w') \<and> n_calls w' = 3"
proof -
  have "recovers_after 2 counted_syncer (failing 2) counted_context n_calls"
    by (auto simp: recovers_after_def failing_def ctx_Err_def counted_context_def counted_syncer_def
        NewSyncer_def waitFor_def isPermanentSyncError_def)
  moreover have "c_RetryAttempts (y_config counted_syncer) = 2" by code_simp
  ultimately show ?thesis
    using retry_recovers [OF _ counted_observes, of 2 2 "\<lparr>n_calls = 0, n_waits = []\<rparr>" 0] by (simp add: numeral_3_eq_3)
qed

text \<open>
  C31: which errors the retries return. A failure is the context's error, a permanent error of
  \<open>sync\<close> as it is, an error of the wait, or else \<open>ErrSyncRetriesExhausted\<close> wrapped together with
  the last error of \<open>sync\<close>, so a caller that asks with \<open>errors.Is\<close> still finds the cause.
\<close>

theorem retry_errors:
  assumes "syncWithRetry sy sync ctx s w = (Inl e, s', w')"
  shows "(\<exists>c. e = ctx_err c) \<or>
    (\<exists>s1 w1. fst (sync ctx s1 w1) = Inl e \<and> isPermanentSyncError e) \<or>
    (\<exists>s1 w1 e0. fst (sync ctx s1 w1) = Inl e0 \<and> \<not> isPermanentSyncError e0 \<and>
       errors_Is e ErrSyncRetriesExhausted \<and> (\<forall>t. errors_Is e0 t \<longrightarrow> errors_Is e t)) \<or>
    (\<exists>d w1 e0. fst (y_wait sy ctx d w1) = Some e0 \<and> (\<forall>t. errors_Is e t = errors_Is e0 t))"
proof -
  consider "\<exists>c. e = ctx_err c" | "\<exists>s1 w1. fst (sync ctx s1 w1) = Inl e \<and> isPermanentSyncError e"
    | (exhausted) s1 w1 e0 where "fst (sync ctx s1 w1) = Inl e0" "\<not> isPermanentSyncError e0"
        "e = Errorf ''%w after %d attempts: %w'' [Sentinel ErrSyncRetriesExhausted, e0]"
    | (wait) d w1 e0 where "fst (y_wait sy ctx d w1) = Some e0" "e = Errorf ''wait before synchronization retry: %w'' [e0]"
    using retry_loop_error [OF assms [unfolded syncWithRetry_def]] by blast
  then show ?thesis
  proof cases
    case exhausted
    then have "errors_Is e ErrSyncRetriesExhausted \<and> (\<forall>t. errors_Is e0 t \<longrightarrow> errors_Is e t)" by simp
    with exhausted(1,2) show ?thesis by blast
  next
    case wait
    then have "\<forall>t. errors_Is e t = errors_Is e0 t" by simp
    with wait(1) show ?thesis by blast
  qed blast+
qed

theorem retry_errors_witness:
  "\<exists>e s' w'. syncWithRetry counted_syncer (failing 9) counted_context 0 \<lparr>n_calls = 0, n_waits = []\<rparr> =
     (Inl e, s', w') \<and> errors_Is e ErrSyncRetriesExhausted"
proof -
  let ?r = "syncWithRetry counted_syncer (failing 9) counted_context 0 \<lparr>n_calls = 0, n_waits = []\<rparr>"
  have "isl (fst ?r)" by code_simp
  then obtain e s' w' where e: "?r = (Inl e, s', w')" by (cases ?r) (auto simp: isl_def)
  have none: "ctx_Err counted_context w1 = (None, w1)" "fst (y_wait counted_syncer counted_context d w1) = None" for d w1
    by (simp_all add: ctx_Err_def counted_context_def counted_syncer_def NewSyncer_def waitFor_def)
  have "fst (failing 9 counted_context s1 w1) = Inl e0 \<Longrightarrow> \<not> isPermanentSyncError e0" for s1 w1 e0
    by (auto simp: failing_def isPermanentSyncError_def split: if_splits)
  moreover have "case fst ?r of Inl e \<Rightarrow> \<not> errors_Is e ContextCanceled \<and> \<not> errors_Is e ContextDeadlineExceeded | Inr r \<Rightarrow> False"
    by code_simp
  ultimately have "errors_Is e ErrSyncRetriesExhausted"
    using retry_errors [OF e] none(2) by (auto simp: e split: ctx_error.splits) (metis ctx_error.exhaust)
  with e show ?thesis by blast
qed

section \<open>The loop\<close>

lemma waitFor_error:
  "waitFor ctx d w = (Some e, w') \<Longrightarrow> \<exists>c. e = ctx_err c"
  by (auto simp: waitFor_def split: prod.splits option.splits if_splits)

lemma not_deadline: "c \<noteq> DeadlineExceeded \<longleftrightarrow> c = Canceled"
  by (cases c) auto

lemma poll_error:
  assumes "y_wait sy = waitFor" and "poll sy sync ctx s w = (Some e, s', w')"
  shows "errors_Is e ContextCanceled \<or> errors_Is e ContextDeadlineExceeded"
  using assms
  by (auto simp: poll_def not_deadline dest!: waitFor_error split: prod.splits option.splits sum.splits)

text \<open>
  C27: what ends the loop. \<open>run\<close> returns an invalid configuration before it touches anything, the
  error of a first synchronization that failed, or the error of its context; once it polls, only
  its context ends it.
\<close>

theorem run_ends:
  assumes "y_wait sy = waitFor" and "run sy sync ctx s w = Some (e, s', w')"
  shows "validateRunConfig sy = Some e \<and> s' = s \<and> w' = w \<or>
    (\<exists>e0. e = Errorf ''initial synchronization: %w'' [e0] \<and> startup sy sync ctx s w = (Some e, s', w')) \<or>
    errors_Is e ContextCanceled \<or> errors_Is e ContextDeadlineExceeded"
  using assms(2) unfolding run_returns
proof
  assume "startup sy sync ctx s w = (Some e, s', w')"
  then show ?thesis by (auto simp: startup_def not_deadline split: option.splits prod.splits sum.splits)
next
  assume "\<exists>s1 w1. polling sy sync ctx s w s1 w1 \<and> poll sy sync ctx s1 w1 = (Some e, s', w')"
  then show ?thesis using poll_error [OF assms(1)] by blast
qed

theorem run_ends_witness:
  "\<exists>e w'. run (sample_syncer 20) (\<lambda>ctx. SyncOnce ctx (sample_syncer 20))
      (sample_context\<lparr>cx_env := sample_env\<lparr>env_ctx := (\<lambda>w. (Some Canceled, Suc w))\<rparr>\<rparr>) NewMemory 0 =
      Some (e, NewMemory, w') \<and> errors_Is e ContextCanceled"
proof -
  let ?sy = "sample_syncer 20" and ?ctx = "sample_context\<lparr>cx_env := sample_env\<lparr>env_ctx := (\<lambda>w. (Some Canceled, Suc w))\<rparr>\<rparr>"
  let ?r = "startup ?sy (\<lambda>ctx. SyncOnce ctx ?sy) ?ctx NewMemory 0"
  have "fst ?r = Some (Sentinel ContextCanceled) \<and> fst (snd ?r) = NewMemory" by code_simp
  then obtain w' where "?r = (Some (Sentinel ContextCanceled), NewMemory, w')" by (cases ?r) auto
  then have run: "run ?sy (\<lambda>ctx. SyncOnce ctx ?sy) ?ctx NewMemory 0 = Some (Sentinel ContextCanceled, NewMemory, w')"
    by (simp add: run_def)
  have "validateRunConfig ?sy = None" "y_wait ?sy = waitFor" by (code_simp, simp add: sample_syncer_def NewSyncer_def)
  then show ?thesis using run_ends [OF _ run] run by auto
qed

lemma run_forever:
  assumes "y_wait sy = waitFor" and "\<forall>v. fst (ctx_Err ctx v) = None"
    and "startup sy sync ctx s w = (None, s1, w1)"
  shows "run sy sync ctx s w = None"
proof -
  have "fst (waitFor ctx d v) = None" for d v
    using assms(2) by (auto simp: waitFor_def ctx_Err_def split: prod.splits option.splits) (metis fst_conv option.distinct(1))+
  then have wait: "waitFor ctx d v \<noteq> (Some e, v')" for d v e v' by (metis fst_conv option.distinct(1))
  have ctx: "ctx_Err ctx v \<noteq> (Some c, v')" for v c v' using assms(2) by (metis fst_conv option.distinct(1))
  have "poll sy sync ctx a v \<noteq> (Some e, a', v')" for a v e a' v'
    using wait ctx by (auto simp: poll_def assms(1) split: prod.splits option.splits sum.splits)
  then have "run sy sync ctx s w \<noteq> Some (e, a, v)" for e a v using assms(3) run_returns [of sy sync ctx s w] by auto
  then show ?thesis by (metis not_None_eq prod_cases3)
qed

text \<open>
  C28: failures after startup do not stop the service. Once the first synchronization succeeded
  and while its context is not done, \<open>run\<close> does not return, whatever later cycles meet.
\<close>

theorem run_outlives_failures:
  assumes "y_wait sy = waitFor" and "\<forall>v. fst (ctx_Err ctx v) = None"
    and "startup sy sync ctx s w = (None, s1, w1)"
  shows "run sy sync ctx s w = None"
  using assms by (rule run_forever)

section \<open>The store at every turn\<close>

lemma retry_loop_success:
  assumes keeps: "keeps I sync ctx"
  shows "I s \<Longrightarrow> retry_loop sy sync ctx k d s w = (Inr r, s', w') \<Longrightarrow> \<exists>s1 w1. I s1 \<and> sync ctx s1 w1 = (Inr r, s', w')"
proof (induction "nat (c_RetryAttempts (y_config sy) - k)" arbitrary: k d s w rule: less_induct)
  case less
  from less.prems(2) show ?case
  proof (cases rule: retry_loop_cases)
    case (again e s1 w1 w2 w3)
    then have "I s1" using keeps less.prems(1) unfolding keeps_def by blast
    then show ?thesis using less.hyps [of "k + 1"] again by auto
  qed (use less.prems(1) in auto)
qed

lemma startup_success:
  assumes "keeps I sync ctx" and "I s" and "startup sy sync ctx s w = (None, s1, w1)"
  shows "\<exists>s0 w0 r w2. I s0 \<and> sync ctx s0 w0 = (Inr r, s1, w2)"
proof -
  obtain r w2 where "retry_loop sy sync ctx 0 (c_RetryMinBackoff (y_config sy)) s w = (Inr r, s1, w2)"
    using assms(3) by (auto simp: startup_def syncWithRetry_def split: option.splits prod.splits sum.splits)
  from retry_loop_success [OF assms(1,2) this] show ?thesis by blast
qed

text \<open>The store is a consistent window under its tip.\<close>

definition windowed :: "u64 \<Rightarrow> Memory \<Rightarrow> bool" where
  "windowed b m \<longleftrightarrow> memory_inv m \<and>
     (\<exists>tip. Memory_CanonicalTip None m = Inr (Some tip) \<and>
        dom (memory_chain m) \<subseteq> {windowStart (tip_Number tip) b .. tip_Number tip})"

lemma SyncOnce_windowed:
  assumes "memory_inv m" and "y_store sy = Some MemoryIndexStore" and "SyncOnce ctx sy m w = (Inr r, m', w')"
  shows "windowed (c_BlockWindow (y_config sy)) m'"
proof -
  note ok = mem.sync_ok [OF assms]
  obtain p where p: "memory_chain m' (tip_Number (sr_Head r)) = Some (tip_Hash (sr_Head r), p)" using ok(2) by blast
  have "Memory_CanonicalTip None m' = Inr (Some (sr_Head r))"
    using tip_of_head [OF ok(1) p] ok(3) by (cases "sr_Head r") auto
  then show ?thesis using ok(1,3,4) unfolding windowed_def by auto
qed

lemma SyncOnce_keeps:
  assumes "y_store sy = Some MemoryIndexStore"
  shows "keeps memory_inv (\<lambda>ctx. SyncOnce ctx sy) ctx"
    and "keeps (windowed (c_BlockWindow (y_config sy))) (\<lambda>ctx. SyncOnce ctx sy) ctx"
proof -
  have inv: "memory_inv m'" if "memory_inv m" "SyncOnce ctx sy m w = (q, m', w')" for m w q m' w'
    using that mem.sync_ok(1) [OF _ assms] mem.sync_failed [OF _ assms] by (cases q) blast+
  then show "keeps memory_inv (\<lambda>ctx. SyncOnce ctx sy) ctx" unfolding keeps_def by blast
  have "windowed (c_BlockWindow (y_config sy)) m'"
    if "windowed (c_BlockWindow (y_config sy)) m" "SyncOnce ctx sy m w = (q, m', w')" for m w q m' w'
  proof (cases q)
    case (Inl e)
    then have "m' = m" using SyncOnce_memory_failed [OF _ assms] that unfolding windowed_def by blast
    then show ?thesis using that(1) by simp
  next
    case (Inr r)
    then show ?thesis using SyncOnce_windowed [OF _ assms] that unfolding windowed_def by blast
  qed
  then show "keeps (windowed (c_BlockWindow (y_config sy))) (\<lambda>ctx. SyncOnce ctx sy) ctx" unfolding keeps_def by blast
qed

text \<open>
  C26: whenever \<open>Run\<close> is at the head of its loop, and whatever failures it went through, the store
  holds a consistent chain that ends at its tip and fits in the configured window.
\<close>

theorem run_keeps_window:
  assumes "memory_inv m" and "y_store sy = Some MemoryIndexStore"
    and "polling sy (\<lambda>ctx. SyncOnce ctx sy) ctx m w m' w'"
  shows "canonical_bundles (map_of (m_bundles m')) \<and>
    (\<exists>tip. Memory_CanonicalTip None m' = Inr (Some tip) \<and>
       dom (memory_chain m') \<subseteq> {windowStart (tip_Number tip) (c_BlockWindow (y_config sy)) .. tip_Number tip})"
proof -
  have "windowed (c_BlockWindow (y_config sy)) m'"
    using assms(3)
  proof induction
    case (started s1 w1)
    from startup_success [OF SyncOnce_keeps(1) [OF assms(2)] assms(1) started]
    show ?case using SyncOnce_windowed [OF _ assms(2)] by blast
  next
    case (polled s1 w1 s2 w2)
    then show ?case using poll_keeps [OF SyncOnce_keeps(2) [OF assms(2)]] by blast
  qed
  then show ?thesis unfolding windowed_def memory_inv_def by blast
qed

lemma sample_startup:
  "\<exists>m w. startup (sample_syncer 20) (\<lambda>ctx. SyncOnce ctx (sample_syncer 20)) sample_context NewMemory 0 = (None, m, w)"
proof -
  let ?r = "startup (sample_syncer 20) (\<lambda>ctx. SyncOnce ctx (sample_syncer 20)) sample_context NewMemory 0"
  have "fst ?r = None" by code_simp
  then show ?thesis by (cases ?r) auto
qed

theorem run_keeps_window_witness:
  "\<exists>m w tip. polling (sample_syncer 20) (\<lambda>ctx. SyncOnce ctx (sample_syncer 20)) sample_context NewMemory 0 m w \<and>
     Memory_CanonicalTip None m = Inr (Some tip)"
proof -
  obtain m w where "startup (sample_syncer 20) (\<lambda>ctx. SyncOnce ctx (sample_syncer 20)) sample_context NewMemory 0 = (None, m, w)"
    using sample_startup by blast
  then have p: "polling (sample_syncer 20) (\<lambda>ctx. SyncOnce ctx (sample_syncer 20)) sample_context NewMemory 0 m w"
    by (rule started)
  show ?thesis using run_keeps_window [OF NewMemory_inv sample_store p] p by blast
qed

theorem run_outlives_failures_witness:
  "run (sample_syncer 20) (\<lambda>ctx. SyncOnce ctx (sample_syncer 20)) sample_context NewMemory 0 = None"
proof -
  obtain m w where s: "startup (sample_syncer 20) (\<lambda>ctx. SyncOnce ctx (sample_syncer 20)) sample_context NewMemory 0 = (None, m, w)"
    using sample_startup by blast
  show ?thesis
    by (rule run_outlives_failures [OF _ _ s])
      (simp_all add: sample_syncer_def NewSyncer_def ctx_Err_def sample_context_def sample_env_def)
qed

section \<open>Following a steady node\<close>

lemma syncWithRetry_first:
  "sync ctx s w = (Inr r, s', w') \<Longrightarrow> syncWithRetry sy sync ctx s w = (Inr r, s', w')"
  by (simp add: syncWithRetry_def retry_loop.simps [of sy])

text \<open>What a store is after a cycle against the steady node.\<close>

definition follows ::
  "('x, 's, 'w) Syncer \<Rightarrow> u64 \<Rightarrow> (u64 \<Rightarrow> hash) \<Rightarrow> (u64 \<Rightarrow> hash) \<Rightarrow> (u64 \<Rightarrow> hash set) \<Rightarrow> Memory \<Rightarrow> bool" where
  "follows sy N H P T m \<longleftrightarrow> memory_inv m \<and> binds m H P T \<and> m_chainID m = c_ChainID (y_config sy) \<and>
     (\<exists>low. windowStart N (c_BlockWindow (y_config sy)) \<le> low \<and> low \<le> N \<and>
        memory_chain m = (\<lambda>n. if low \<le> n \<and> n \<le> N then Some (H n, P n) else None))"

text \<open>
  C11: against a steady node and with nothing cancelled, \<open>Run\<close> starts from every consistent store,
  never returns, and at every turn of its loop the store holds an unbroken run of the node's own
  blocks that ends at the node's head.
\<close>

theorem run_follows_node:
  assumes "memory_inv m" and "y_store sy = Some MemoryIndexStore" and "validateRunConfig sy = None"
    and "y_wait sy = waitFor" and "m_chainID m = 0 \<or> m_chainID m = c_ChainID (y_config sy)"
    and "calm ctx" and "steady_node sy f N H P T" and "binds m H P T" and "N \<noteq> MaxUint64"
  shows "Run sy ctx m w = None \<and>
    (\<exists>m' w'. polling sy (\<lambda>ctx. SyncOnce ctx sy) ctx m w m' w') \<and>
    (\<forall>m' w'. polling sy (\<lambda>ctx. SyncOnce ctx sy) ctx m w m' w' \<longrightarrow>
       (\<exists>low. windowStart N (c_BlockWindow (y_config sy)) \<le> low \<and> low \<le> N \<and>
          memory_chain m' = (\<lambda>n. if low \<le> n \<and> n \<le> N then Some (H n, P n) else None)))"
proof -
  let ?sync = "\<lambda>ctx. SyncOnce ctx sy"
  note valid = validated_run(1) [OF assms(3)]
  have cycle: "\<exists>r m2 w2. syncWithRetry sy ?sync ctx m1 w1 = (Inr r, m2, w2) \<and> follows sy N H P T m2"
    if m1: "memory_inv m1" "m_chainID m1 = 0 \<or> m_chainID m1 = c_ChainID (y_config sy)" "binds m1 H P T" for m1 w1
  proof -
    obtain r m2 w2 low where run: "SyncOnce ctx sy m1 w1 = (Inr r, m2, w2)"
      and m2: "memory_inv m2" "binds m2 H P T" "m_chainID m2 = c_ChainID (y_config sy)"
        "windowStart N (c_BlockWindow (y_config sy)) \<le> low" "low \<le> N"
        "memory_chain m2 = (\<lambda>n. if low \<le> n \<and> n \<le> N then Some (H n, P n) else None)"
      using sync_steady_chain [OF m1(1) assms(2) valid m1(2) assms(6,7) m1(3) assms(9), of w1] by blast
    have "follows sy N H P T m2" unfolding follows_def using m2 by blast
    with syncWithRetry_first [of ?sync ctx m1 w1 r m2 w2 sy, OF run] show ?thesis by blast
  qed
  have turn: "follows sy N H P T m2" if m1: "follows sy N H P T m1" "poll sy ?sync ctx m1 w1 = (z, m2, w2)" for m1 w1 z m2 w2
  proof -
    obtain z1 v where v: "y_wait sy ctx (c_PollInterval (y_config sy)) w1 = (z1, v)" by fastforce
    obtain r m3 w3 where "syncWithRetry sy ?sync ctx m1 v = (Inr r, m3, w3)" "follows sy N H P T m3"
      using cycle [of m1 v] m1(1) unfolding follows_def by blast
    then show ?thesis using m1 v by (cases z1) (auto simp: poll_def split: prod.splits option.splits)
  qed
  obtain r m1 w1 where start: "syncWithRetry sy ?sync ctx m w = (Inr r, m1, w1)" "follows sy N H P T m1"
    using cycle [OF assms(1,5,8)] by blast
  have startup: "startup sy ?sync ctx m w = (None, m1, logSyncResult sy r w1)"
    using start(1) assms(3) by (simp add: startup_def)
  have "follows sy N H P T m'" if "polling sy ?sync ctx m w m' w'" for m' w'
    using that by induction (use startup start(2) turn in auto)
  moreover have "Run sy ctx m w = None"
    unfolding Run_def
    by (rule run_forever [OF assms(4) _ startup]) (use assms(6) in \<open>simp add: calm_def ctx_Err_def\<close>)
  ultimately show ?thesis using started [OF startup] unfolding follows_def by blast
qed

theorem run_follows_node_witness:
  "Run (sample_syncer 2) sample_context sample_stale 0 = None"
proof -
  have valid: "validateRunConfig (sample_syncer 2) = None" and id: "c_ChainID (y_config (sample_syncer 2)) = 1"
    by code_simp+
  have "m_chainID sample_stale = 0 \<or> m_chainID sample_stale = c_ChainID (y_config (sample_syncer 2))"
    using sample_stale_facts(2) id by simp
  moreover have "y_wait (sample_syncer 2) = waitFor" by (simp add: sample_syncer_def NewSyncer_def)
  ultimately show ?thesis
    using run_follows_node [OF sample_stale_facts(1) sample_store valid _ _ sample_calm sample_steady_node sample_binds, of 0]
    by (simp add: MaxUint64_def)
qed

end
