(* ===== verification/Server_Props.thy ===== *)
theory Server_Props
  imports Server Memory_Theorems Runner_Theorems
begin

text \<open>
  The proofs about the HTTP layer: the parsers and their round trips, the status of every response,
  and what a client sees of the in-memory store.
\<close>

section \<open>Parsers\<close>

text \<open>What the cursor relies on of go-ethereum: 32 bytes make the hash with those bytes.\<close>

definition bytes_to_hash :: "GethText \<Rightarrow> bool" where
  "bytes_to_hash g \<longleftrightarrow> (\<forall>bs. length bs = 32 \<longrightarrow> gt_BytesToHash g bs = be_word bs)"

lemma cursor_bytes:
  fixes decoded :: bytes
  assumes "length decoded = 44"
  shows "be_bytes 8 (be_word (take 8 decoded) :: u64) @ be_bytes 32 (be_word (take 32 (drop 8 decoded)) :: hash) @
    be_bytes 4 (be_word (drop 40 decoded) :: u32) = decoded"
proof -
  have "be_bytes 8 (be_word (take 8 decoded) :: u64) = take 8 decoded"
    "be_bytes 32 (be_word (take 32 (drop 8 decoded)) :: hash) = take 32 (drop 8 decoded)"
    "be_bytes 4 (be_word (drop 40 decoded) :: u32) = drop 40 decoded"
    using be_bytes_word [of "take 8 decoded", where 'a = 64] be_bytes_word [of "take 32 (drop 8 decoded)", where 'a = 256]
      be_bytes_word [of "drop 40 decoded", where 'a = 32] assms by simp_all
  moreover have "take 8 decoded @ take 32 (drop 8 decoded) @ drop 40 decoded = decoded"
    using append_take_drop_id [of 8 decoded] append_take_drop_id [of 32 "drop 8 decoded"] by simp
  ultimately show ?thesis by simp
qed

lemma encodeEventCursor_nonempty: "encodeEventCursor c \<noteq> ''''"
proof
  assume "encodeEventCursor c = ''''"
  then have "b64_decode (encodeEventCursor c) = Some []" by (simp add: b64_decode_def)
  moreover have "b64_decode (encodeEventCursor c) = Some (be_bytes 8 (ec_BlockNumber c) @
      be_bytes 32 (ec_BlockHash c) @ be_bytes 4 (ec_LogIndex c))" by (simp add: encodeEventCursor_def b64_roundtrip)
  ultimately have "length (be_bytes 8 (ec_BlockNumber c)) = 0" by simp
  then show False by simp
qed

lemma parseEventCursor_iff:
  assumes g: "bytes_to_hash g"
  shows "parseEventCursor g ps = Inr (Some c) \<longleftrightarrow> ps ''cursor'' = Some [encodeEventCursor c]"
proof
  let ?bs = "be_bytes 8 (ec_BlockNumber c) @ be_bytes 32 (ec_BlockHash c) @ be_bytes 4 (ec_LogIndex c)"
  assume "ps ''cursor'' = Some [encodeEventCursor c]"
  moreover have "b64_decode (encodeEventCursor c) = Some ?bs" "b64_encode ?bs = encodeEventCursor c"
    by (simp_all add: encodeEventCursor_def b64_roundtrip)
  moreover have "gt_BytesToHash g (be_bytes 32 (ec_BlockHash c)) = ec_BlockHash c"
    using g by (simp add: bytes_to_hash_def be_word_bytes)
  ultimately show "parseEventCursor g ps = Inr (Some c)"
    using encodeEventCursor_nonempty [of c]
    by (simp add: parseEventCursor_def eventCursorEncodedSize_def be_word_bytes)
next
  assume "parseEventCursor g ps = Inr (Some c)"
  then obtain v decoded where v: "ps ''cursor'' = Some [v]" "b64_encode decoded = v" "length decoded = 44"
    and c: "c = \<lparr>ec_BlockNumber = be_word (take 8 decoded), ec_BlockHash = gt_BytesToHash g (take 32 (drop 8 decoded)),
      ec_LogIndex = be_word (drop 40 decoded)\<rparr>"
    by (auto simp: parseEventCursor_def eventCursorEncodedSize_def length_Suc_conv split: option.splits if_splits)
  have "gt_BytesToHash g (take 32 (drop 8 decoded)) = be_word (take 32 (drop 8 decoded))"
    using g v(3) by (simp add: bytes_to_hash_def)
  then have "encodeEventCursor c = v" using cursor_bytes [OF v(3)] v(2) by (simp add: c encodeEventCursor_def)
  then show "ps ''cursor'' = Some [encodeEventCursor c]" using v(1) by simp
qed

lemma parseBlockNumber_iff:
  "parseBlockNumber v = Inr n \<longleftrightarrow> v \<noteq> '''' \<and> list_all is_digit v \<and> value_of v = unat n"
  by (auto simp: parseBlockNumber_def ParseUint_iff list_all_iff list_ex_iff)

lemma parseEventLimit_bounds:
  assumes "parseEventLimit ps = Inr k"
  shows "0 < k" "k \<le> MaxEventPageSize"
proof -
  have "0 < k \<and> k \<le> MaxEventPageSize"
  proof (cases "ps ''limit''")
    case None
    then show ?thesis using assms by (simp add: parseEventLimit_def defaultEventPageSize_def MaxEventPageSize_def)
  next
    case (Some vs)
    then obtain l :: u64 where l: "l \<noteq> 0" "l \<le> 1000" "k = ucast l"
      using assms by (auto simp: parseEventLimit_def MaxEventPageSize_def not_less split: if_splits sum.splits)
    then have "unat l \<le> 1000" "unat l \<noteq> 0" by (simp_all add: word_le_nat_alt unat_eq_0)
    then have "unat k = unat l" using l(3) by (simp add: unsigned_ucast_eq take_bit_nat_eq_self)
    then show ?thesis using \<open>unat l \<le> 1000\<close> \<open>unat l \<noteq> 0\<close>
      by (simp add: MaxEventPageSize_def word_le_nat_alt word_less_nat_alt)
  qed
  then show "0 < k" "k \<le> MaxEventPageSize" by simp_all
qed

section \<open>Responses\<close>

lemma written:
  "rw_Status (writeJSON rq st j w) = (case rw_Status w of None \<Rightarrow> Some st | Some x \<Rightarrow> Some x)"
  "rw_ContentType (writeJSON rq st j w) = Some ''application/json''"
  "rq_WriteError rq = None \<Longrightarrow> rw_Body (writeJSON rq st j w) = rw_Body w @ [j]"
  "rw_Status (log_error fs msg w) = rw_Status w" "rw_Body (log_error fs msg w) = rw_Body w"
  "set (rw_Log w) \<subseteq> set (rw_Log (writeJSON rq st j w))" "rw_Log (log_error fs msg w) \<noteq> []"
  "rw_Status fresh_writer = None" "rw_Body fresh_writer = []" "rw_Log fresh_writer = []"
  by (auto simp: writeJSON_def WriteHeader_def log_error_def fresh_writer_def Let_def split: option.splits)

section \<open>What a client may see\<close>

text \<open>
  The bodies of the API, written down from the domain values: an error object, and the JSON of a
  block, a transaction and an event field by field.
\<close>

definition error_body :: "string \<Rightarrow> string \<Rightarrow> string \<Rightarrow> json" where
  "error_body code message requestID = JObject [(''error'', JObject
     (if requestID = '''' then [(''code'', JString code), (''message'', JString message)]
      else [(''code'', JString code), (''message'', JString message), (''request_id'', JString requestID)]))]"

definition decimal_or_null :: "int option \<Rightarrow> json" where
  "decimal_or_null v = (case v of None \<Rightarrow> JNull | Some i \<Rightarrow> JString (show_int i))"

definition event_json :: "GethText \<Rightarrow> Event \<Rightarrow> json" where
  "event_json g e = JObject
     [(''block_number'', JNumber (uint (e_BlockNumber e))), (''block_hash'', JString (gt_HashHex g (e_BlockHash e))),
      (''transaction_hash'', JString (gt_HashHex g (e_TransactionHash e))),
      (''transaction_index'', JNumber (uint (e_TransactionIndex e))), (''log_index'', JNumber (uint (e_LogIndex e))),
      (''address'', JString (gt_AddressHex g (e_Address e))),
      (''topics'', JArray (map (\<lambda>h. JString (gt_HashHex g h)) (e_Topics e))),
      (''data'', JString (gt_HexEncode g (bytes_of (e_Data e))))]"

definition block_json :: "GethText \<Rightarrow> Block \<Rightarrow> hash list \<Rightarrow> json" where
  "block_json g b hashes = JObject
     [(''number'', JNumber (uint (b_Number b))), (''hash'', JString (gt_HashHex g (b_Hash b))),
      (''parent_hash'', JString (gt_HashHex g (b_ParentHash b))), (''timestamp'', JNumber (uint (b_Timestamp b))),
      (''gas_limit'', JNumber (uint (b_GasLimit b))), (''gas_used'', JNumber (uint (b_GasUsed b))),
      (''base_fee_per_gas_wei'', decimal_or_null (b_BaseFeePerGas b)),
      (''transaction_count'', JNumber (b_TransactionCount b)),
      (''transaction_hashes'', JArray (map (\<lambda>h. JString (gt_HashHex g h)) hashes)),
      (''indexed_at'', JTime (Time_UTC (b_IndexedAt b)))]"

definition transaction_json :: "GethText \<Rightarrow> Transaction \<Rightarrow> int \<Rightarrow> Event list \<Rightarrow> json" where
  "transaction_json g t amount es = JObject
     [(''hash'', JString (gt_HashHex g (t_Hash t))), (''block_number'', JNumber (uint (t_BlockNumber t))),
      (''block_hash'', JString (gt_HashHex g (t_BlockHash t))), (''index'', JNumber (uint (t_Index t))),
      (''type'', JNumber (uint (t_Type t))), (''nonce'', JNumber (uint (t_Nonce t))),
      (''sender'', JString (gt_AddressHex g (t_Sender t))),
      (''recipient'', (case t_Recipient t of None \<Rightarrow> JNull | Some a \<Rightarrow> JString (gt_AddressHex g a))),
      (''value_wei'', JString (show_int amount)), (''gas_limit'', JNumber (uint (t_GasLimit t))),
      (''gas_price_wei'', decimal_or_null (t_GasPrice t)),
      (''max_fee_per_gas_wei'', decimal_or_null (t_MaxFeePerGas t)),
      (''max_priority_fee_per_gas_wei'', decimal_or_null (t_MaxPriorityFeePerGas t)),
      (''input'', JString (gt_HexEncode g (bytes_of (t_Input t)))), (''events'', JArray (map (event_json g) es))]"

lemma response_json:
  "json_event (newEventResponse g e) = event_json g e"
  "json_block (newBlockResponse g \<lparr>br_Block = b, br_TransactionHashes = hashes\<rparr>) = block_json g b hashes"
  "t_Value t = Some amount \<Longrightarrow>
     map_sum id json_transaction (newTransactionResponse g \<lparr>tr_Transaction = t, tr_Events = es\<rparr>) =
       Inr (transaction_json g t amount es)"
proof -
  show ev: "json_event (newEventResponse g e) = event_json g e" for e
    by (simp add: json_event_def newEventResponse_def event_json_def json_word_def)
  show "json_block (newBlockResponse g \<lparr>br_Block = b, br_TransactionHashes = hashes\<rparr>) = block_json g b hashes"
    by (simp add: json_block_def newBlockResponse_def block_json_def json_word_def Let_def optionalString_def
        optionalBigIntString_def decimal_or_null_def split: option.splits)
  show "map_sum id json_transaction (newTransactionResponse g \<lparr>tr_Transaction = t, tr_Events = es\<rparr>) =
      Inr (transaction_json g t amount es)" if "t_Value t = Some amount"
    using that
    by (simp add: json_transaction_def newTransactionResponse_def transaction_json_def json_word_def Let_def optionalString_def
        optionalBigIntString_def optionalAddressString_def decimal_or_null_def ev split: option.splits)
qed

section \<open>Failures and their responses\<close>

text \<open>
  The error inside the program that a request runs into, if any: an error of a service that does
  not stand for a missing resource, a refused query, a stale cursor or an index still empty, or a
  stored transaction without a value.
\<close>

fun internal_failure :: "('x, 's) Server \<Rightarrow> endpoint \<Rightarrow> 'x Request \<Rightarrow> 's \<Rightarrow> error" where
  "internal_failure sv HealthzRoute rq s = None"
| "internal_failure sv ReadyzRoute rq s =
     (case he_Ready (sv_HealthService sv) (fst (rq_Context rq)) (snd (rq_Context rq)) s of
        Inr tip \<Rightarrow> None
      | Inl e \<Rightarrow> if errors_Is e ServiceErrNotReady then None else Some e)"
| "internal_failure sv BlockRoute rq s =
     (case parseBlockNumber (rq_URLParam rq ''number'') of
        Inl e \<Rightarrow> None
      | Inr n \<Rightarrow>
          (case qu_Block (sv_QueryService sv) (fst (rq_Context rq)) n s of
             Inr result \<Rightarrow> None
           | Inl e \<Rightarrow> if errors_Is e ServiceErrNotFound then None else Some e))"
| "internal_failure sv TransactionRoute rq s =
     (case parseTransactionHash (sv_Text sv) (rq_URLParam rq ''hash'') of
        Inl e \<Rightarrow> None
      | Inr h \<Rightarrow>
          (case qu_Transaction (sv_QueryService sv) (fst (rq_Context rq)) h s of
             Inr result \<Rightarrow> if t_Value (tr_Transaction result) = None then Some errMissingTransactionValue else None
           | Inl e \<Rightarrow> if errors_Is e ServiceErrNotFound then None else Some e))"
| "internal_failure sv EventsRoute rq s =
     (case (parseEventAddress (sv_Text sv) (rq_URLParam rq ''address''), parseEventLimit (rq_Query rq),
            parseEventCursor (sv_Text sv) (rq_Query rq)) of
        (Inr a, Inr limit, Inr cursor) \<Rightarrow>
          (case qu_Events (sv_QueryService sv) (fst (rq_Context rq))
                  \<lparr>q_Address = a, q_Limit = limit, q_Before = cursor\<rparr> s of
             Inr page \<Rightarrow> None
           | Inl e \<Rightarrow> if errors_Is e ServiceErrInvalidQuery \<or> errors_Is e ServiceErrStaleCursor then None else Some e)
      | _ \<Rightarrow> None)"

text \<open>The errors a client may be told about, by route: status, code and message.\<close>

fun client_errors :: "endpoint \<Rightarrow> (int \<times> string \<times> string) set" where
  "client_errors HealthzRoute = {}"
| "client_errors ReadyzRoute = {}"
| "client_errors BlockRoute =
     {(400, ''invalid_block_number'', ''block number must be an unsigned decimal integer''),
      (404, ''block_not_found'', ''block was not found'')}"
| "client_errors TransactionRoute =
     {(400, ''invalid_transaction_hash'', ''transaction hash must be a 0x-prefixed 32-byte hexadecimal value''),
      (404, ''transaction_not_found'', ''transaction was not found'')}"
| "client_errors EventsRoute =
     {(400, ''invalid_address'', ''address must be a 0x-prefixed 20-byte hexadecimal value''),
      (400, ''invalid_limit'', ''limit must be an integer from 1 to 1000''),
      (400, ''invalid_cursor'', ''cursor is invalid''),
      (400, ''invalid_event_query'', ''event query is invalid''),
      (409, ''stale_cursor'', ''cursor is no longer canonical; restart pagination'')}"

text \<open>The one thing logged besides: a body that could not be sent.\<close>

definition write_failure :: "'x Request \<Rightarrow> LogEntry list" where
  "write_failure rq = (case rq_WriteError rq of
     None \<Rightarrow> []
   | Some e \<Rightarrow> [\<lparr>le_Level = ErrorLevel, le_Fields = [(''error'', LErr e), (''request_id'', LStr (rq_ReqID rq))],
                  le_Msg = ''encode HTTP response''\<rparr>])"

definition responds :: "'x Request \<Rightarrow> int \<Rightarrow> json \<Rightarrow> LogEntry list \<Rightarrow> ResponseWriter \<Rightarrow> bool" where
  "responds rq st body entries w \<longleftrightarrow>
     rw_Status w = Some st \<and> rw_ContentType w = Some ''application/json'' \<and>
     rw_Body w = (if rq_WriteError rq = None then [body] else []) \<and> rw_Log w = entries @ write_failure rq"

lemma responds_write:
  "responds rq st body [] (writeJSON rq st body fresh_writer)"
  "responds rq st body [\<lparr>le_Level = ErrorLevel, le_Fields = fs, le_Msg = msg\<rparr>] (writeJSON rq st body (log_error fs msg fresh_writer))"
  "responds rq st (error_body code message (rq_ReqID rq)) [] (writeError rq st code message fresh_writer)"
  "responds rq 500 (error_body ''internal_error'' ''internal server error'' (rq_ReqID rq))
     [\<lparr>le_Level = ErrorLevel, le_Fields = fs, le_Msg = msg\<rparr>] (internal_error rq (log_error fs msg fresh_writer))"
  by (auto simp: responds_def write_failure_def writeJSON_def WriteHeader_def log_error_def fresh_writer_def Let_def
      writeError_def internal_error_def errorResponse_def error_body_def split: option.splits)

text \<open>
  What every response satisfies: after an internal failure the body is fixed and the error is
  logged with the request ID; otherwise nothing is logged and the body is a result or one of the
  known errors.
\<close>

definition proper :: "endpoint \<Rightarrow> 'x Request \<Rightarrow> error \<Rightarrow> ResponseWriter \<Rightarrow> bool" where
  "proper route rq failure w \<longleftrightarrow>
     (\<exists>st body entries. responds rq st body entries w \<and>
       (case failure of
          Some e \<Rightarrow>
            (st, body) = (if route = ReadyzRoute then (503, JObject [(''status'', JString ''not_ready'')])
              else (500, error_body ''internal_error'' ''internal server error'' (rq_ReqID rq))) \<and>
            (\<exists>fs msg. entries = [\<lparr>le_Level = ErrorLevel,
               le_Fields = (''error'', LErr e) # (''request_id'', LStr (rq_ReqID rq)) # fs, le_Msg = msg\<rparr>])
        | None \<Rightarrow> entries = [] \<and>
            (st = 200 \<or> route = ReadyzRoute \<and> (st, body) = (503, JObject [(''status'', JString ''not_ready'')]) \<or>
             (\<exists>code message. (st, code, message) \<in> client_errors route \<and> body = error_body code message (rq_ReqID rq)))))"

lemma proper_result: "proper route rq None (writeJSON rq 200 body fresh_writer)"
  unfolding proper_def using responds_write(1) [of rq 200 body] by fastforce

lemma proper_refused:
  "(st, code, message) \<in> client_errors route \<Longrightarrow> proper route rq None (writeError rq st code message fresh_writer)"
  unfolding proper_def using responds_write(3) [of rq st code message] by fastforce

lemma proper_failed:
  "route \<noteq> ReadyzRoute \<Longrightarrow> proper route rq (Some e)
     (internal_error rq (log_error ((''error'', LErr e) # (''request_id'', LStr (rq_ReqID rq)) # fs) msg fresh_writer))"
  unfolding proper_def using responds_write(4) [of rq "(''error'', LErr e) # (''request_id'', LStr (rq_ReqID rq)) # fs" msg]
  by fastforce

lemmas proper_writes = proper_result proper_refused proper_failed

lemma serve_proper: "proper route rq (internal_failure sv route rq s) (serve sv route rq s)"
proof (cases route)
  case HealthzRoute
  then show ?thesis by (simp add: serve_def health_def proper_writes)
next
  case ReadyzRoute
  have "proper ReadyzRoute rq None (writeJSON rq 503 (healthResponse ''not_ready'') fresh_writer)"
    unfolding proper_def using responds_write(1) [of rq 503 "healthResponse ''not_ready''"]
    by (fastforce simp: healthResponse_def)
  moreover have "proper ReadyzRoute rq (Some e) (writeJSON rq 503 (healthResponse ''not_ready'')
      (log_error [(''error'', LErr e), (''request_id'', LStr (rq_ReqID rq))] msg fresh_writer))" for e msg
    unfolding proper_def
    using responds_write(2) [of rq 503 "healthResponse ''not_ready''" "[(''error'', LErr e), (''request_id'', LStr (rq_ReqID rq))]" msg]
    by (fastforce simp: healthResponse_def)
  ultimately show ?thesis using ReadyzRoute
    by (simp add: serve_def readiness_def proper_writes split: sum.splits)
next
  case BlockRoute
  then show ?thesis by (simp add: serve_def blockByNumber_def proper_writes split: sum.splits)
next
  case TransactionRoute
  have failed: "newTransactionResponse g result = Inl e \<longleftrightarrow> t_Value (tr_Transaction result) = None \<and> e = errMissingTransactionValue"
    and built: "newTransactionResponse g result = Inr r \<Longrightarrow> t_Value (tr_Transaction result) \<noteq> None"
    for g result e r by (auto simp: newTransactionResponse_def Let_def split: option.splits)
  then show ?thesis using TransactionRoute
    by (auto simp: serve_def transactionByHash_def logTransactionError_def proper_writes dest: built split: sum.splits)
next
  case EventsRoute
  then show ?thesis by (simp add: serve_def eventsByAddress_def proper_writes split: sum.splits)
qed

end
