(* ===== verification/Server_Theorems.thy ===== *)
theory Server_Theorems
  imports Server_Props
begin

text \<open>
  The properties of the HTTP layer: exact parsers, proper responses, complete pagination over HTTP,
  links that resolve, and readiness after a synchronization.
\<close>

definition memory_server :: "GethText \<Rightarrow> (ctx, Memory) Server" where
  "memory_server g = \<lparr>sv_QueryService = NewQueryService MemoryQueryStore,
     sv_HealthService = NewHealthService MemoryReadiness, sv_Text = g\<rparr>"

section \<open>Sample text forms\<close>

text \<open>Lower-case hexadecimal text of fixed width, standing in for go-ethereum in the examples.\<close>

definition hex_alphabet :: string where
  "hex_alphabet = ''0123456789abcdef''"

definition hex_char :: "nat \<Rightarrow> char" where
  "hex_char d = hex_alphabet ! d"

fun hex_digits :: "nat \<Rightarrow> nat \<Rightarrow> string" where
  "hex_digits 0 n = []"
| "hex_digits (Suc k) n = hex_digits k (n div 16) @ [hex_char (n mod 16)]"

definition hex_value :: "string \<Rightarrow> nat" where
  "hex_value s = foldl (\<lambda>n c. n * 16 + the (b64_index hex_alphabet c)) 0 s"

definition hash_hex :: "hash \<Rightarrow> string" where "hash_hex h = ''0x'' @ hex_digits 64 (unat h)"
definition address_hex :: "address \<Rightarrow> string" where "address_hex a = ''0x'' @ hex_digits 40 (unat a)"
definition bytes_hex :: "bytes \<Rightarrow> string" where "bytes_hex bs = ''0x'' @ concat (map (\<lambda>b. hex_digits 2 (unat b)) bs)"
definition is_hex :: "string \<Rightarrow> bool" where "is_hex v \<longleftrightarrow> list_all (\<lambda>c. c \<in> set hex_alphabet) (drop 2 v)"
definition hex_word :: "string \<Rightarrow> 'a::len word" where "hex_word v = of_nat (hex_value (drop 2 v))"

definition sample_text :: GethText where
  "sample_text = \<lparr>gt_HashHex = hash_hex, gt_AddressHex = address_hex, gt_HexEncode = bytes_hex,
     gt_IsHexHash = is_hex, gt_HexToHash = hex_word, gt_IsHexAddress = is_hex, gt_HexToAddress = hex_word,
     gt_BytesToHash = be_word\<rparr>"

lemma length_hex_digits [simp]: "length (hex_digits k n) = k"
  by (induction k arbitrary: n) auto

lemma hex_alphabet_facts: "distinct hex_alphabet" "length hex_alphabet = 16"
  by code_simp+

lemma hex_char: "d < 16 \<Longrightarrow> b64_index hex_alphabet (hex_char d) = Some d"
  unfolding hex_char_def by (rule b64_index_nth) (simp_all add: hex_alphabet_facts)

lemma hex_value_digits: "hex_value (hex_digits k n) = n mod 16 ^ k"
proof (induction k arbitrary: n)
  case (Suc k)
  have "hex_value (s @ [c]) = hex_value s * 16 + the (b64_index hex_alphabet c)" for s c by (simp add: hex_value_def)
  moreover have "n mod (16 * 16 ^ k) = 16 * (n div 16 mod 16 ^ k) + n mod 16" by (rule mod_mult2_eq)
  ultimately show ?case using Suc by (simp add: hex_char)
qed (simp add: hex_value_def)

lemma hex_digits_hex: "c \<in> set (hex_digits k n) \<Longrightarrow> c \<in> set hex_alphabet"
proof (induction k arbitrary: n)
  case (Suc k)
  have "hex_char d \<in> set hex_alphabet" if "d < 16" for d unfolding hex_char_def using that by (intro nth_mem) (simp add: hex_alphabet_facts)
  with Suc show ?case by auto
qed simp

lemma sample_bytes_to_hash: "bytes_to_hash sample_text"
  by (simp add: bytes_to_hash_def sample_text_def)

section \<open>Parsers\<close>

text \<open>
  C32: a page cursor is a faithful and canonical token. \<open>parseEventCursor\<close> accepts a query exactly when
  it carries one cursor and that is the text \<open>encodeEventCursor\<close> makes of the cursor: what the
  service handed out comes back unchanged, and no other text is accepted for it.
\<close>

theorem event_cursor_roundtrip:
  assumes "bytes_to_hash g"
  shows "parseEventCursor g ps = Inr (Some c) \<longleftrightarrow> ps ''cursor'' = Some [encodeEventCursor c]"
  by (rule parseEventCursor_iff [OF assms])

theorem event_cursor_roundtrip_witness:
  "parseEventCursor sample_text [''cursor'' \<mapsto> [encodeEventCursor \<lparr>ec_BlockNumber = 11, ec_BlockHash = 111, ec_LogIndex = 1\<rparr>]] =
     Inr (Some \<lparr>ec_BlockNumber = 11, ec_BlockHash = 111, ec_LogIndex = 1\<rparr>)"
  using event_cursor_roundtrip [OF sample_bytes_to_hash] by simp

section \<open>Responses\<close>

definition sample_request :: "ctx \<Rightarrow> string \<Rightarrow> ctx Request" where
  "sample_request x v = \<lparr>rq_URLParam = (\<lambda>k. v), rq_Query = (\<lambda>k. None), rq_ReqID = ''r1'', rq_Context = (x, x), rq_WriteError = None\<rparr>"

text \<open>
  C33: internal errors are logged and never reach a client, and every request gets one proper
  response: one status, as JSON, with one body unless the connection fails. When a request runs into an
  internal failure the body is a constant, \<open>not_ready\<close> with status 503 for the readiness probe and
  otherwise the internal server error with status 500, that says nothing of the error; the error
  is logged once, with the request ID. Otherwise nothing is logged and the answer is a result with
  status 200, \<open>not_ready\<close> from the readiness probe, or one of the route's known errors: status 400,
  404 or 409 with its fixed code and message. The only other thing ever logged is that a body could
  not be sent.
\<close>

theorem http_responses_proper:
  "\<exists>st body entries.
     rw_Status (serve sv route rq s) = Some st \<and>
     rw_ContentType (serve sv route rq s) = Some ''application/json'' \<and>
     rw_Body (serve sv route rq s) = (if rq_WriteError rq = None then [body] else []) \<and>
     rw_Log (serve sv route rq s) = entries @ write_failure rq \<and>
     (case internal_failure sv route rq s of
        Some e \<Rightarrow>
          (st, body) = (if route = ReadyzRoute then (503, JObject [(''status'', JString ''not_ready'')])
            else (500, error_body ''internal_error'' ''internal server error'' (rq_ReqID rq))) \<and>
          (\<exists>fs msg. entries = [\<lparr>le_Level = ErrorLevel,
             le_Fields = (''error'', LErr e) # (''request_id'', LStr (rq_ReqID rq)) # fs, le_Msg = msg\<rparr>])
      | None \<Rightarrow> entries = [] \<and>
          (st = 200 \<or> route = ReadyzRoute \<and> (st, body) = (503, JObject [(''status'', JString ''not_ready'')]) \<or>
           (\<exists>code message. (st, code, message) \<in> client_errors route \<and> body = error_body code message (rq_ReqID rq))))"
  using serve_proper [of route rq sv s] unfolding proper_def responds_def by (simp only: conj_assoc)

theorem http_responses_proper_witness:
  "rw_Status (serve (memory_server sample_text) BlockRoute (sample_request (Some DeadlineExceeded) ''10'') sample_memory) = Some 500 \<and>
   rw_Body (serve (memory_server sample_text) BlockRoute (sample_request (Some DeadlineExceeded) ''10'') sample_memory) =
     [error_body ''internal_error'' ''internal server error'' ''r1''] \<and>
   rw_Body (serve (memory_server sample_text) ReadyzRoute (sample_request (Some DeadlineExceeded) '''') sample_memory) =
     [JObject [(''status'', JString ''not_ready'')]] \<and>
   length (rw_Log (serve (memory_server sample_text) ReadyzRoute (sample_request (Some DeadlineExceeded) '''') sample_memory)) = 1"
proof -
  let ?b = "sample_request (Some DeadlineExceeded) ''10''" and ?r = "sample_request (Some DeadlineExceeded) ''''"
  have "internal_failure (memory_server sample_text) BlockRoute ?b sample_memory \<noteq> None"
    "internal_failure (memory_server sample_text) ReadyzRoute ?r sample_memory \<noteq> None" by code_simp+
  moreover have "rq_WriteError ?b = None" "rq_ReqID ?b = ''r1''" "rq_WriteError ?r = None" "write_failure ?r = []"
    by (simp_all add: sample_request_def write_failure_def)
  ultimately show ?thesis
    using http_responses_proper [of "memory_server sample_text" BlockRoute ?b sample_memory]
      http_responses_proper [of "memory_server sample_text" ReadyzRoute ?r sample_memory]
    by (auto simp del: internal_failure.simps)
qed

section \<open>Pagination over HTTP\<close>

definition json_field :: "json \<Rightarrow> string \<Rightarrow> json option" where
  "json_field j k = (case j of JObject fs \<Rightarrow> map_of fs k | _ \<Rightarrow> None)"

text \<open>
  A client of \<open>/v1/addresses/{address}/events\<close>: it sends the same request again with the cursor of the
  last page and collects the events, until a page has no \<open>next_cursor\<close>. \<^const>\<open>None\<close> is a status
  other than 200, a body of another shape, or running out of fuel.
\<close>

fun http_walk :: "('x, 's) Server \<Rightarrow> 's \<Rightarrow> 'x Request \<Rightarrow> nat \<Rightarrow> string option \<Rightarrow> json list option" where
  "http_walk sv s rq 0 cursor = None"
| "http_walk sv s rq (Suc fuel) cursor =
     (let w = serve sv EventsRoute (rq\<lparr>rq_Query := (rq_Query rq)(''cursor'' := map_option (\<lambda>c. [c]) cursor)\<rparr>) s in
      if rw_Status w \<noteq> Some 200 then None
      else
        (case rw_Body w of
           [body] \<Rightarrow>
             (case (json_field body ''events'', json_field body ''next_cursor'') of
                (Some (JArray es), Some JNull) \<Rightarrow> Some es
              | (Some (JArray es), Some (JString c)) \<Rightarrow> map_option ((@) es) (http_walk sv s rq fuel (Some c))
              | _ \<Rightarrow> None)
         | _ \<Rightarrow> None))"

lemma http_page:
  assumes sv: "sv_QueryService sv = NewQueryService st" and g: "bytes_to_hash (sv_Text sv)"
    and a: "parseEventAddress (sv_Text sv) (rq_URLParam rq ''address'') = Inr a"
    and limit: "parseEventLimit (rq_Query rq) = Inr limit" and ok: "rq_WriteError rq = None"
    and page: "qs_EventsByAddress st (fst (rq_Context rq)) \<lparr>q_Address = a, q_Limit = limit, q_Before = cursor\<rparr> s = Inr p"
  shows "serve sv EventsRoute
      (rq\<lparr>rq_Query := (rq_Query rq)(''cursor'' := map_option (\<lambda>c. [c]) (map_option encodeEventCursor cursor))\<rparr>) s =
    fresh_writer\<lparr>rw_ContentType := Some ''application/json'', rw_Status := Some 200,
      rw_Body := [json_event_page (newEventPageResponse (sv_Text sv) p)]\<rparr>"
proof -
  let ?ps = "(rq_Query rq)(''cursor'' := map_option (\<lambda>c. [c]) (map_option encodeEventCursor cursor))"
  have "parseEventLimit ?ps = Inr limit" using limit by (simp add: parseEventLimit_def)
  moreover have "parseEventCursor (sv_Text sv) ?ps = Inr cursor"
  proof (cases cursor)
    case None
    then show ?thesis by (simp add: parseEventCursor_def)
  next
    case (Some c)
    then show ?thesis using parseEventCursor_iff [OF g, of ?ps c] by simp
  qed
  ultimately show ?thesis using a sv page ok
    by (simp add: serve_def eventsByAddress_def NewQueryService_def QueryService_Events_def writeJSON_def
        WriteHeader_def fresh_writer_def Let_def)
qed

lemma http_walk_pages:
  assumes sv: "sv_QueryService sv = NewQueryService st" and g: "bytes_to_hash (sv_Text sv)"
    and a: "parseEventAddress (sv_Text sv) (rq_URLParam rq ''address'') = Inr a"
    and limit: "parseEventLimit (rq_Query rq) = Inr limit" and ok: "rq_WriteError rq = None"
  shows "walk_pages (\<lambda>q. qs_EventsByAddress st (fst (rq_Context rq)) q s) fuel a limit cursor = Some (Inr es) \<Longrightarrow>
    http_walk sv s rq fuel (map_option encodeEventCursor cursor) =
      Some (map (\<lambda>e. json_event (newEventResponse (sv_Text sv) e)) es)"
proof (induction fuel arbitrary: cursor es)
  case (Suc fuel)
  let ?q = "\<lparr>q_Address = a, q_Limit = limit, q_Before = cursor\<rparr>"
  let ?j = "\<lambda>e. json_event (newEventResponse (sv_Text sv) e)"
  obtain p where p: "qs_EventsByAddress st (fst (rq_Context rq)) ?q s = Inr p"
    using Suc.prems by (auto split: sum.splits)
  note page = http_page [OF sv g a limit ok p]
  have fields: "json_field (json_event_page (newEventPageResponse (sv_Text sv) p)) ''events'' = Some (JArray (map ?j (p_Events p)))"
    "json_field (json_event_page (newEventPageResponse (sv_Text sv) p)) ''next_cursor'' =
       Some (optionalString (map_option encodeEventCursor (p_NextCursor p)))"
    by (simp_all add: json_field_def json_event_page_def newEventPageResponse_def)
  show ?case
  proof (cases "p_NextCursor p")
    case None
    then show ?thesis using Suc.prems p fields by (simp add: page Let_def optionalString_def)
  next
    case (Some c)
    let ?walk = "walk_pages (\<lambda>q. qs_EventsByAddress st (fst (rq_Context rq)) q s) fuel a limit (Some c)"
    have "map_option (map_sum id ((@) (p_Events p))) ?walk = Some (Inr es)" using Suc.prems p Some by simp
    then obtain z where z: "?walk = Some z" "map_sum id ((@) (p_Events p)) z = Inr es" by auto
    then obtain es' where es: "?walk = Some (Inr es')" "es = p_Events p @ es'" by (cases z) auto
    show ?thesis using Suc.IH [OF es(1)] es(2) Some fields by (simp add: page Let_def optionalString_def)
  qed
qed simp

text \<open>
  C5: reading an address's events over HTTP is complete. A client that follows \<open>next_cursor\<close> with any
  valid address and limit gets status 200 every time and ends with exactly the stored events of
  that address, each once and with every field, newest first: the query, the page cut, the encoding of the cursor and its
  parsing fit together.
\<close>

theorem http_paging_complete:
  assumes "memory_inv m" and "bytes_to_hash g"
    and "parseEventAddress g (rq_URLParam rq ''address'') = Inr a" and "parseEventLimit (rq_Query rq) = Inr limit"
    and "rq_WriteError rq = None" and "fst (rq_Context rq) = None" and "length (events_of m a) < fuel"
  shows "http_walk (memory_server g) m rq fuel None = Some (map (event_json g) (events_of m a)) \<and>
    set (events_of m a) = {e \<in> set (stored_events m). e_Address e = a} \<and>
    distinct (events_of m a) \<and> sorted_wrt newest_first (events_of m a)"
proof -
  have "walk_pages (\<lambda>q. qs_EventsByAddress MemoryQueryStore (fst (rq_Context rq)) q m) fuel a limit None = Some (Inr (events_of m a))"
    using mem_pages.walk_complete [OF assms(1) parseEventLimit_bounds [OF assms(4)] assms(7)]
    by (simp add: MemoryQueryStore_def assms(6))
  from http_walk_pages [of "memory_server g", OF _ _ _ assms(4,5) this] assms(2,3)
  have "http_walk (memory_server g) m rq fuel None = Some (map (event_json g) (events_of m a))"
    by (simp add: memory_server_def response_json(1))
  then show ?thesis
    using set_events_of sorted_events_of [OF assms(1)] newest.sorted_distinct [OF sorted_events_of [OF assms(1)]] by blast
qed

theorem http_paging_complete_witness:
  "\<exists>es. http_walk (memory_server sample_text) sample_memory
      ((sample_request None (address_hex 99))\<lparr>rq_Query := [''limit'' \<mapsto> [''2'']]\<rparr>) 5 None = Some es \<and> length es = 4"
proof -
  let ?rq = "(sample_request None (address_hex 99))\<lparr>rq_Query := [''limit'' \<mapsto> [''2'']]\<rparr>"
  have "parseEventAddress sample_text (address_hex 99) = Inr 99" "parseEventLimit [''limit'' \<mapsto> [''2'']] = Inr 2"
    "length (events_of sample_memory 99) = 4" by code_simp+
  then show ?thesis
    using http_paging_complete [OF sample_memory_inv sample_bytes_to_hash, of ?rq 99 2 5] by (simp add: sample_request_def)
qed

text \<open>
  C34: the status of an event query. Over a consistent store and a live connection the answer is 400
  when a parameter does not parse, 409 when the cursor's block is no longer canonical, and 200
  otherwise; a parsed limit is never refused by the store and no such request ends in a 500.
\<close>

theorem events_status:
  assumes "memory_inv m" and "fst (rq_Context rq) = None"
  shows "rw_Status (serve (memory_server g) EventsRoute rq m) =
    Some (case (parseEventAddress g (rq_URLParam rq ''address''), parseEventLimit (rq_Query rq), parseEventCursor g (rq_Query rq)) of
        (Inr a, Inr limit, Inr cursor) \<Rightarrow>
          (case cursor of None \<Rightarrow> 200
           | Some c \<Rightarrow> if map_option fst (memory_chain m (ec_BlockNumber c)) = Some (ec_BlockHash c) then 200 else 409)
      | _ \<Rightarrow> 400)"
proof -
  have current: "cursor_current m cursor \<longleftrightarrow> (case cursor of None \<Rightarrow> True
      | Some c \<Rightarrow> map_option fst (memory_chain m (ec_BlockNumber c)) = Some (ec_BlockHash c))" for cursor
    by (auto simp: cursor_current_def memory_chain_def header_def split: option.splits)
  have stored: "qu_Events (sv_QueryService (memory_server g)) (fst (rq_Context rq)) \<lparr>q_Address = a, q_Limit = limit, q_Before = cursor\<rparr> m =
      (if cursor_current m cursor then Inr (page_of limit (filter (\<lambda>e. eventBeforeCursor e cursor) (events_of m a)))
       else Inl (translateStoreError (Sentinel ErrStaleCursor)))"
    if "parseEventLimit (rq_Query rq) = Inr limit" for a limit cursor
    using parseEventLimit_bounds [OF that] assms
    by (auto simp: memory_server_def NewQueryService_def QueryService_Events_def MemoryQueryStore_def EventsByAddress_iff)
  have forms: "sv_Text (memory_server g) = g" by (simp add: memory_server_def)
  show ?thesis
    unfolding serve_def eventsByAddress_def
    by (auto simp: forms stored current writeError_def internal_error_def written translateStoreError_Is
        split: sum.splits option.splits)
qed

theorem events_status_witness:
  "rw_Status (serve (memory_server sample_text) EventsRoute
      ((sample_request None (address_hex 99))\<lparr>rq_Query := [''cursor'' \<mapsto>
         [encodeEventCursor \<lparr>ec_BlockNumber = 11, ec_BlockHash = 999, ec_LogIndex = 1\<rparr>]]\<rparr>) sample_memory) = Some 409"
proof -
  let ?c = "\<lparr>ec_BlockNumber = 11, ec_BlockHash = 999, ec_LogIndex = 1\<rparr>"
  let ?rq = "(sample_request None (address_hex 99))\<lparr>rq_Query := [''cursor'' \<mapsto> [encodeEventCursor ?c]]\<rparr>"
  have "parseEventAddress sample_text (address_hex 99) = Inr 99" "memory_chain sample_memory 11 = Some (111, 110)"
    by code_simp+
  moreover have "parseEventCursor sample_text [''cursor'' \<mapsto> [encodeEventCursor ?c]] = Inr (Some ?c)"
    using parseEventCursor_iff [OF sample_bytes_to_hash] by simp
  moreover have "parseEventLimit [''cursor'' \<mapsto> [encodeEventCursor ?c]] = Inr 100"
    by (simp add: parseEventLimit_def defaultEventPageSize_def)
  ultimately show ?thesis
    using events_status [OF sample_memory_inv, of ?rq sample_text] by (simp add: sample_request_def)
qed

section \<open>Links between resources\<close>

text \<open>What the links rely on of go-ethereum: a hash's text is 0x and 64 digits, and reads back as the hash.\<close>

definition hash_text :: "GethText \<Rightarrow> bool" where
  "hash_text g \<longleftrightarrow> (\<forall>h. length (gt_HashHex g h) = 66 \<and> has_0x (gt_HashHex g h) \<and> gt_IsHexHash g (gt_HashHex g h) \<and>
     gt_HexToHash g (gt_HashHex g h) = h)"

lemma sample_hash_text: "hash_text sample_text"
proof -
  have "unat h < 16 ^ 64" for h :: hash using unsigned_less [of h, where 'a = nat] by simp
  then show ?thesis
    using hex_digits_hex
    by (auto simp: hash_text_def sample_text_def hash_hex_def has_0x_def is_hex_def hex_word_def hex_value_digits list_all_iff)
qed

text \<open>
  C35: a block lists transactions that can be read. For a stored block, the block's number answers 200
  with the JSON of that block, every field of it from the stored block and the text of the hash of
  each of its transactions in order. The text of every hash listed answers 200 with the JSON of that
  transaction, every field from the stored one, and all its events in log order.
\<close>

theorem block_links_resolve:
  assumes "memory_inv m" and "hash_text g" and "map_of (m_bundles m) n = Some b"
    and "\<forall>t \<in> set (bb_Transactions b). t_Value t \<noteq> None"
    and "rq_WriteError rq = None" and "fst (rq_Context rq) = None"
    and "rq_URLParam rq ''number'' = show_nat (unat n)"
  shows "rw_Status (serve (memory_server g) BlockRoute rq m) = Some 200 \<and>
    rw_Body (serve (memory_server g) BlockRoute rq m) = [block_json g (bb_Block b) (map t_Hash (bb_Transactions b))] \<and>
    (\<forall>t \<in> set (bb_Transactions b). \<exists>amount es. t_Value t = Some amount \<and>
       mset es = mset (filter (\<lambda>e. e_TransactionHash e = t_Hash t) (bb_Events b)) \<and> sorted_wrt log_less es \<and>
       rw_Status (serve (memory_server g) TransactionRoute (rq\<lparr>rq_URLParam := (\<lambda>k. gt_HashHex g (t_Hash t))\<rparr>) m) = Some 200 \<and>
       rw_Body (serve (memory_server g) TransactionRoute (rq\<lparr>rq_URLParam := (\<lambda>k. gt_HashHex g (t_Hash t))\<rparr>) m) =
         [transaction_json g t amount es])"
proof (intro conjI ballI)
  have "parseBlockNumber (show_nat (unat n)) = Inr n" by (simp add: parseBlockNumber_iff list_all_iff show_nat_digits)
  then have "serve (memory_server g) BlockRoute rq m =
      writeJSON rq 200 (block_json g (bb_Block b) (map t_Hash (bb_Transactions b))) fresh_writer"
    using assms(3,6,7)
    by (simp add: serve_def blockByNumber_def memory_server_def NewQueryService_def QueryService_Block_def
        MemoryQueryStore_def BlockByNumber_iff response_json(2))
  then show "rw_Status (serve (memory_server g) BlockRoute rq m) = Some 200"
    "rw_Body (serve (memory_server g) BlockRoute rq m) = [block_json g (bb_Block b) (map t_Hash (bb_Transactions b))]"
    using assms(5) by (simp_all add: written)
next
  fix t assume t: "t \<in> set (bb_Transactions b)"
  let ?es = "filter (\<lambda>e. e_TransactionHash e = t_Hash t) (bb_Events b)"
  let ?rq = "rq\<lparr>rq_URLParam := (\<lambda>k. gt_HashHex g (t_Hash t))\<rparr>"
  obtain amount where amount: "t_Value t = Some amount" using assms(4) t by blast
  then obtain r where r: "newTransactionResponse g \<lparr>tr_Transaction = t, tr_Events = sort_Slice log_less ?es\<rparr> = Inr r"
    "json_transaction r = transaction_json g t amount (sort_Slice log_less ?es)"
    using response_json(3) [OF amount, of g "sort_Slice log_less ?es"]
    by (cases "newTransactionResponse g \<lparr>tr_Transaction = t, tr_Events = sort_Slice log_less ?es\<rparr>") auto
  have "parseTransactionHash g (gt_HashHex g (t_Hash t)) = Inr (t_Hash t)"
    using assms(2) by (simp add: parseTransactionHash_def hash_text_def)
  then have "serve (memory_server g) TransactionRoute ?rq m =
      writeJSON ?rq 200 (transaction_json g t amount (sort_Slice log_less ?es)) fresh_writer"
    using TransactionByHash_found [OF assms(1,3) t] assms(6) r
    by (simp add: serve_def transactionByHash_def memory_server_def NewQueryService_def QueryService_Transaction_def
        MemoryQueryStore_def)
  moreover have "distinct (map e_LogIndex ?es)"
    using stored_wf(2) [OF assms(1,3)] by (simp add: wf_bundle_def wf_events_def distinct_map_filter)
  then have "sorted_wrt log_less (sort_Slice log_less ?es)" by (rule by_log.sorted_sort)
  ultimately show "\<exists>amount es. t_Value t = Some amount \<and> mset es = mset ?es \<and> sorted_wrt log_less es \<and>
      rw_Status (serve (memory_server g) TransactionRoute ?rq m) = Some 200 \<and>
      rw_Body (serve (memory_server g) TransactionRoute ?rq m) = [transaction_json g t amount es]"
    using amount assms(5) by (intro exI [of _ amount] exI [of _ "sort_Slice log_less ?es"]) (simp add: written)
qed

theorem block_links_resolve_witness:
  "rw_Status (serve (memory_server sample_text) BlockRoute (sample_request None ''10'') sample_memory) = Some 200 \<and>
   (\<exists>es. length es = 2 \<and>
      rw_Body (serve (memory_server sample_text) TransactionRoute (sample_request None (hash_hex 1010)) sample_memory) =
        [transaction_json sample_text (sample_transaction 10 110 1010) 5 es])"
proof -
  let ?rq = "sample_request None ''10''" and ?t = "sample_transaction 10 110 1010"
  have "map_of (m_bundles sample_memory) 10 = Some (sample_bundle 10 110 109 1010)" by (simp add: sample_memory_def)
  moreover have "show_nat (unat (10 :: u64)) = ''10''" by code_simp
  moreover have "\<forall>t \<in> set (bb_Transactions (sample_bundle 10 110 109 1010)). t_Value t \<noteq> None"
    by (simp add: sample_bundle_def sample_transaction_def)
  ultimately have links: "rw_Status (serve (memory_server sample_text) BlockRoute ?rq sample_memory) = Some 200"
    "\<exists>amount es. t_Value ?t = Some amount \<and>
       mset es = mset (filter (\<lambda>e. e_TransactionHash e = t_Hash ?t) (bb_Events (sample_bundle 10 110 109 1010))) \<and>
       rw_Body (serve (memory_server sample_text) TransactionRoute
         (?rq\<lparr>rq_URLParam := (\<lambda>k. gt_HashHex sample_text (t_Hash ?t))\<rparr>) sample_memory) = [transaction_json sample_text ?t amount es]"
    using block_links_resolve [OF sample_memory_inv sample_hash_text, of 10 "sample_bundle 10 110 109 1010" ?rq]
    by (auto simp: sample_request_def sample_bundle_def)
  have rq: "?rq\<lparr>rq_URLParam := (\<lambda>k. gt_HashHex sample_text (t_Hash ?t))\<rparr> = sample_request None (hash_hex 1010)"
    by (simp add: sample_request_def sample_text_def sample_transaction_def)
  obtain amount es where es: "t_Value ?t = Some amount"
    "mset es = mset (filter (\<lambda>e. e_TransactionHash e = t_Hash ?t) (bb_Events (sample_bundle 10 110 109 1010)))"
    "rw_Body (serve (memory_server sample_text) TransactionRoute (sample_request None (hash_hex 1010)) sample_memory) =
       [transaction_json sample_text ?t amount es]" using links(2) unfolding rq by blast
  have "amount = 5" using es(1) by (simp add: sample_transaction_def)
  moreover have "length es = 2" using arg_cong [OF es(2), of size] by (simp add: sample_bundle_def sample_transaction_def sample_event_def)
  ultimately show ?thesis using links(1) es(3) by blast
qed

section \<open>Readiness\<close>

text \<open>
  C36: readiness follows synchronization. Over a consistent store \<open>/readyz\<close> answers 503 exactly while the
  store is empty, and as soon as a cycle has succeeded it answers 200 with the number of the head
  that cycle reports, which the node reported for the configured mode.
\<close>

theorem readiness_follows_sync:
  assumes "memory_inv m" and "y_store sy = Some MemoryIndexStore"
    and "SyncOnce ctx sy m w = (Inr r, m', w')" and "rq_Context rq = (None, None)" and "rq_WriteError rq = None"
  shows "rw_Status (serve (memory_server g) ReadyzRoute rq m) = Some (if m_bundles m = [] then 503 else 200) \<and>
    rw_Status (serve (memory_server g) ReadyzRoute rq m') = Some 200 \<and>
    rw_Body (serve (memory_server g) ReadyzRoute rq m') =
      [JObject [(''status'', JString ''ready''), (''last_indexed_block'', JNumber (uint (tip_Number (sr_Head r))))]] \<and>
    head_reported sy w (sr_Head r)"
proof -
  have ready: "Memory_CanonicalTip None k = Inr t \<Longrightarrow> serve (memory_server g) ReadyzRoute rq k =
      (case t of Some tip \<Rightarrow> writeJSON rq 200 (readinessResponse ''ready'' (tip_Number tip)) fresh_writer
       | None \<Rightarrow> writeJSON rq 503 (healthResponse ''not_ready'') fresh_writer)" for k t
    using assms(4)
    by (simp add: serve_def readiness_def memory_server_def NewHealthService_def Ready_def MemoryReadiness_def Memory_Ping_def
        split: option.splits)
  note ok = mem.sync_ok [OF assms(1-3)]
  obtain p where p: "memory_chain m' (tip_Number (sr_Head r)) = Some (tip_Hash (sr_Head r), p)" using ok(2) by blast
  have tip: "Memory_CanonicalTip None m' = Inr (Some (sr_Head r))"
    using tip_of_head [OF ok(1) p] ok(3) by (cases "sr_Head r") auto
  obtain h f where h: "highest_loop (map fst (m_bundles m)) 0 False = (h, f)" by fastforce
  then obtain t where t: "Memory_CanonicalTip None m = Inr t" "t = None \<longleftrightarrow> m_bundles m = []"
    using highest_loop [OF h] by (cases f) (simp_all add: Memory_CanonicalTip_def highestBundle_def)
  show ?thesis using ready [OF tip] ready [OF t(1)] t(2) assms(5) ok(5)
    by (auto simp: written readinessResponse_def json_word_def split: option.splits)
qed

theorem readiness_follows_sync_witness:
  "rw_Body (serve (memory_server sample_text) ReadyzRoute (sample_request None '''') sample_synced) =
     [JObject [(''status'', JString ''ready''), (''last_indexed_block'', JNumber 20)]]"
proof -
  obtain r w' where r: "SyncOnce sample_context (sample_syncer 20) NewMemory 0 = (Inr r, sample_synced, w')"
    "sr_Head r = \<lparr>tip_Number = 20, tip_Hash = 120\<rparr>" using sample_sync by blast
  show ?thesis
    using readiness_follows_sync [OF NewMemory_inv sample_store r(1), of "sample_request None ''''" sample_text] r(2)
    by (simp add: sample_request_def)
qed

end
