(* ===== verification/Routing.thy ===== *)
theory Routing
  imports Server_Props
begin

text \<open>
  \<open>NewServer\<close> of \<open>internal/server/router.go\<close>: the routes handed to \<open>chi\<close> and the handler a request reaches.
  The router is a parameter: given the patterns registered for \<open>GET\<close>, the method and the path, it names a pattern
  with the values of its parameters, or answers itself. What its middleware adds to a request
  (request ID, deadline) is in the request.
\<close>

datatype chi_match = Matched string "string \<Rightarrow> string" | Unmatched ResponseWriter

type_synonym chi = "string list \<Rightarrow> string \<Rightarrow> string \<Rightarrow> chi_match"

definition NewServer :: "chi \<Rightarrow> ('x, 's) Server \<Rightarrow> string \<Rightarrow> string \<Rightarrow> 'x Request \<Rightarrow> 's \<Rightarrow> ResponseWriter" where
  "NewServer router dependencies verb path request s =
     (case router (map fst routes) verb path of
        Unmatched response \<Rightarrow> response
      | Matched pattern params \<Rightarrow>
          (case map_of routes pattern of
             None \<Rightarrow> fresh_writer
           | Some route \<Rightarrow> serve dependencies route (request\<lparr>rq_URLParam := params\<rparr>) s))"

section \<open>Paths\<close>

text \<open>
  The documented matching of \<open>chi\<close>: a path that agrees with a pattern segment by segment, where a segment
  in braces takes any text but the empty one, and with no other pattern, is routed to it.
\<close>

fun segments :: "string \<Rightarrow> string list" where
  "segments [] = [[]]"
| "segments (c # cs) =
     (case segments cs of
        [] \<Rightarrow> [[c]]
      | seg # rest \<Rightarrow> if c = CHR ''/'' then [] # seg # rest else (c # seg) # rest)"

definition is_parameter :: "string \<Rightarrow> bool" where
  "is_parameter seg \<longleftrightarrow> seg \<noteq> [] \<and> hd seg = CHR ''{'' \<and> last seg = CHR ''}''"

definition matches :: "string \<Rightarrow> string \<Rightarrow> bool" where
  "matches pattern path \<longleftrightarrow>
     list_all2 (\<lambda>p seg. if is_parameter p then seg \<noteq> [] else p = seg) (segments pattern) (segments path)"

definition url_params :: "string \<Rightarrow> string \<Rightarrow> string \<Rightarrow> string" where
  "url_params pattern path k =
     (case map_of (filter (\<lambda>(p, seg). is_parameter p) (zip (segments pattern) (segments path))) (CHR ''{'' # k @ ''}'') of
        None \<Rightarrow> [] | Some seg \<Rightarrow> seg)"

definition chi_routes :: "chi \<Rightarrow> bool" where
  "chi_routes router \<longleftrightarrow>
     (\<forall>patterns pattern path. pattern \<in> set patterns \<and> matches pattern path \<and>
        (\<forall>other \<in> set patterns. matches other path \<longrightarrow> other = pattern) \<longrightarrow>
        router patterns ''GET'' path = Matched pattern (url_params pattern path))"

lemma segments_plain: "CHR ''/'' \<notin> set cs \<Longrightarrow> segments cs = [cs]"
  by (induction cs) auto

lemma segments_append: "CHR ''/'' \<notin> set cs \<Longrightarrow> segments (cs @ CHR ''/'' # ds) = cs # segments ds"
proof (induction cs)
  case Nil
  have "segments ds \<noteq> []" by (induction ds) (auto split: list.splits)
  then show ?case by (auto split: list.splits)
qed auto

lemma segments_routes:
  assumes "CHR ''/'' \<notin> set v"
  shows "segments (''/v1/blocks/'' @ v) = ['''', ''v1'', ''blocks'', v]"
    and "segments (''/v1/transactions/'' @ v) = ['''', ''v1'', ''transactions'', v]"
    and "segments (''/v1/addresses/'' @ v @ ''/events'') = ['''', ''v1'', ''addresses'', v, ''events'']"
  using segments_plain [OF assms] segments_append [OF assms, of "''events''"] by simp_all

lemma pattern_segments:
  "segments ''/v1/blocks/{number}'' = ['''', ''v1'', ''blocks'', ''{number}'']"
  "segments ''/v1/transactions/{hash}'' = ['''', ''v1'', ''transactions'', ''{hash}'']"
  "segments ''/v1/addresses/{address}/events'' = ['''', ''v1'', ''addresses'', ''{address}'', ''events'']"
  "segments ''/readyz'' = ['''', ''readyz'']" "segments ''/healthz'' = ['''', ''healthz'']"
  by simp_all

text \<open>Every route is reached by its paths, with the segment as its parameter.\<close>

lemma NewServer_routes:
  assumes "chi_routes router" and "CHR ''/'' \<notin> set v" and "v \<noteq> []"
  shows "NewServer router sv ''GET'' (''/v1/blocks/'' @ v) rq s =
      serve sv BlockRoute (rq\<lparr>rq_URLParam := (\<lambda>k. if k = ''number'' then v else [])\<rparr>) s"
    and "NewServer router sv ''GET'' (''/v1/transactions/'' @ v) rq s =
      serve sv TransactionRoute (rq\<lparr>rq_URLParam := (\<lambda>k. if k = ''hash'' then v else [])\<rparr>) s"
    and "NewServer router sv ''GET'' (''/v1/addresses/'' @ v @ ''/events'') rq s =
      serve sv EventsRoute (rq\<lparr>rq_URLParam := (\<lambda>k. if k = ''address'' then v else [])\<rparr>) s"
    and "NewServer router sv ''GET'' ''/readyz'' rq s = serve sv ReadyzRoute (rq\<lparr>rq_URLParam := (\<lambda>k. [])\<rparr>) s"
    and "NewServer router sv ''GET'' ''/healthz'' rq s = serve sv HealthzRoute (rq\<lparr>rq_URLParam := (\<lambda>k. [])\<rparr>) s"
proof -
  have route: "NewServer router sv ''GET'' path rq s = serve sv r (rq\<lparr>rq_URLParam := params\<rparr>) s"
    if "map_of routes pattern = Some r" "matches pattern path" "\<forall>other \<in> set (map fst routes). matches other path \<longrightarrow> other = pattern"
      "url_params pattern path = params" for pattern path r params
  proof -
    have "pattern \<in> set (map fst routes)" using that(1) by (force dest: map_of_SomeD)
    then have "router (map fst routes) ''GET'' path = Matched pattern (url_params pattern path)"
      using assms(1) that(2,3) unfolding chi_routes_def by blast
    then show ?thesis using that(1,4) by (simp add: NewServer_def)
  qed
  note defs = routes_def matches_def is_parameter_def url_params_def fun_eq_iff snoc_eq_iff_butlast
    segments_routes [OF assms(2)] pattern_segments assms(3)
  show "NewServer router sv ''GET'' (''/v1/blocks/'' @ v) rq s =
      serve sv BlockRoute (rq\<lparr>rq_URLParam := (\<lambda>k. if k = ''number'' then v else [])\<rparr>) s"
    by (rule route [where pattern = "''/v1/blocks/{number}''"]) (auto simp: defs simp del: segments.simps append.simps)
  show "NewServer router sv ''GET'' (''/v1/transactions/'' @ v) rq s =
      serve sv TransactionRoute (rq\<lparr>rq_URLParam := (\<lambda>k. if k = ''hash'' then v else [])\<rparr>) s"
    by (rule route [where pattern = "''/v1/transactions/{hash}''"]) (auto simp: defs simp del: segments.simps append.simps)
  show "NewServer router sv ''GET'' (''/v1/addresses/'' @ v @ ''/events'') rq s =
      serve sv EventsRoute (rq\<lparr>rq_URLParam := (\<lambda>k. if k = ''address'' then v else [])\<rparr>) s"
    by (rule route [where pattern = "''/v1/addresses/{address}/events''"]) (auto simp: defs simp del: segments.simps append.simps)
  show "NewServer router sv ''GET'' ''/readyz'' rq s = serve sv ReadyzRoute (rq\<lparr>rq_URLParam := (\<lambda>k. [])\<rparr>) s"
    by (rule route [where pattern = "''/readyz''"]) (auto simp: defs simp del: segments.simps append.simps)
  show "NewServer router sv ''GET'' ''/healthz'' rq s = serve sv HealthzRoute (rq\<lparr>rq_URLParam := (\<lambda>k. [])\<rparr>) s"
    by (rule route [where pattern = "''/healthz''"]) (auto simp: defs simp del: segments.simps append.simps)
qed

text \<open>A router that takes the first pattern that matches.\<close>

definition sample_router :: chi where
  "sample_router patterns verb path =
     (case find (\<lambda>p. matches p path) patterns of
        Some p \<Rightarrow> if verb = ''GET'' then Matched p (url_params p path) else Unmatched fresh_writer
      | None \<Rightarrow> Unmatched fresh_writer)"

lemma sample_router_routes: "chi_routes sample_router"
proof -
  have first: "find (\<lambda>p. matches p path) patterns = Some pattern"
    if "pattern \<in> set patterns" "matches pattern path" "\<forall>other \<in> set patterns. matches other path \<longrightarrow> other = pattern"
    for patterns pattern path
  proof (cases "find (\<lambda>p. matches p path) patterns")
    case None
    then show ?thesis using that(1,2) unfolding find_None_iff by blast
  next
    case (Some q)
    then have "q \<in> set patterns" "matches q path" unfolding find_Some_iff by auto
    then show ?thesis using Some that(3) by blast
  qed
  have "sample_router patterns ''GET'' path = Matched pattern (url_params pattern path)"
    if "find (\<lambda>p. matches p path) patterns = Some pattern" for patterns pattern path
    unfolding sample_router_def that by simp
  then show ?thesis unfolding chi_routes_def using first by blast
qed

end
