(* ===== verification/Runtime.thy ===== *)
theory Runtime
  imports Prelude
begin

text \<open>
  The running services of \<open>cmd/indexer/runtime.go\<close>: \<open>runServices\<close> starts the indexer, the HTTP server and
  the goroutine that shuts the server down, and waits for all three. A schedule is a list of events.
  When a call of the indexer or of the server returns, and with what, is the
  schedule's choice, and so is the moment the caller's context is done. The errgroup of
  \<open>golang.org/x/sync\<close> is a parameter, with what its documentation promises in \<open>errgroup_laws\<close>.
\<close>

section \<open>The errgroup\<close>

text \<open>
  \<open>eg_returned\<close> is what the group does when a function passed to \<open>Go\<close> returns, \<open>eg_parent_done\<close> what
  happens when the parent of its context is done; \<open>eg_ctx\<close> is \<open>groupCtx.Err()\<close>.
\<close>

record 'g Errgroup =
  eg_WithContext :: "ctx \<Rightarrow> 'g"
  eg_returned :: "error \<Rightarrow> 'g \<Rightarrow> 'g"
  eg_parent_done :: "ctx_error \<Rightarrow> 'g \<Rightarrow> 'g"
  eg_ctx :: "'g \<Rightarrow> ctx"
  eg_Wait :: "'g \<Rightarrow> error"

text \<open>The first error is kept and cancels the context; a context that is done keeps its error.\<close>

definition errgroup_laws :: "'g Errgroup \<Rightarrow> bool" where
  "errgroup_laws G \<longleftrightarrow>
     (\<forall>c. eg_ctx G (eg_WithContext G c) = c \<and> eg_Wait G (eg_WithContext G c) = None) \<and>
     (\<forall>e g. eg_ctx G (eg_returned G e g) =
        (if eg_ctx G g = None \<and> eg_Wait G g = None \<and> e \<noteq> None then Some Canceled else eg_ctx G g)) \<and>
     (\<forall>e g. eg_Wait G (eg_returned G e g) = (if eg_Wait G g = None then e else eg_Wait G g)) \<and>
     (\<forall>c g. eg_ctx G (eg_parent_done G c g) = (if eg_ctx G g = None then Some c else eg_ctx G g)) \<and>
     (\<forall>c g. eg_Wait G (eg_parent_done G c g) = eg_Wait G g)"

section \<open>The three functions\<close>

datatype service = IndexerService | ServerService | ShutdownService

definition ctx_sentinel :: "ctx_error \<Rightarrow> sentinel" where
  "ctx_sentinel c = (case c of Canceled \<Rightarrow> ContextCanceled | DeadlineExceeded \<Rightarrow> ContextDeadlineExceeded)"

text \<open>What each function returns for the result of its call, given \<open>groupCtx.Err()\<close>.\<close>

definition indexer_decides :: "ctx \<Rightarrow> error \<Rightarrow> error" where
  "indexer_decides groupErr err =
     (if (case groupErr of None \<Rightarrow> False
          | Some c \<Rightarrow> (case err of None \<Rightarrow> True | Some e \<Rightarrow> errors_Is e (ctx_sentinel c)))
      then None
      else case err of
        None \<Rightarrow> Some (Foreign ''indexer stopped unexpectedly'')
      | Some e \<Rightarrow> Some (Errorf ''run indexer: %w'' [e]))"

definition server_decides :: "ctx \<Rightarrow> error \<Rightarrow> error" where
  "server_decides groupErr err =
     (let closed = (case err of None \<Rightarrow> False | Some e \<Rightarrow> errors_Is e HTTPErrServerClosed) in
      if groupErr \<noteq> None \<and> closed then None
      else case err of
        None \<Rightarrow> Some (Foreign ''HTTP server stopped unexpectedly'')
      | Some e \<Rightarrow> if closed then Some (Foreign ''HTTP server stopped unexpectedly'')
          else Some (Errorf ''serve HTTP: %w'' [e]))"

definition shutdown_decides :: "error \<Rightarrow> error" where
  "shutdown_decides err =
     (case err of
        None \<Rightarrow> None
      | Some e \<Rightarrow> if errors_Is e HTTPErrServerClosed then None else Some (Errorf ''shut down HTTP server: %w'' [e]))"

fun decides :: "service \<Rightarrow> ctx \<Rightarrow> error \<Rightarrow> error" where
  "decides IndexerService groupErr err = indexer_decides groupErr err"
| "decides ServerService groupErr err = server_decides groupErr err"
| "decides ShutdownService groupErr err = shutdown_decides err"

section \<open>States and events\<close>

text \<open>
  A function waits for \<open>groupCtx.Done()\<close> (only the third does), is in its call, has the call's result, has
  returned its own, and has been collected by the group.
\<close>

datatype stage = Waiting | Calling | Called error | Decided error | Collected error

record 'g Services =
  sv_group :: 'g
  sv_stage :: "service \<Rightarrow> stage"
  sv_shutdowns :: "int list"

datatype runtime_event =
    Signal ctx_error
  | Release
  | Return service error
  | Decide service
  | Gather service

definition start_services :: "'g Errgroup \<Rightarrow> ctx \<Rightarrow> 'g Services" where
  "start_services G ctx =
     \<lparr>sv_group = eg_WithContext G ctx,
      sv_stage = (\<lambda>v. if v = ShutdownService then Waiting else Calling), sv_shutdowns = []\<rparr>"

text \<open>
  One event, \<^const>\<open>None\<close> when it cannot happen. \<open>Shutdown\<close> gets a context with the configured timeout that
  the cancellation of the group does not reach; the timeouts of its calls are in \<open>sv_shutdowns\<close>.
\<close>

fun runtime_step :: "'g Errgroup \<Rightarrow> int \<Rightarrow> runtime_event \<Rightarrow> 'g Services \<Rightarrow> 'g Services option" where
  "runtime_step G timeout (Signal c) s = Some (s\<lparr>sv_group := eg_parent_done G c (sv_group s)\<rparr>)"
| "runtime_step G timeout Release s =
     (if sv_stage s ShutdownService = Waiting \<and> eg_ctx G (sv_group s) \<noteq> None
      then Some (s\<lparr>sv_stage := (sv_stage s)(ShutdownService := Calling), sv_shutdowns := sv_shutdowns s @ [timeout]\<rparr>)
      else None)"
| "runtime_step G timeout (Return v err) s =
     (if sv_stage s v = Calling then Some (s\<lparr>sv_stage := (sv_stage s)(v := Called err)\<rparr>) else None)"
| "runtime_step G timeout (Decide v) s =
     (case sv_stage s v of
        Called err \<Rightarrow> Some (s\<lparr>sv_stage := (sv_stage s)(v := Decided (decides v (eg_ctx G (sv_group s)) err))\<rparr>)
      | _ \<Rightarrow> None)"
| "runtime_step G timeout (Gather v) s =
     (case sv_stage s v of
        Decided r \<Rightarrow> Some (s\<lparr>sv_group := eg_returned G r (sv_group s), sv_stage := (sv_stage s)(v := Collected r)\<rparr>)
      | _ \<Rightarrow> None)"

fun runtime_run :: "'g Errgroup \<Rightarrow> int \<Rightarrow> runtime_event list \<Rightarrow> 'g Services \<Rightarrow> 'g Services option" where
  "runtime_run G timeout [] s = Some s"
| "runtime_run G timeout (ev # evs) s = Option.bind (runtime_step G timeout ev s) (runtime_run G timeout evs)"

fun is_collected :: "stage \<Rightarrow> bool" where
  "is_collected (Collected r) = True"
| "is_collected _ = False"

definition services_done :: "'g Services \<Rightarrow> bool" where
  "services_done s \<longleftrightarrow> list_all (\<lambda>v. is_collected (sv_stage s v)) [IndexerService, ServerService, ShutdownService]"

text \<open>\<open>group.Wait()\<close> returns once the three functions have: \<^const>\<open>None\<close> when the schedule is not a whole run.\<close>

definition runServices :: "'g Errgroup \<Rightarrow> ctx \<Rightarrow> int \<Rightarrow> runtime_event list \<Rightarrow> error option" where
  "runServices G ctx shutdownTimeout evs =
     (case runtime_run G shutdownTimeout evs (start_services G ctx) of
        None \<Rightarrow> None
      | Some s \<Rightarrow> if services_done s then Some (eg_Wait G (sv_group s)) else None)"

section \<open>Schedules\<close>

lemma runtime_run_snoc:
  "runtime_run G t (evs @ [ev]) s = Option.bind (runtime_run G t evs s) (runtime_step G t ev)"
  by (induction evs arbitrary: s) (auto split: Option.bind_splits)

text \<open>The results of a service's call, and the error of a stop requested before the first decision.\<close>

fun returns :: "service \<Rightarrow> runtime_event list \<Rightarrow> error list" where
  "returns v [] = []"
| "returns v (ev # evs) = (case ev of Return u err \<Rightarrow> if u = v then [err] else [] | _ \<Rightarrow> []) @ returns v evs"

fun is_Decide :: "runtime_event \<Rightarrow> bool" where
  "is_Decide (Decide v) = True"
| "is_Decide _ = False"

fun stop_request :: "ctx \<Rightarrow> runtime_event list \<Rightarrow> ctx" where
  "stop_request (Some c) evs = Some c"
| "stop_request None [] = None"
| "stop_request None (ev # evs) =
     (case ev of Signal c \<Rightarrow> Some c | Decide v \<Rightarrow> None | _ \<Rightarrow> stop_request None evs)"

lemma stop_request_snoc:
  "stop_request ctx (evs @ [ev]) =
     (case stop_request ctx evs of
        Some c \<Rightarrow> Some c
      | None \<Rightarrow> (case ev of Signal c \<Rightarrow> if list_ex is_Decide evs then None else Some c | _ \<Rightarrow> None))"
proof (cases ctx)
  case None
  then show ?thesis by (induction evs) (auto split: runtime_event.splits option.splits)
qed simp

lemma returns_snoc [simp]:
  "returns v (evs @ [ev]) = returns v evs @ (case ev of Return u err \<Rightarrow> if u = v then [err] else [] | _ \<Rightarrow> [])"
  by (induction evs) auto

text \<open>The result a function has returned is a decision on its call's result, made under the requested stop if any.\<close>

definition decision :: "ctx \<Rightarrow> runtime_event list \<Rightarrow> service \<Rightarrow> error \<Rightarrow> bool" where
  "decision ctx evs v r \<longleftrightarrow>
     (\<exists>err. returns v evs = [err] \<and> (\<exists>c. r = decides v c err) \<and>
        (\<forall>c. stop_request ctx evs = Some c \<longrightarrow> r = decides v (Some c) err))"

fun stage_ok :: "ctx \<Rightarrow> runtime_event list \<Rightarrow> service \<Rightarrow> stage \<Rightarrow> bool" where
  "stage_ok ctx evs v Waiting \<longleftrightarrow> v = ShutdownService \<and> returns v evs = []"
| "stage_ok ctx evs v Calling \<longleftrightarrow> returns v evs = []"
| "stage_ok ctx evs v (Called err) \<longleftrightarrow> returns v evs = [err]"
| "stage_ok ctx evs v (Decided r) \<longleftrightarrow> decision ctx evs v r \<and> list_ex is_Decide evs"
| "stage_ok ctx evs v (Collected r) \<longleftrightarrow> decision ctx evs v r \<and> list_ex is_Decide evs"

lemma stop_request_decided: "list_ex is_Decide evs \<Longrightarrow> stop_request ctx (evs @ [ev]) = stop_request ctx evs"
  by (simp add: stop_request_snoc split: option.splits runtime_event.splits)

lemma stop_request_other [simp]:
  "stop_request ctx (evs @ [Release]) = stop_request ctx evs"
  "stop_request ctx (evs @ [Return v err]) = stop_request ctx evs"
  "stop_request ctx (evs @ [Decide v]) = stop_request ctx evs"
  "stop_request ctx (evs @ [Gather v]) = stop_request ctx evs"
  by (simp_all add: stop_request_snoc split: option.splits)

lemma stage_ok_mono:
  assumes "stage_ok ctx evs v st" and "\<nexists>err. ev = Return v err"
  shows "stage_ok ctx (evs @ [ev]) v st"
proof -
  have "returns v (evs @ [ev]) = returns v evs" using assms(2) by (auto split: runtime_event.splits)
  then show ?thesis
    using assms(1) by (cases st) (auto simp: decision_def stop_request_decided simp del: returns_snoc)
qed

lemma decides_no_stop: "v \<noteq> ShutdownService \<Longrightarrow> decides v None err \<noteq> None"
  by (cases v) (auto simp: indexer_decides_def server_decides_def Let_def split: option.splits)

lemma runtime_step_cases [consumes 1, case_names Signal Release Return Decide Gather]:
  assumes "runtime_step G t ev s = Some s'"
  obtains c where "ev = Signal c" "s' = s\<lparr>sv_group := eg_parent_done G c (sv_group s)\<rparr>"
  | "ev = Release" "sv_stage s ShutdownService = Waiting" "eg_ctx G (sv_group s) \<noteq> None"
    "s' = s\<lparr>sv_stage := (sv_stage s)(ShutdownService := Calling), sv_shutdowns := sv_shutdowns s @ [t]\<rparr>"
  | v err where "ev = Return v err" "sv_stage s v = Calling" "s' = s\<lparr>sv_stage := (sv_stage s)(v := Called err)\<rparr>"
  | v err where "ev = Decide v" "sv_stage s v = Called err"
    "s' = s\<lparr>sv_stage := (sv_stage s)(v := Decided (decides v (eg_ctx G (sv_group s)) err))\<rparr>"
  | v r where "ev = Gather v" "sv_stage s v = Decided r"
    "s' = s\<lparr>sv_group := eg_returned G r (sv_group s), sv_stage := (sv_stage s)(v := Collected r)\<rparr>"
  using assms by (cases ev) (auto split: if_splits stage.splits)

text \<open>What a stage says about the group's context: the shutdown waited for it, and \<open>nil\<close> is only returned when it is done.\<close>

fun needs_stop :: "service \<Rightarrow> stage \<Rightarrow> bool" where
  "needs_stop v Waiting = False"
| "needs_stop v (Decided r) = (v = ShutdownService \<or> r = None)"
| "needs_stop v (Collected r) = True"
| "needs_stop v _ = (v = ShutdownService)"

definition group_inv :: "'g Errgroup \<Rightarrow> int \<Rightarrow> 'g Services \<Rightarrow> bool" where
  "group_inv G t s \<longleftrightarrow>
     sv_shutdowns s = (if sv_stage s ShutdownService = Waiting then [] else [t]) \<and>
     (\<forall>v. needs_stop v (sv_stage s v) \<longrightarrow> eg_ctx G (sv_group s) \<noteq> None) \<and>
     (case eg_Wait G (sv_group s) of
        Some e \<Rightarrow> \<exists>v. sv_stage s v = Collected (Some e)
      | None \<Rightarrow> \<forall>v e. sv_stage s v \<noteq> Collected (Some e))"

fun has_failed :: "stage \<Rightarrow> bool" where
  "has_failed (Decided r) = (r \<noteq> None)"
| "has_failed (Collected r) = (r \<noteq> None)"
| "has_failed _ = False"

definition stop_inv :: "'g Errgroup \<Rightarrow> ctx \<Rightarrow> runtime_event list \<Rightarrow> 'g Services \<Rightarrow> bool" where
  "stop_inv G ctx evs s \<longleftrightarrow>
     (\<forall>v. stage_ok ctx evs v (sv_stage s v)) \<and>
     (stop_request ctx evs \<noteq> None \<or> \<not> list_ex is_Decide evs \<longrightarrow> eg_ctx G (sv_group s) = stop_request ctx evs) \<and>
     (stop_request ctx evs = None \<and> list_ex is_Decide evs \<longrightarrow> (\<exists>v. has_failed (sv_stage s v)))"

lemma start_inv:
  assumes "errgroup_laws G"
  shows "group_inv G t (start_services G ctx)" "stop_inv G ctx [] (start_services G ctx)"
  using assms by (auto simp: group_inv_def stop_inv_def start_services_def errgroup_laws_def split: if_splits, cases ctx) auto

lemma all_stages: "(\<forall>u. P u ((f(v := st)) u)) \<longleftrightarrow> P v st \<and> (\<forall>u. u \<noteq> v \<longrightarrow> P u (f u))"
  by auto

lemma kept_stage: "\<exists>u. Q (f u) \<Longrightarrow> \<not> Q (f v) \<Longrightarrow> \<exists>u. Q ((f(v := st)) u)"
  by (metis fun_upd_other)

lemma group_inv_needs: "group_inv G t s \<Longrightarrow> needs_stop v (sv_stage s v) \<Longrightarrow> eg_ctx G (sv_group s) \<noteq> None"
  by (auto simp: group_inv_def)

lemma group_inv_change:
  assumes inv: "group_inv G t s" and s': "sv_stage s' = (sv_stage s)(v := st)"
    and stage: "\<not> is_collected (sv_stage s v)"
    and shutdowns: "sv_shutdowns s' = (if sv_stage s' ShutdownService = Waiting then [] else [t])"
    and ctx: "eg_ctx G (sv_group s) \<noteq> None \<or> needs_stop v st \<Longrightarrow> eg_ctx G (sv_group s') \<noteq> None"
    and wait: "eg_Wait G (sv_group s') = (case eg_Wait G (sv_group s) of Some e \<Rightarrow> Some e
      | None \<Rightarrow> (case st of Collected r \<Rightarrow> r | _ \<Rightarrow> None))"
  shows "group_inv G t s'"
proof -
  have "\<forall>u. needs_stop u (sv_stage s' u) \<longrightarrow> eg_ctx G (sv_group s') \<noteq> None"
    unfolding s' all_stages using inv ctx by (auto simp: group_inv_def)
  moreover have "case eg_Wait G (sv_group s') of Some e \<Rightarrow> \<exists>v. sv_stage s' v = Collected (Some e)
      | None \<Rightarrow> \<forall>v e. sv_stage s' v \<noteq> Collected (Some e)"
  proof (cases "eg_Wait G (sv_group s)")
    case None
    then show ?thesis using inv wait by (auto simp: group_inv_def s' split: stage.splits option.splits)
  next
    case (Some e)
    then have "\<exists>u. sv_stage s u = Collected (Some e)" using inv by (simp add: group_inv_def)
    moreover have "sv_stage s v \<noteq> Collected (Some e)" using stage by auto
    ultimately have "\<exists>u. sv_stage s' u = Collected (Some e)"
      using kept_stage [of "\<lambda>q. q = Collected (Some e)" "sv_stage s" v st] unfolding s' by blast
    then show ?thesis using Some wait by simp
  qed
  ultimately show ?thesis using shutdowns by (simp add: group_inv_def)
qed

lemma group_inv_step:
  assumes laws: "errgroup_laws G" and step: "runtime_step G t ev s = Some s'" and inv: "group_inv G t s"
  shows "group_inv G t s'"
proof -
  note needs = group_inv_needs [OF inv]
  show ?thesis
    using step
  proof (cases rule: runtime_step_cases)
    case (Signal c)
    then show ?thesis using laws inv by (auto simp: group_inv_def errgroup_laws_def split: option.splits)
  next
    case Release
    then show ?thesis using inv
      by (intro group_inv_change [OF inv, of s' ShutdownService Calling]) (auto simp: group_inv_def split: option.splits)
  next
    case (Return v err)
    then show ?thesis using inv needs [of v]
      by (intro group_inv_change [OF inv, of s' v "Called err"])
        (auto simp: group_inv_def split: option.splits)
  next
    case (Decide v err)
    moreover have "eg_ctx G (sv_group s) \<noteq> None" if "decides v (eg_ctx G (sv_group s)) err = None"
      using that decides_no_stop [of v err] needs [of v] Decide by (cases "eg_ctx G (sv_group s)"; cases "v = ShutdownService") auto
    ultimately show ?thesis using inv needs [of v]
      by (intro group_inv_change [OF inv, of s' v "Decided (decides v (eg_ctx G (sv_group s)) err)"])
        (auto simp: group_inv_def split: option.splits)
  next
    case (Gather v r)
    moreover have "eg_ctx G (sv_group s) \<noteq> None" if w: "eg_Wait G (sv_group s) = Some e" for e
    proof -
      obtain u where "sv_stage s u = Collected (Some e)" using w inv by (auto simp: group_inv_def)
      then show ?thesis using needs [of u] by simp
    qed
    ultimately show ?thesis using inv needs [of v] laws
      by (intro group_inv_change [OF inv, of s' v "Collected r"])
        (auto simp: group_inv_def errgroup_laws_def split: option.splits)
  qed
qed

lemma stop_inv_change:
  assumes inv: "stop_inv G ctx evs s" and s': "sv_stage s' = (sv_stage s)(v := st)"
    and ok: "stage_ok ctx (evs @ [ev]) v st" and ev: "\<And>c. ev \<noteq> Signal c" "\<And>u err. ev = Return u err \<Longrightarrow> u = v"
    and ctx: "stop_request ctx evs \<noteq> None \<or> \<not> list_ex is_Decide (evs @ [ev]) \<Longrightarrow> eg_ctx G (sv_group s') = eg_ctx G (sv_group s)"
    and fail: "stop_request ctx evs = None \<Longrightarrow> list_ex is_Decide (evs @ [ev]) \<Longrightarrow>
      has_failed st \<or> list_ex is_Decide evs \<and> \<not> has_failed (sv_stage s v)"
  shows "stop_inv G ctx (evs @ [ev]) s'"
proof -
  have "\<forall>u. stage_ok ctx (evs @ [ev]) u (sv_stage s' u)"
    unfolding s' all_stages using ok inv ev(2) stage_ok_mono [of ctx evs _ _ ev] unfolding stop_inv_def by blast
  moreover have stop: "stop_request ctx (evs @ [ev]) = stop_request ctx evs" using ev(1) by (cases ev) auto
  moreover have "\<exists>u. has_failed (sv_stage s' u)" if "stop_request ctx evs = None" "list_ex is_Decide (evs @ [ev])"
  proof (cases "has_failed st")
    case False
    then have "list_ex is_Decide evs" "\<not> has_failed (sv_stage s v)" using fail [OF that] by auto
    then show ?thesis unfolding s' using inv that(1) by (intro kept_stage) (auto simp: stop_inv_def)
  qed (auto simp: s' intro: exI [of _ v])
  ultimately show ?thesis using inv ctx by (auto simp: stop_inv_def)
qed

lemma stop_inv_step:
  assumes laws: "errgroup_laws G" and step: "runtime_step G t ev s = Some s'" and group: "group_inv G t s"
    and inv: "stop_inv G ctx evs s"
  shows "stop_inv G ctx (evs @ [ev]) s'"
proof -
  have ok: "stage_ok ctx evs v (sv_stage s v)" for v using inv by (simp add: stop_inv_def)
  show ?thesis
    using step
  proof (cases rule: runtime_step_cases)
    case (Signal c)
    then show ?thesis using laws inv stage_ok_mono [OF ok, of ev]
      by (auto simp: stop_inv_def errgroup_laws_def stop_request_snoc split: option.splits if_splits)
  next
    case Release
    then show ?thesis using ok [of ShutdownService] by (intro stop_inv_change [OF inv, of s' ShutdownService Calling]) auto
  next
    case (Return v err)
    then show ?thesis using ok [of v] by (intro stop_inv_change [OF inv, of s' v "Called err"]) auto
  next
    case (Decide v err)
    have "decides v (eg_ctx G (sv_group s)) err \<noteq> None" if "stop_request ctx evs = None" "\<not> list_ex is_Decide evs"
    proof -
      have "eg_ctx G (sv_group s) = None" using inv that by (simp add: stop_inv_def)
      moreover from this have "v \<noteq> ShutdownService" using group Decide by (auto simp: group_inv_def dest: spec [of _ v])
      ultimately show ?thesis by (simp add: decides_no_stop)
    qed
    moreover have "eg_ctx G (sv_group s) = Some c" if "stop_request ctx evs = Some c" for c
      using inv that by (auto simp: stop_inv_def)
    ultimately show ?thesis using ok [of v] Decide
      by (intro stop_inv_change [OF inv, of s' v "Decided (decides v (eg_ctx G (sv_group s)) err)"]) (auto simp: decision_def)
  next
    case (Gather v r)
    moreover have "eg_ctx G (sv_group s) \<noteq> None" if "stop_request ctx evs \<noteq> None"
      using inv that by (auto simp: stop_inv_def)
    ultimately show ?thesis using ok [of v] laws
      by (intro stop_inv_change [OF inv, of s' v "Collected r"]) (auto simp: decision_def errgroup_laws_def)
  qed
qed

lemma runtime_run_inv:
  assumes "errgroup_laws G" and "runtime_run G t evs (start_services G ctx) = Some s"
  shows "group_inv G t s \<and> stop_inv G ctx evs s"
  using assms(2)
proof (induction evs arbitrary: s rule: rev_induct)
  case Nil
  then show ?case using start_inv [OF assms(1)] by (auto dest: sym)
next
  case (snoc ev evs)
  then obtain s0 where "runtime_run G t evs (start_services G ctx) = Some s0" "runtime_step G t ev s0 = Some s"
    by (auto simp: runtime_run_snoc split: Option.bind_splits)
  then show ?case using snoc.IH group_inv_step [OF assms(1)] stop_inv_step [OF assms(1)] by blast
qed

text \<open>Every event but a signal moves one function one stage on.\<close>

fun progress :: "stage \<Rightarrow> nat" where
  "progress Waiting = 0"
| "progress Calling = 1"
| "progress (Called err) = 2"
| "progress (Decided r) = 3"
| "progress (Collected r) = 4"

fun is_Signal :: "runtime_event \<Rightarrow> bool" where
  "is_Signal (Signal c) = True"
| "is_Signal _ = False"

definition total_progress :: "'g Services \<Rightarrow> nat" where
  "total_progress s = sum_list (map (\<lambda>v. progress (sv_stage s v)) [IndexerService, ServerService, ShutdownService])"

lemma step_progress:
  assumes "runtime_step G t ev s = Some s'"
  shows "total_progress s' = total_progress s + (if is_Signal ev then 0 else 1)"
  using assms
proof (cases rule: runtime_step_cases)
  case (Return v err)
  then show ?thesis by (cases v) (auto simp: total_progress_def)
next
  case (Decide v err)
  then show ?thesis by (cases v) (auto simp: total_progress_def)
next
  case (Gather v r)
  then show ?thesis by (cases v) (auto simp: total_progress_def)
qed (auto simp: total_progress_def)

lemma runtime_run_progress:
  "runtime_run G t evs s = Some s' \<Longrightarrow> total_progress s' = total_progress s + length (filter (\<lambda>ev. \<not> is_Signal ev) evs)"
proof (induction evs arbitrary: s)
  case (Cons ev evs)
  then obtain s0 where "runtime_step G t ev s = Some s0" "runtime_run G t evs s0 = Some s'" by (auto split: Option.bind_splits)
  then show ?case using Cons.IH step_progress by fastforce
qed simp

lemma progress_bound: "progress st \<le> 4"
  by (cases st) auto

section \<open>Properties\<close>

text \<open>What a service returns when it stops because it was asked to.\<close>

fun stops_cleanly :: "ctx_error \<Rightarrow> service \<Rightarrow> error \<Rightarrow> bool" where
  "stops_cleanly c IndexerService err \<longleftrightarrow> (case err of None \<Rightarrow> True | Some e \<Rightarrow> errors_Is e (ctx_sentinel c))"
| "stops_cleanly c ServerService err \<longleftrightarrow> (case err of None \<Rightarrow> False | Some e \<Rightarrow> errors_Is e HTTPErrServerClosed)"
| "stops_cleanly c ShutdownService err \<longleftrightarrow> (case err of None \<Rightarrow> True | Some e \<Rightarrow> errors_Is e HTTPErrServerClosed)"

lemma decides_None: "decides v (Some c) err = None \<longleftrightarrow> stops_cleanly c v err"
  by (cases v) (auto simp: indexer_decides_def server_decides_def shutdown_decides_def Let_def split: option.splits if_splits)

text \<open>The error a call's result is reported as when it is not such an end.\<close>

definition failure :: "service \<Rightarrow> error \<Rightarrow> error" where
  "failure v err =
     (case v of
        IndexerService \<Rightarrow> Some (case err of None \<Rightarrow> Foreign ''indexer stopped unexpectedly'' | Some e \<Rightarrow> Errorf ''run indexer: %w'' [e])
      | ServerService \<Rightarrow> Some (case err of None \<Rightarrow> Foreign ''HTTP server stopped unexpectedly''
          | Some e \<Rightarrow> if errors_Is e HTTPErrServerClosed then Foreign ''HTTP server stopped unexpectedly''
              else Errorf ''serve HTTP: %w'' [e])
      | ShutdownService \<Rightarrow> map_option (\<lambda>e. Errorf ''shut down HTTP server: %w'' [e]) err)"

lemma decides_Some: "decides v c err = Some e \<Longrightarrow> failure v err = Some e"
  by (cases v) (auto simp: failure_def indexer_decides_def server_decides_def shutdown_decides_def Let_def split: option.splits if_splits)

lemma services_done_iff: "services_done s \<longleftrightarrow> (\<forall>v. \<exists>r. sv_stage s v = Collected r)"
proof -
  have "is_collected st \<longleftrightarrow> (\<exists>r. st = Collected r)" for st by (cases st) auto
  moreover have "(\<forall>v. P v) \<longleftrightarrow> P IndexerService \<and> P ServerService \<and> P ShutdownService" for P
    by (metis service.exhaust)
  ultimately show ?thesis by (simp add: services_done_def)
qed

text \<open>At the end of a whole run every function's result is a decision, and the group has the first failure.\<close>

lemma runServices_results:
  assumes "errgroup_laws G" and "runServices G ctx timeout evs = Some result"
  obtains r where "\<And>v. decision ctx evs v (r v)"
    "case result of Some e \<Rightarrow> \<exists>v. r v = Some e | None \<Rightarrow> \<forall>v. r v = None"
    "stop_request ctx evs = None \<Longrightarrow> result \<noteq> None"
    "map_option sv_shutdowns (runtime_run G timeout evs (start_services G ctx)) = Some [timeout]"
proof -
  obtain s where run: "runtime_run G timeout evs (start_services G ctx) = Some s" and "services_done s"
    and result: "result = eg_Wait G (sv_group s)"
    using assms(2) by (auto simp: runServices_def split: option.splits if_splits)
  then have inv: "group_inv G timeout s" "stop_inv G ctx evs s" and all: "\<exists>r. sv_stage s v = Collected r" for v
    using runtime_run_inv [OF assms(1)] by (auto simp: services_done_iff)
  obtain r where r: "sv_stage s v = Collected (r v)" for v using all by metis
  have wait: "case result of Some e \<Rightarrow> \<exists>v. r v = Some e | None \<Rightarrow> \<forall>v. r v = None"
    using inv(1) by (auto simp: group_inv_def r result split: option.splits)
  have dec: "decision ctx evs v (r v)" for v using inv(2) r [of v] by (auto simp: stop_inv_def dest: spec [of _ v])
  have "list_ex is_Decide evs" using inv(2) r by (auto simp: stop_inv_def dest: spec [of _ IndexerService])
  then have "result \<noteq> None" if "stop_request ctx evs = None"
    using that inv(2) r wait by (auto simp: stop_inv_def split: option.splits)
  moreover have "map_option sv_shutdowns (runtime_run G timeout evs (start_services G ctx)) = Some [timeout]"
    using inv(1) r run by (simp add: group_inv_def)
  ultimately show thesis using dec wait by (intro that)
qed

lemma runServices_nil:
  assumes "errgroup_laws G" and "runServices G ctx timeout evs = Some result"
  shows "result = None \<longleftrightarrow>
    (\<exists>c. stop_request ctx evs = Some c \<and> (\<forall>v. \<forall>err \<in> set (returns v evs). stops_cleanly c v err))"
  using assms
proof (rule runServices_results)
  fix r
  assume r: "\<And>v. decision ctx evs v (r v)" "case result of Some e \<Rightarrow> \<exists>v. r v = Some e | None \<Rightarrow> \<forall>v. r v = None"
    "stop_request ctx evs = None \<Longrightarrow> result \<noteq> None"
  show ?thesis
  proof (cases "stop_request ctx evs")
    case (Some c)
    have "(\<forall>err \<in> set (returns v evs). stops_cleanly c v err) \<longleftrightarrow> r v = None" for v
      using r(1) [of v] Some by (auto simp: decision_def decides_None [symmetric])
    then show ?thesis using Some r(2) by (auto split: option.splits)
  qed (use r(3) in simp)
qed

text \<open>
  C7: how the services end, under every interleaving. \<open>runServices\<close> returns only after the indexer and the
  server have returned and \<open>Shutdown\<close> was called once, with the configured timeout. It returns \<open>nil\<close>
  exactly when a stop was requested before any service's result was looked at and every call ended the way
  a stop ends it. Otherwise it returns the error of one of the calls, wrapped, or that a service stopped by itself.
\<close>

theorem services_outcome:
  assumes "errgroup_laws G" and "runServices G ctx timeout evs = Some result"
  shows "(\<forall>v. length (returns v evs) = 1) \<and>
    map_option sv_shutdowns (runtime_run G timeout evs (start_services G ctx)) = Some [timeout] \<and>
    (result = None \<longleftrightarrow> (\<exists>c. stop_request ctx evs = Some c \<and> (\<forall>v. \<forall>err \<in> set (returns v evs). stops_cleanly c v err))) \<and>
    (\<forall>e. result = Some e \<longrightarrow> (\<exists>v err. returns v evs = [err] \<and> failure v err = Some e))"
  using assms
proof (rule runServices_results)
  fix r
  assume r: "\<And>v. decision ctx evs v (r v)" "case result of Some e \<Rightarrow> \<exists>v. r v = Some e | None \<Rightarrow> \<forall>v. r v = None"
    "map_option sv_shutdowns (runtime_run G timeout evs (start_services G ctx)) = Some [timeout]"
  have "length (returns v evs) = 1" for v using r(1) [of v] by (auto simp: decision_def)
  moreover have "\<exists>v err. returns v evs = [err] \<and> failure v err = Some e" if "result = Some e" for e
    using r(1,2) that unfolding decision_def by (auto split: option.splits) (metis decides_Some)
  ultimately show ?thesis using r(3) runServices_nil [OF assms] by blast
qed

text \<open>An errgroup as its error and its context's.\<close>

definition sample_errgroup :: "(error \<times> ctx) Errgroup" where
  "sample_errgroup =
     \<lparr>eg_WithContext = (\<lambda>c. (None, c)),
      eg_returned = (\<lambda>e (k, c). (if k = None then e else k, if c = None \<and> k = None \<and> e \<noteq> None then Some Canceled else c)),
      eg_parent_done = (\<lambda>d (k, c). (k, if c = None then Some d else c)), eg_ctx = snd, eg_Wait = fst\<rparr>"

lemma sample_errgroup_laws: "errgroup_laws sample_errgroup"
  by (auto simp: errgroup_laws_def sample_errgroup_def split: prod.splits)

text \<open>A signal stops the services: the indexer sees it first, the server is shut down after.\<close>

definition sample_stop :: "runtime_event list" where
  "sample_stop =
     [Signal Canceled, Return IndexerService (Some (ctx_err Canceled)), Decide IndexerService, Release, Gather IndexerService,
      Return ServerService (Some (Sentinel HTTPErrServerClosed)), Return ShutdownService None, Decide ShutdownService,
      Decide ServerService, Gather ShutdownService, Gather ServerService]"

theorem services_outcome_witness:
  "runServices sample_errgroup None 10 sample_stop = Some None \<and>
   (\<exists>c. stop_request None sample_stop = Some c \<and> list_all (stops_cleanly c IndexerService) (returns IndexerService sample_stop))"
proof -
  have "runServices sample_errgroup None 10 sample_stop = Some None" by code_simp
  then show ?thesis using services_outcome [OF sample_errgroup_laws, of None 10 sample_stop None] unfolding list_all_iff by blast
qed

text \<open>
  C40: the services cannot hang on each other. A schedule has at most ten events besides signals. In every
  state it reaches, all three functions have returned, or some call of the indexer or of the server is
  still running, or a next event of \<open>runServices\<close> itself is possible. Once the indexer or the server function has
  returned, the group's context is done, so the other one is asked to stop and \<open>Shutdown\<close> is called.
\<close>

theorem services_end:
  assumes "errgroup_laws G" and "runtime_run G timeout evs (start_services G ctx) = Some s"
  shows "length (filter (\<lambda>ev. \<not> is_Signal ev) evs) \<le> 10 \<and>
    (runServices G ctx timeout evs \<noteq> None \<or> (\<exists>v. sv_stage s v = Calling) \<or>
      (\<exists>ev. runtime_step G timeout ev s \<noteq> None \<and> (ev = Release \<or> (\<exists>v. ev = Decide v \<or> ev = Gather v)))) \<and>
    ((\<exists>v r. sv_stage s v = Collected r) \<longrightarrow> eg_ctx G (sv_group s) \<noteq> None)"
proof -
  have inv: "group_inv G timeout s" "stop_inv G ctx evs s" using runtime_run_inv [OF assms] by auto
  have "total_progress s \<le> 12"
    using progress_bound [of "sv_stage s IndexerService"] progress_bound [of "sv_stage s ServerService"]
      progress_bound [of "sv_stage s ShutdownService"] by (simp add: total_progress_def)
  then have "length (filter (\<lambda>ev. \<not> is_Signal ev) evs) \<le> 10"
    using runtime_run_progress [OF assms(2)] by (simp add: total_progress_def start_services_def)
  moreover have ctx: "eg_ctx G (sv_group s) \<noteq> None" if "sv_stage s v = Collected r" for v r
    using group_inv_needs [OF inv(1), of v] that by simp
  moreover have "services_done s \<or> (\<exists>v. sv_stage s v = Calling) \<or>
      (\<exists>ev. runtime_step G timeout ev s \<noteq> None \<and> (ev = Release \<or> (\<exists>v. ev = Decide v \<or> ev = Gather v)))"
  proof (rule ccontr)
    assume stuck: "\<not> ?thesis"
    have "sv_stage s v = Waiting \<or> (\<exists>r. sv_stage s v = Collected r)" for v
      using stuck by (cases "sv_stage s v") (auto dest: spec [of _ "Decide v"] spec [of _ "Gather v"])
    moreover have "sv_stage s IndexerService \<noteq> Waiting" using inv(2) by (auto simp: stop_inv_def dest: spec [of _ IndexerService])
    ultimately have "eg_ctx G (sv_group s) \<noteq> None" using ctx by blast
    then have "sv_stage s ShutdownService \<noteq> Waiting" using stuck by (auto dest: spec [of _ Release])
    moreover have "sv_stage s v = Waiting \<Longrightarrow> v = ShutdownService" for v
      using inv(2) by (auto simp: stop_inv_def dest: spec [of _ v])
    ultimately have "services_done s"
      using \<open>\<And>v. sv_stage s v = Waiting \<or> (\<exists>r. sv_stage s v = Collected r)\<close> by (metis services_done_iff)
    then show False using stuck by blast
  qed
  ultimately show ?thesis using assms(2) by (auto simp: runServices_def)
qed

theorem services_end_witness:
  "\<exists>s. runtime_run sample_errgroup 10 (take 5 sample_stop) (start_services sample_errgroup None) = Some s \<and>
     sv_stage s IndexerService = Collected None \<and> eg_ctx sample_errgroup (sv_group s) \<noteq> None"
proof -
  obtain s where s: "runtime_run sample_errgroup 10 (take 5 sample_stop) (start_services sample_errgroup None) = Some s"
    "sv_stage s IndexerService = Collected None"
    by (auto simp: sample_stop_def sample_errgroup_def start_services_def indexer_decides_def ctx_sentinel_def)
  then show ?thesis using services_end [OF sample_errgroup_laws s(1)] by blast
qed

end
