(* ===== verification/Command.thy ===== *)
theory Command
  imports App_Config Postgres_Theorems Server_Theorems Runner_Theorems Routing Runtime
begin

text \<open>
  The program of \<open>cmd/indexer/main.go\<close>: its arguments, logger, the PostgreSQL pool of
  \<open>internal/store/postgres.go\<close>, the Ethereum connection, and how \<open>run\<close> builds the indexer and the HTTP
  server over them. \<open>pgxpool\<close>, \<open>ethclient\<close>, \<open>zerolog\<close>, YAML and the file system are the record
  \<open>Libraries\<close>; the flag package is modelled as far as one string flag needs it.
\<close>

section \<open>Package flag\<close>

text \<open>
  \<open>FlagSet.Parse\<close> with the single flag \<open>config\<close>: the value of the flag and the remaining
  arguments. A flag is written with one or two dashes, its value after \<open>=\<close> or as the next argument.
\<close>

datatype flag_step = StopParsing "string list" | FlagError err | FlagValue string "string list"

definition flag_dashes :: "string \<Rightarrow> nat" where
  "flag_dashes s = (if s ! 1 = CHR ''-'' then 2 else 1)"

definition parseOne :: "string list \<Rightarrow> flag_step" where
  "parseOne args =
     (case args of
        [] \<Rightarrow> StopParsing []
      | s # rest \<Rightarrow>
          if length s < 2 \<or> s ! 0 \<noteq> CHR ''-'' then StopParsing args
          else if s = ''--'' then StopParsing rest
          else
            (let body = drop (flag_dashes s) s in
             if body = [] \<or> body ! 0 = CHR ''-'' \<or> body ! 0 = CHR ''='' then FlagError (Foreign ''bad flag syntax: %s'')
             else
               (let name = hd body # takeWhile (\<lambda>c. c \<noteq> CHR ''='') (tl body);
                    hasValue = length name < length body;
                    val = drop (length name + 1) body in
                if name \<noteq> ''config''
                then FlagError (if name = ''help'' \<or> name = ''h'' then Sentinel FlagErrHelp
                                else Foreign ''flag provided but not defined: -%s'')
                else if hasValue then FlagValue val rest
                else (case rest of
                        [] \<Rightarrow> FlagError (Foreign ''flag needs an argument: -%s'')
                      | v # rest' \<Rightarrow> FlagValue v rest'))))"

lemma parseOne_consumes: "parseOne args = FlagValue v rest \<Longrightarrow> length rest < length args"
  by (auto simp: parseOne_def Let_def split: list.splits if_splits)

function flags_Parse :: "string \<Rightarrow> string list \<Rightarrow> err + string \<times> string list" where
  "flags_Parse configPath args =
     (case parseOne args of
        StopParsing rest \<Rightarrow> Inr (configPath, rest)
      | FlagError e \<Rightarrow> Inl e
      | FlagValue v rest \<Rightarrow> flags_Parse v rest)"
  by pat_completeness auto
termination
  by (relation "measure (\<lambda>(p, args). length args)") (auto dest: parseOne_consumes)

declare flags_Parse.simps [simp del]

section \<open>postgres.go\<close>

record PostgresOptions =
  po_URL :: string
  po_MaxConnections :: int
  po_MinConnections :: int
  po_ConnectTimeout :: int

text \<open>The configuration \<open>pgxpool.ParseConfig\<close> returns, with the fields the program sets.\<close>

record 'c PoolConfig =
  pc_Parsed :: 'c
  pc_MaxConns :: int
  pc_MinConns :: int
  pc_ConnectTimeout :: int

text \<open>
  A pool as the program uses it: \<open>pp_Drivers\<close> is how its connections present column values, and \<open>pp_Ping\<close> is
  given the timeout of its context.
\<close>

record 'w PostgresPool =
  pp_Drivers :: Drivers
  pp_Ping :: "int \<Rightarrow> 'w \<Rightarrow> error \<times> 'w"
  pp_Close :: "'w \<Rightarrow> 'w"

record ('c, 'w) Pgxpool =
  px_ParseConfig :: "string \<Rightarrow> err + 'c PoolConfig"
  px_NewWithConfig :: "'c PoolConfig \<Rightarrow> 'w \<Rightarrow> (err + 'w PostgresPool) \<times> 'w"

definition OpenPostgres :: "('c, 'w) Pgxpool \<Rightarrow> PostgresOptions \<Rightarrow> 'w \<Rightarrow> (err + 'w PostgresPool) \<times> 'w" where
  "OpenPostgres px options w =
     (case px_ParseConfig px (po_URL options) of
        Inl e \<Rightarrow> (Inl (Errorf ''parse postgres config: %w'' [e]), w)
      | Inr poolConfig \<Rightarrow>
     (case px_NewWithConfig px
             (poolConfig\<lparr>pc_MaxConns := po_MaxConnections options, pc_MinConns := po_MinConnections options,
                pc_ConnectTimeout := po_ConnectTimeout options\<rparr>) w of
        (Inl e, w1) \<Rightarrow> (Inl (Errorf ''create postgres pool: %w'' [e]), w1)
      | (Inr pool, w1) \<Rightarrow>
     (case pp_Ping pool (po_ConnectTimeout options) w1 of
        (Some e, w2) \<Rightarrow> (Inl (Errorf ''ping postgres: %w'' [e]), pp_Close pool w2)
      | (None, w2) \<Rightarrow> (Inr pool, w2))))"

definition Postgres_Close :: "'w PostgresPool \<Rightarrow> 'w \<Rightarrow> 'w" where
  [simp]: "Postgres_Close pool w = pp_Close pool w"

definition PostgresReadiness :: "Drivers \<Rightarrow> (PgEnv, Tables) readinessStore" where
  "PostgresReadiness d = \<lparr>rd_Ping = Postgres_Ping, rd_CanonicalTip = Postgres_CanonicalTip d\<rparr>"

section \<open>main.go\<close>

definition configPathFromEnvironment :: "(string \<Rightarrow> string) \<Rightarrow> string" where
  "configPathFromEnvironment getenv =
     (let path = getenv ''CONFIG_FILE'' in if path \<noteq> '''' then path else ''configs/config.example.yaml'')"

datatype log_output = Stdout | ConsoleStderr

record 'l Logger =
  lg_Output :: log_output
  lg_Level :: 'l
  lg_Service :: string

record ('f, 'c, 'l, 'w) Libraries =
  li_Geth :: Geth
  li_Text :: GethText
  li_getenv :: "string \<Rightarrow> string"
  li_open :: "string \<Rightarrow> err + 'f"
  li_decode :: "'f \<Rightarrow> AppConfig \<Rightarrow> err + AppConfig \<times> trailing"
  li_parseURI :: "string \<Rightarrow> err + URL"
  li_ToLower :: "string \<Rightarrow> string"
  li_ParseLevel :: "string \<Rightarrow> err + 'l"
  li_write :: "'l Logger \<Rightarrow> LogEntry \<Rightarrow> 'w \<Rightarrow> 'w"
  li_Pgxpool :: "('c, 'w) Pgxpool"
  li_dial :: "int \<Rightarrow> string \<Rightarrow> 'w \<Rightarrow> (err + 'w rpcClient) \<times> 'w"
  li_now :: "'w \<Rightarrow> Time \<times> 'w"

definition NewLogger :: "('f, 'c, 'l, 'w) Libraries \<Rightarrow> string \<Rightarrow> string \<Rightarrow> err + 'l Logger" where
  "NewLogger lib environment lvl =
     (case li_ParseLevel lib (li_ToLower lib lvl) of
        Inl e \<Rightarrow> Inl (Errorf ''parse log level: %w'' [e])
      | Inr parsedLevel \<Rightarrow>
          Inr \<lparr>lg_Output = (if environment = ''development'' then ConsoleStderr else Stdout), lg_Level = parsedLevel,
               lg_Service = ''eth-indexer''\<rparr>)"

text \<open>The \<open>http.Server\<close>: its handler is \<open>server.NewServer\<close> of the two services.\<close>

record HttpServer =
  hs_Addr :: string
  hs_Handler :: "(PgEnv, Tables) Server"
  hs_RequestTimeout :: int
  hs_ReadHeaderTimeout :: int
  hs_IdleTimeout :: int

text \<open>What is running once \<open>run\<close> calls \<open>runServices\<close>, and what its deferred calls will close.\<close>

record 'w Application =
  an_Syncer :: "(PgEnv, Tables, 'w) Syncer"
  an_HttpServer :: HttpServer
  an_ShutdownTimeout :: int
  an_Pool :: "'w PostgresPool"
  an_Client :: "'w Client"

definition sync_config_of :: "AppConfig \<Rightarrow> Config" where
  "sync_config_of cfg =
     \<lparr>c_ChainID = et_ChainID (cfg_Ethereum cfg), c_PollInterval = ix_PollInterval (cfg_Indexer cfg),
      c_BlockWindow = ix_BlockWindow (cfg_Indexer cfg), c_HeadMode = ix_HeadMode (cfg_Indexer cfg),
      c_RPCTimeout = et_RPCTimeout (cfg_Ethereum cfg), c_RPCConcurrency = et_RPCConcurrency (cfg_Ethereum cfg),
      c_RetryAttempts = ix_RetryAttempts (cfg_Indexer cfg), c_RetryMinBackoff = ix_RetryMinBackoff (cfg_Indexer cfg),
      c_RetryMaxBackoff = ix_RetryMaxBackoff (cfg_Indexer cfg)\<rparr>"

definition build :: "('f, 'c, 'l, 'w) Libraries \<Rightarrow> AppConfig \<Rightarrow> 'l Logger \<Rightarrow> 'w PostgresPool \<Rightarrow> 'w Client \<Rightarrow> 'w Application" where
  "build lib cfg logger pool ethClient =
     (let d = pp_Drivers pool;
          fetcher = NewFetcher (li_Geth lib) (li_now lib) (client_reader ethClient) (et_ChainID (cfg_Ethereum cfg));
          syncer = NewSyncer (li_Geth lib) (li_now lib) (Some fetcher) (Some (client_reader ethClient))
            (Some (PostgresIndexStore d)) (sync_config_of cfg) (li_write lib logger);
          handler = \<lparr>sv_QueryService = NewQueryService (PostgresQueryStore d),
            sv_HealthService = NewHealthService (PostgresReadiness d), sv_Text = li_Text lib\<rparr> in
      \<lparr>an_Syncer = syncer,
       an_HttpServer = \<lparr>hs_Addr = ht_Address (cfg_HTTP cfg), hs_Handler = handler,
         hs_RequestTimeout = ht_RequestTimeout (cfg_HTTP cfg), hs_ReadHeaderTimeout = ht_ReadHeaderTimeout (cfg_HTTP cfg),
         hs_IdleTimeout = ht_IdleTimeout (cfg_HTTP cfg)\<rparr>,
       an_ShutdownTimeout = ht_ShutdownTimeout (cfg_HTTP cfg), an_Pool = pool, an_Client = ethClient\<rparr>)"

definition postgres_options :: "AppConfig \<Rightarrow> PostgresOptions" where
  "postgres_options cfg =
     \<lparr>po_URL = db_URL (cfg_Database cfg), po_MaxConnections = db_MaxConnections (cfg_Database cfg),
      po_MinConnections = db_MinConnections (cfg_Database cfg), po_ConnectTimeout = db_ConnectTimeout (cfg_Database cfg)\<rparr>"

text \<open>
  \<open>run\<close> up to the call of \<open>runServices\<close>: the error it returns with before, its deferred calls made, or the running
  application.
\<close>

definition starting :: "AppConfig \<Rightarrow> LogEntry" where
  "starting cfg = \<lparr>le_Level = InfoLevel, le_Fields = [(''address'', LStr (ht_Address (cfg_HTTP cfg)))],
     le_Msg = ''starting HTTP server''\<rparr>"

definition connect ::
  "('f, 'c, 'l, 'w) Libraries \<Rightarrow> AppConfig \<Rightarrow> 'l Logger \<Rightarrow> 'w PostgresPool \<Rightarrow> 'w \<Rightarrow> (error + 'w Application) \<times> 'w" where
  "connect lib cfg logger pool w =
     (case Dial (li_dial lib) (et_RPCURL (cfg_Ethereum cfg)) (et_RPCTimeout (cfg_Ethereum cfg)) w of
        (Inl e, w1) \<Rightarrow> (Inl (Some (Errorf ''connect to Ethereum RPC: %w'' [e])), Postgres_Close pool w1)
      | (Inr ethClient, w1) \<Rightarrow>
     (case ValidateChainID ethClient (et_ChainID (cfg_Ethereum cfg)) w1 of
        (Some e, w2) \<Rightarrow>
          (Inl (Some (Errorf ''validate Ethereum network: %w'' [e])), Postgres_Close pool (Client_Close ethClient w2))
      | (None, w2) \<Rightarrow> (Inr (build lib cfg logger pool ethClient), li_write lib logger (starting cfg) w2)))"

definition start_application :: "('f, 'c, 'l, 'w) Libraries \<Rightarrow> string list \<Rightarrow> 'w \<Rightarrow> (error + 'w Application) \<times> 'w" where
  "start_application lib args w =
     (case flags_Parse (configPathFromEnvironment (li_getenv lib)) args of
        Inl e \<Rightarrow> (Inl (if errors_Is e FlagErrHelp then None else Some (Errorf ''parse arguments: %w'' [e])), w)
      | Inr (configPath, rest) \<Rightarrow>
     if length rest \<noteq> 0 then (Inl (Some (Foreign ''unexpected arguments: %s'')), w)
     else
     (case Load (li_open lib) (li_decode lib) (li_getenv lib) (li_parseURI lib) configPath of
        Inl e \<Rightarrow> (Inl (Some (Errorf ''load configuration: %w'' [e])), w)
      | Inr cfg \<Rightarrow>
     (case NewLogger lib (ap_Environment (cfg_App cfg)) (ap_LogLevel (cfg_App cfg)) of
        Inl e \<Rightarrow> (Inl (Some (Errorf ''configure logger: %w'' [e])), w)
      | Inr logger \<Rightarrow>
     (case OpenPostgres (li_Pgxpool lib) (postgres_options cfg) w of
        (Inl e, w1) \<Rightarrow> (Inl (Some (Errorf ''connect to PostgreSQL: %w'' [e])), w1)
      | (Inr pool, w1) \<Rightarrow> connect lib cfg logger pool w1))))"

text \<open>
  The whole of \<open>run\<close>. \<open>serving\<close> is what the services do to the world while they run; the value \<^const>\<open>None\<close> says
  the schedule \<open>evs\<close> is not a whole run of the services.
\<close>

definition main_run ::
  "('f, 'c, 'l, 'w) Libraries \<Rightarrow> 'g Errgroup \<Rightarrow> ctx \<Rightarrow> runtime_event list \<Rightarrow> ('w Application \<Rightarrow> 'w \<Rightarrow> 'w) \<Rightarrow>
   string list \<Rightarrow> 'w \<Rightarrow> (error \<times> 'w) option" where
  "main_run lib G ctx evs serving args w =
     (case start_application lib args w of
        (Inl err, w1) \<Rightarrow> Some (err, w1)
      | (Inr app, w1) \<Rightarrow>
     (case runServices G ctx (an_ShutdownTimeout app) evs of
        None \<Rightarrow> None
      | Some err \<Rightarrow> Some (err, Postgres_Close (an_Pool app) (Client_Close (an_Client app) (serving app w1)))))"

section \<open>Starting and stopping\<close>

text \<open>
  \<open>held\<close> counts the connections that are open: a pool or an RPC client that was created is one until it is
  closed, and nothing else changes the count.
\<close>

definition resources_ok :: "('f, 'c, 'l, 'w) Libraries \<Rightarrow> ('w \<Rightarrow> int) \<Rightarrow> bool" where
  "resources_ok lib held \<longleftrightarrow>
     (\<forall>c w r w'. px_NewWithConfig (li_Pgxpool lib) c w = (r, w') \<longrightarrow>
        (case r of
           Inl e \<Rightarrow> held w' = held w
         | Inr pool \<Rightarrow> held w' = held w + 1 \<and>
             (\<forall>t w. held (snd (pp_Ping pool t w)) = held w) \<and> (\<forall>w. held (pp_Close pool w) = held w - 1))) \<and>
     (\<forall>t url w r w'. li_dial lib t url w = (r, w') \<longrightarrow>
        (case r of
           Inl e \<Rightarrow> held w' = held w
         | Inr rpc \<Rightarrow> held w' = held w + 1 \<and>
             (\<forall>t w. held (snd (rpc_ChainID rpc t w)) = held w) \<and> (\<forall>w. held (rpc_Close rpc w) = held w - 1))) \<and>
     (\<forall>logger entry w. held (li_write lib logger entry w) = held w)"

lemma resources_pool:
  assumes "resources_ok lib held" and "px_NewWithConfig (li_Pgxpool lib) c w = (r, w')"
  shows "case r of Inl e \<Rightarrow> held w' = held w
    | Inr pool \<Rightarrow> held w' = held w + 1 \<and>
        (\<forall>t w. held (snd (pp_Ping pool t w)) = held w) \<and> (\<forall>w. held (pp_Close pool w) = held w - 1)"
  using assms unfolding resources_ok_def by blast

lemma resources_dial:
  assumes "resources_ok lib held" and "li_dial lib t url w = (r, w')"
  shows "case r of Inl e \<Rightarrow> held w' = held w
    | Inr rpc \<Rightarrow> held w' = held w + 1 \<and>
        (\<forall>t w. held (snd (rpc_ChainID rpc t w)) = held w) \<and> (\<forall>w. held (rpc_Close rpc w) = held w - 1)"
  using assms unfolding resources_ok_def by blast

lemma OpenPostgres_held:
  assumes ok: "resources_ok lib held" and run: "OpenPostgres (li_Pgxpool lib) options w = (r, w')"
  shows "case r of Inl e \<Rightarrow> held w' = held w
    | Inr pool \<Rightarrow> held w' = held w + 1 \<and> (\<forall>w. held (pp_Close pool w) = held w - 1)"
proof (cases "px_ParseConfig (li_Pgxpool lib) (po_URL options)")
  case (Inr c)
  obtain r1 w1 where new: "px_NewWithConfig (li_Pgxpool lib)
      (c\<lparr>pc_MaxConns := po_MaxConnections options, pc_MinConns := po_MinConnections options,
         pc_ConnectTimeout := po_ConnectTimeout options\<rparr>) w = (r1, w1)" by (rule prod.exhaust)
  show ?thesis
  proof (cases r1)
    case (Inr pool)
    obtain e w2 where ping: "pp_Ping pool (po_ConnectTimeout options) w1 = (e, w2)" by (rule prod.exhaust)
    note res = resources_pool [OF ok new, unfolded Inr, simplified]
    have "held (snd (pp_Ping pool (po_ConnectTimeout options) w1)) = held w1" using res by blast
    then show ?thesis
      using run new ping res Inr \<open>px_ParseConfig _ _ = Inr c\<close> by (cases e) (auto simp: OpenPostgres_def)
  qed (use run new resources_pool [OF ok new] Inr in \<open>auto simp: OpenPostgres_def\<close>)
qed (use run in \<open>auto simp: OpenPostgres_def\<close>)

lemma Dial_held:
  assumes ok: "resources_ok lib held" and run: "Dial (li_dial lib) url t w = (r, w')"
  shows "case r of Inl e \<Rightarrow> held w' = held w
    | Inr c \<Rightarrow> held w' = held w + 1 \<and> (\<forall>expected w. held (snd (ValidateChainID c expected w)) = held w) \<and>
        (\<forall>w. held (Client_Close c w) = held w - 1) \<and> cl_timeout c = t"
proof -
  obtain r1 w1 where d: "li_dial lib t url w = (r1, w1)" by (rule prod.exhaust)
  show ?thesis
  proof (cases r1)
    case (Inr rpc)
    note res = resources_dial [OF ok d, unfolded Inr, simplified]
    have "held (snd (ValidateChainID (newClient rpc t) expected w)) = held w" for expected w
      using spec [OF spec [OF conjunct1 [OF conjunct2 [OF res]], of t], of w]
      by (auto simp: ValidateChainID_def Client_ChainID_def newClient_def callContext_def split: prod.splits sum.splits if_splits)
    then show ?thesis using run d res Inr
      by (auto simp: Dial_def Client_Close_def newClient_def split: if_splits)
  qed (use run d resources_dial [OF ok d] in \<open>auto simp: Dial_def split: if_splits\<close>)
qed

lemma build_valid:
  assumes "Validate parseURI cfg = None"
  shows "validateRunConfig (an_Syncer (build lib cfg logger pool client)) = None"
proof -
  have "IsUint64 1" "big_Uint64 1 = 1" by (simp_all add: IsUint64_def big_Uint64_def)
  then show ?thesis
    using assms unfolding validate_exact
    by (auto simp: build_def Let_def validateRunConfig_def validateSyncOnceConfig_def NewSyncer_def NewFetcher_def sync_config_of_def SetUint64_def)
qed

lemma connect_started:
  assumes "connect lib cfg logger pool w = (Inr app, w')"
  obtains client w1 w2 where "Dial (li_dial lib) (et_RPCURL (cfg_Ethereum cfg)) (et_RPCTimeout (cfg_Ethereum cfg)) w = (Inr client, w1)"
    "ValidateChainID client (et_ChainID (cfg_Ethereum cfg)) w1 = (None, w2)" "app = build lib cfg logger pool client"
    "w' = li_write lib logger (starting cfg) w2"
  using assms by (auto simp: connect_def split: prod.splits sum.splits option.splits)

lemma start_application_started:
  assumes "start_application lib args w = (Inr app, w')"
  obtains path cfg logger pool w1 where "flags_Parse (configPathFromEnvironment (li_getenv lib)) args = Inr (path, [])"
    "Load (li_open lib) (li_decode lib) (li_getenv lib) (li_parseURI lib) path = Inr cfg"
    "OpenPostgres (li_Pgxpool lib) (postgres_options cfg) w = (Inr pool, w1)" "connect lib cfg logger pool w1 = (Inr app, w')"
  using assms by (auto simp: start_application_def split: prod.splits sum.splits if_splits)

lemma connect_held:
  assumes ok: "resources_ok lib held" and pool: "\<forall>w. held (pp_Close pool w) = held w - 1"
    and run: "connect lib cfg logger pool w = (r, w')"
  shows "case r of Inl err \<Rightarrow> held w' = held w - 1 \<and> err \<noteq> None
    | Inr app \<Rightarrow> held w' = held w + 1 \<and> (\<forall>w. held (Client_Close (an_Client app) w) = held w - 1) \<and> an_Pool app = pool"
proof -
  obtain r1 w1 where d: "Dial (li_dial lib) (et_RPCURL (cfg_Ethereum cfg)) (et_RPCTimeout (cfg_Ethereum cfg)) w = (r1, w1)"
    by (rule prod.exhaust)
  show ?thesis
  proof (cases r1)
    case (Inl e)
    then show ?thesis using run d pool Dial_held [OF ok d] by (auto simp: connect_def)
  next
    case (Inr client)
    note res = Dial_held [OF ok d, unfolded Inr, simplified]
    obtain e w2 where v: "ValidateChainID client (et_ChainID (cfg_Ethereum cfg)) w1 = (e, w2)" by (rule prod.exhaust)
    have "held (snd (ValidateChainID client (et_ChainID (cfg_Ethereum cfg)) w1)) = held w1" using res by blast
    moreover have "held (li_write lib logger (starting cfg) w2) = held w2" using ok by (simp add: resources_ok_def)
    ultimately show ?thesis using run d v res pool Inr by (cases e) (auto simp: connect_def build_def Let_def)
  qed
qed

lemma start_application_held:
  assumes ok: "resources_ok lib held" and run: "start_application lib args w = (r, w')"
  shows "case r of Inl err \<Rightarrow> held w' = held w \<and>
      (err = None \<longrightarrow> (\<exists>e. flags_Parse (configPathFromEnvironment (li_getenv lib)) args = Inl e \<and> errors_Is e FlagErrHelp))
    | Inr app \<Rightarrow> held w' = held w + 2 \<and> (\<forall>w. held (pp_Close (an_Pool app) (Client_Close (an_Client app) w)) = held w - 2)"
proof (cases "\<exists>cfg logger pool w1. OpenPostgres (li_Pgxpool lib) (postgres_options cfg) w = (Inr pool, w1) \<and>
    connect lib cfg logger pool w1 = (r, w')")
  case True
  then obtain cfg logger pool w1 where o: "OpenPostgres (li_Pgxpool lib) (postgres_options cfg) w = (Inr pool, w1)"
    and c: "connect lib cfg logger pool w1 = (r, w')" by blast
  note pool = OpenPostgres_held [OF ok o, simplified]
  show ?thesis using connect_held [OF ok conjunct2 [OF pool] c] pool by (auto split: sum.splits)
next
  case False
  then show ?thesis using run
    by (auto simp: start_application_def dest!: OpenPostgres_held [OF ok] split: prod.splits sum.splits if_splits)
qed

text \<open>
  C14: a program that starts is well configured and wired. The arguments name one configuration, it was loaded
  and is valid, a pool was opened with its database settings, the node answered with mainnet's chain ID, and the
  indexer and the HTTP server work on that pool. Every setting of the indexer and every timeout of the server is the
  configured one, and \<open>Run\<close> accepts them: no later start-up error is one of configuration.
\<close>

theorem startup_valid:
  assumes "start_application lib args w = (Inr app, w')"
  shows "\<exists>path cfg. flags_Parse (configPathFromEnvironment (li_getenv lib)) args = Inr (path, []) \<and>
    Load (li_open lib) (li_decode lib) (li_getenv lib) (li_parseURI lib) path = Inr cfg \<and>
    Validate (li_parseURI lib) cfg = None \<and>
    (\<exists>w1 w2. rpc_ChainID (cl_rpc (an_Client app)) (et_RPCTimeout (cfg_Ethereum cfg)) w1 = (Inr (Some 1), w2)) \<and>
    (\<exists>w1. OpenPostgres (li_Pgxpool lib)
       \<lparr>po_URL = db_URL (cfg_Database cfg), po_MaxConnections = db_MaxConnections (cfg_Database cfg),
        po_MinConnections = db_MinConnections (cfg_Database cfg), po_ConnectTimeout = db_ConnectTimeout (cfg_Database cfg)\<rparr> w =
       (Inr (an_Pool app), w1)) \<and>
    y_store (an_Syncer app) = Some (PostgresIndexStore (pp_Drivers (an_Pool app))) \<and>
    y_chain (an_Syncer app) = Some (client_reader (an_Client app)) \<and>
    cl_timeout (an_Client app) = et_RPCTimeout (cfg_Ethereum cfg) \<and>
    y_config (an_Syncer app) =
      \<lparr>c_ChainID = et_ChainID (cfg_Ethereum cfg), c_PollInterval = ix_PollInterval (cfg_Indexer cfg),
       c_BlockWindow = ix_BlockWindow (cfg_Indexer cfg), c_HeadMode = ix_HeadMode (cfg_Indexer cfg),
       c_RPCTimeout = et_RPCTimeout (cfg_Ethereum cfg), c_RPCConcurrency = et_RPCConcurrency (cfg_Ethereum cfg),
       c_RetryAttempts = ix_RetryAttempts (cfg_Indexer cfg), c_RetryMinBackoff = ix_RetryMinBackoff (cfg_Indexer cfg),
       c_RetryMaxBackoff = ix_RetryMaxBackoff (cfg_Indexer cfg)\<rparr> \<and>
    validateRunConfig (an_Syncer app) = None \<and>
    an_HttpServer app =
      \<lparr>hs_Addr = ht_Address (cfg_HTTP cfg),
       hs_Handler = \<lparr>sv_QueryService = NewQueryService (PostgresQueryStore (pp_Drivers (an_Pool app))),
         sv_HealthService = NewHealthService (PostgresReadiness (pp_Drivers (an_Pool app))), sv_Text = li_Text lib\<rparr>,
       hs_RequestTimeout = ht_RequestTimeout (cfg_HTTP cfg), hs_ReadHeaderTimeout = ht_ReadHeaderTimeout (cfg_HTTP cfg),
       hs_IdleTimeout = ht_IdleTimeout (cfg_HTTP cfg)\<rparr> \<and>
    an_ShutdownTimeout app = ht_ShutdownTimeout (cfg_HTTP cfg) \<and> 0 < an_ShutdownTimeout app"
  using assms
proof (rule start_application_started)
  fix path cfg logger pool w1
  assume opened: "OpenPostgres (li_Pgxpool lib) (postgres_options cfg) w = (Inr pool, w1)"
  assume *: "flags_Parse (configPathFromEnvironment (li_getenv lib)) args = Inr (path, [])"
    "Load (li_open lib) (li_decode lib) (li_getenv lib) (li_parseURI lib) path = Inr cfg"
    "connect lib cfg logger pool w1 = (Inr app, w')"
  have v: "Validate (li_parseURI lib) cfg = None" using load_sound [OF *(2)] by blast
  from *(3) obtain client w2 w3 where
    d: "Dial (li_dial lib) (et_RPCURL (cfg_Ethereum cfg)) (et_RPCTimeout (cfg_Ethereum cfg)) w1 = (Inr client, w2)"
    and c: "ValidateChainID client (et_ChainID (cfg_Ethereum cfg)) w2 = (None, w3)" and app: "app = build lib cfg logger pool client"
    by (rule connect_started)
  have t: "cl_timeout client = et_RPCTimeout (cfg_Ethereum cfg)"
    using d by (auto simp: Dial_def newClient_def split: if_splits sum.splits prod.splits)
  obtain r w4 where rpc: "rpc_ChainID (cl_rpc client) (cl_timeout client) w2 = (r, w4)" by (rule prod.exhaust)
  have "et_ChainID (cfg_Ethereum cfg) = 1" "0 < ht_ShutdownTimeout (cfg_HTTP cfg)" using v by (simp_all add: validate_exact)
  moreover have "r = Inr (Some 1) \<and> w3 = w4"
  proof (cases r)
    case (Inl e)
    then show ?thesis using c rpc by (simp add: ValidateChainID_def Client_ChainID_def callContext_def)
  next
    case (Inr actual)
    then show ?thesis using chain_id_exact [of client w2 actual w4 1] rpc c calculation(1)
      by (auto simp: ValidateChainID_def Client_ChainID_def callContext_def split: if_splits)
  qed
  ultimately show ?thesis using opened * v t rpc build_valid [OF v, of lib logger pool client] app
    by (intro exI [of _ path] exI [of _ cfg])
      (auto simp: build_def Let_def NewSyncer_def sync_config_of_def postgres_options_def)
qed

text \<open>Libraries that succeed; the world is the number of open connections.\<close>

definition sample_rpc :: "int rpcClient" where
  "sample_rpc = \<lparr>rpc_ChainID = (\<lambda>t w. (Inr (Some 1), w)), rpc_BlockNumber = (\<lambda>t w. (Inr 0, w)),
     rpc_BlockByNumber = (\<lambda>t n w. (Inr None, w)), rpc_HeaderByNumber = (\<lambda>t n w. (Inr None, w)),
     rpc_FilterLogs = (\<lambda>t q w. (Inr [], w)), rpc_Close = (\<lambda>w. w - 1)\<rparr>"

definition sample_libraries :: "(unit, unit, unit, int) Libraries" where
  "sample_libraries =
     \<lparr>li_Geth = sample_geth, li_Text = sample_text, li_getenv = sample_getenv,
      li_open = (\<lambda>path. Inr ()), li_decode = (\<lambda>f c. Inr (c, EndOfFile)), li_parseURI = sample_parseURI,
      li_ToLower = (\<lambda>s. s), li_ParseLevel = (\<lambda>s. Inr ()), li_write = (\<lambda>l e w. w),
      li_Pgxpool = \<lparr>px_ParseConfig = (\<lambda>url. Inr \<lparr>pc_Parsed = (), pc_MaxConns = 4, pc_MinConns = 0, pc_ConnectTimeout = 0\<rparr>),
        px_NewWithConfig = (\<lambda>c w. (Inr \<lparr>pp_Drivers = sample_drivers, pp_Ping = (\<lambda>t w. (None, w)), pp_Close = (\<lambda>w. w - 1)\<rparr>, w + 1))\<rparr>,
      li_dial = (\<lambda>t url w. (Inr sample_rpc, w + 1)), li_now = (\<lambda>w. (sample_time, w))\<rparr>"

lemma sample_resources: "resources_ok sample_libraries (\<lambda>w. w)"
  by (auto simp: resources_ok_def sample_libraries_def sample_rpc_def)

lemma sample_starts:
  "\<exists>app. start_application sample_libraries [''-config=c.yaml''] 0 = (Inr app, 2)"
proof -
  have f: "flags_Parse (configPathFromEnvironment sample_getenv) [''-config=c.yaml''] = Inr (''c.yaml'', [])" by code_simp
  have l: "Load (\<lambda>path. Inr ()) (\<lambda>f c. Inr (c, EndOfFile)) sample_getenv sample_parseURI ''c.yaml'' = Inr sample_app_config"
    by (simp add: Load_def sample_app_config_def [symmetric] sample_app_valid)
  have "TrimSpace (et_RPCURL (cfg_Ethereum sample_app_config)) \<noteq> []" "\<not> et_RPCTimeout (cfg_Ethereum sample_app_config) \<le> 0"
    "et_ChainID (cfg_Ethereum sample_app_config) = 1" by code_simp+
  then show ?thesis
    by (simp add: start_application_def sample_libraries_def f l NewLogger_def OpenPostgres_def connect_def Dial_def
        ValidateChainID_def Client_ChainID_def newClient_def sample_rpc_def IsUint64_def big_Uint64_def)
qed

theorem startup_valid_witness:
  "\<exists>app. start_application sample_libraries [''-config=c.yaml''] 0 = (Inr app, 2) \<and> validateRunConfig (an_Syncer app) = None"
  using sample_starts startup_valid by metis

text \<open>
  C15: whatever happens, \<open>run\<close> closes what it opened. When it returns, with or without an error, at start-up or after
  serving, as many connections are open as before. It returns \<open>nil\<close> only when help was asked for or
  when a stop was requested and the services ended the way a stop ends them.
\<close>

theorem main_run_releases:
  assumes "resources_ok lib held" and "errgroup_laws G" and "\<forall>app w. held (serving app w) = held w"
    and "main_run lib G ctx evs serving args w = Some (err, w')"
  shows "held w' = held w \<and>
    (err = None \<longrightarrow>
      (\<exists>e. flags_Parse (configPathFromEnvironment (li_getenv lib)) args = Inl e \<and> errors_Is e FlagErrHelp) \<or>
      (\<exists>c. stop_request ctx evs = Some c \<and> (\<forall>v. \<forall>err \<in> set (returns v evs). stops_cleanly c v err)))"
proof -
  obtain r w1 where start: "start_application lib args w = (r, w1)" by (rule prod.exhaust)
  note res = start_application_held [OF assms(1) start]
  show ?thesis
  proof (cases r)
    case (Inl e)
    then show ?thesis using assms(4) start res by (simp add: main_run_def)
  next
    case (Inr app)
    then obtain result where run: "runServices G ctx (an_ShutdownTimeout app) evs = Some result" and err: "err = result"
      and w': "w' = pp_Close (an_Pool app) (Client_Close (an_Client app) (serving app w1))"
      using assms(4) start by (auto simp: main_run_def split: option.splits)
    have "held w' = held w" using res Inr assms(3) w' by simp
    then show ?thesis using runServices_nil [OF assms(2) run] err by blast
  qed
qed

theorem main_run_releases_witness:
  "\<exists>w'. main_run sample_libraries sample_errgroup None sample_stop (\<lambda>app w. w) [''-config=c.yaml''] 0 = Some (None, w') \<and> w' = 0"
proof -
  have "\<exists>w'. main_run sample_libraries sample_errgroup None sample_stop (\<lambda>app w. w) [''-config=c.yaml''] 0 = Some (None, w')"
  proof -
    have "runServices sample_errgroup None t sample_stop = Some None" for t
      by (simp add: runServices_def sample_stop_def sample_errgroup_def start_services_def indexer_decides_def server_decides_def
          shutdown_decides_def ctx_sentinel_def services_done_def)
    then show ?thesis using sample_starts by (auto simp: main_run_def)
  qed
  then show ?thesis using main_run_releases [OF sample_resources sample_errgroup_laws, of "\<lambda>app w. w"] by fastforce
qed

section \<open>The API over PostgreSQL\<close>

text \<open>The in-memory store with the times of blocks as PostgreSQL keeps them, to the microsecond.\<close>

definition MicrosecondStore :: "(ctx, Memory) QueryStore" where
  "MicrosecondStore = MemoryQueryStore\<lparr>qs_BlockByNumber := (\<lambda>x n m.
     map_sum id (\<lambda>r. r\<lparr>br_Block := stored_block (br_Block r)\<rparr>) (Memory_BlockByNumber x n m))\<rparr>"

definition with_context :: "'x \<Rightarrow> 'y Request \<Rightarrow> 'x Request" where
  "with_context x request =
     \<lparr>rq_URLParam = rq_URLParam request, rq_Query = rq_Query request, rq_ReqID = rq_ReqID request, rq_Context = (x, x),
      rq_WriteError = rq_WriteError request\<rparr>"

lemma with_context_sel [simp]:
  "rq_URLParam (with_context x request) = rq_URLParam request" "rq_Query (with_context x request) = rq_Query request"
  "rq_ReqID (with_context x request) = rq_ReqID request" "rq_Context (with_context x request) = (x, x)"
  "rq_WriteError (with_context x request) = rq_WriteError request"
  by (simp_all add: with_context_def)

lemma with_context_param: "(with_context x request)\<lparr>rq_URLParam := p\<rparr> = with_context x (request\<lparr>rq_URLParam := p\<rparr>)"
  by (simp add: with_context_def)

lemma CanonicalTip_agrees:
  assumes agree: "agrees d m db"
  shows "Postgres_CanonicalTip d no_failures db = Memory_CanonicalTip None m"
proof -
  have inv: "pg_inv d db" using agree by (simp add: agrees_def)
  have "\<not> isl (Memory_CanonicalTip None m)" by (auto simp: Memory_CanonicalTip_def split: prod.splits)
  then obtain tip where "Memory_CanonicalTip None m = Inr tip" by (cases "Memory_CanonicalTip None m") auto
  then show ?thesis
  proof (cases tip)
    case None
    then have "m_bundles m = []" using CanonicalTip_cases(1) [of m] \<open>_ = Inr tip\<close> by simp
    then have "d_blocks db = []" using agree by (auto simp: agrees_def represents_def)
    then show ?thesis using None \<open>_ = Inr tip\<close> by (simp add: Postgres_CanonicalTip_def canonicalTipQuery_def)
  next
    case (Some t)
    then obtain b where "map_of (m_bundles m) (tip_Number t) = Some b" "tip_Hash t = bb_Hash b"
      "\<forall>n \<in> dom (map_of (m_bundles m)). n \<le> tip_Number t" using CanonicalTip_cases(2) [of m t] \<open>_ = Inr tip\<close> by auto
    then have "pg_chain db (tip_Number t) = Some (tip_Hash t, b_ParentHash (bb_Block b))" "\<forall>n \<in> dom (pg_chain db). n \<le> tip_Number t"
      using agrees_chain [OF agree] by (auto simp: memory_chain_def header_def)
    from pg_tip_read [OF inv this] show ?thesis using Some \<open>_ = Inr tip\<close> by simp
  qed
qed

lemma serve_agrees:
  assumes "agrees (pp_Drivers pool) m db"
  shows "serve (hs_Handler (an_HttpServer (build lib cfg logger pool client))) route (with_context no_failures request) db =
    serve \<lparr>sv_QueryService = NewQueryService MicrosecondStore, sv_HealthService = NewHealthService MemoryReadiness,
      sv_Text = li_Text lib\<rparr> route (with_context None request) m"
proof -
  note same = BlockByNumber_agrees [OF assms] TransactionByHash_agrees [OF assms] EventsByAddress_agrees [OF assms]
    CanonicalTip_agrees [OF assms]
  have ping: "Postgres_Ping no_failures db = None" "Memory_Ping None m = None"
    by (simp_all add: Postgres_Ping_def no_failures_def Memory_Ping_def)
  have json: "writeJSON (with_context no_failures request) = writeJSON (with_context (None :: ctx) request)"
    by (simp add: writeJSON_def Let_def fun_eq_iff split: option.splits)
  have error: "writeError (with_context no_failures request) = writeError (with_context (None :: ctx) request)"
    "internal_error (with_context no_failures request) = internal_error (with_context (None :: ctx) request)"
    by (simp_all add: writeError_def internal_error_def json fun_eq_iff)
  note services = NewQueryService_def NewHealthService_def QueryService_Block_def QueryService_Transaction_def QueryService_Events_def
    Ready_def PostgresQueryStore_def MicrosecondStore_def MemoryQueryStore_def PostgresReadiness_def MemoryReadiness_def
  show ?thesis
  proof (cases route)
    case HealthzRoute
    then show ?thesis by (simp add: serve_def health_def json)
  next
    case ReadyzRoute
    then show ?thesis by (simp add: serve_def readiness_def build_def Let_def services same ping json split: sum.splits option.splits)
  next
    case BlockRoute
    then show ?thesis by (simp add: serve_def blockByNumber_def build_def Let_def services same json error split: sum.splits)
  next
    case TransactionRoute
    then show ?thesis by (simp add: serve_def transactionByHash_def build_def Let_def services same json error logTransactionError_def split: sum.splits)
  next
    case EventsRoute
    then show ?thesis by (simp add: serve_def eventsByAddress_def build_def Let_def services same json error split: sum.splits)
  qed
qed

text \<open>
  C6: the API of the running program is the one of the in-memory store. When the tables agree with an in-memory
  store and no statement of the request fails, the HTTP handler built by \<open>run\<close> over PostgreSQL answers every method, path and request with the same status,
  body and log entries as the same handler over that store, block times read to the microsecond. This
  holds for every router.
\<close>

theorem api_like_memory:
  assumes "agrees (pp_Drivers pool) m db"
  shows "NewServer router (hs_Handler (an_HttpServer (build lib cfg logger pool client))) verb path (with_context no_failures request) db =
    NewServer router \<lparr>sv_QueryService = NewQueryService MicrosecondStore, sv_HealthService = NewHealthService MemoryReadiness,
      sv_Text = li_Text lib\<rparr> verb path (with_context None request) m"
  unfolding NewServer_def by (simp add: serve_agrees [OF assms] with_context_param split: chi_match.splits option.splits)

definition sample_application :: "int Application" where
  "sample_application = build sample_libraries sample_app_config \<lparr>lg_Output = Stdout, lg_Level = (), lg_Service = ''eth-indexer''\<rparr>
     \<lparr>pp_Drivers = sample_drivers, pp_Ping = (\<lambda>t w. (None, w)), pp_Close = (\<lambda>w. w - 1)\<rparr> (newClient sample_rpc 5)"

theorem api_like_memory_witness:
  "rw_Status (NewServer sample_router (hs_Handler (an_HttpServer sample_application)) ''GET'' ''/v1/blocks/11''
     (with_context no_failures (sample_request None '''')) sample_tables) = Some 200"
proof -
  define mem :: "(ctx, Memory) Server" where "mem = \<lparr>sv_QueryService = NewQueryService MicrosecondStore,
    sv_HealthService = NewHealthService MemoryReadiness, sv_Text = sample_text\<rparr>"
  define rq where "rq = with_context (None :: ctx) (sample_request None '''')"
  have "parseBlockNumber ''11'' = Inr 11" "\<not> isl (Memory_BlockByNumber None 11 sample_row_memory)" by code_simp+
  moreover from this(2) obtain r where "Memory_BlockByNumber None 11 sample_row_memory = Inr r"
    by (cases "Memory_BlockByNumber None 11 sample_row_memory") auto
  ultimately have "rw_Status (serve mem BlockRoute (rq\<lparr>rq_URLParam := (\<lambda>k. if k = ''number'' then ''11'' else [])\<rparr>) sample_row_memory) = Some 200"
    by (simp add: mem_def rq_def serve_def blockByNumber_def NewQueryService_def QueryService_Block_def MicrosecondStore_def MemoryQueryStore_def
        sample_request_def writeJSON_def WriteHeader_def fresh_writer_def)
  moreover have "NewServer sample_router mem ''GET'' ''/v1/blocks/11'' rq sample_row_memory =
      serve mem BlockRoute (rq\<lparr>rq_URLParam := (\<lambda>k. if k = ''number'' then ''11'' else [])\<rparr>) sample_row_memory"
    using NewServer_routes(1) [OF sample_router_routes, of "''11''" mem rq sample_row_memory] by simp
  moreover have "li_Text sample_libraries = sample_text" by (simp add: sample_libraries_def)
  ultimately show ?thesis
    using sample_tables_agree api_like_memory [where m = sample_row_memory and db = sample_tables and lib = sample_libraries and
        pool = "\<lparr>pp_Drivers = sample_drivers, pp_Ping = (\<lambda>t w. (None, w)), pp_Close = (\<lambda>w. w - 1)\<rparr>" and request = "sample_request None ''''"]
    by (simp add: sample_application_def mem_def rq_def)
qed

end
