(* ===== verification/Spec2Isabelle.thy ===== *)
theory Spec2Isabelle
  imports Command
begin

text \<open>
  A verification development of \<^emph>\<open>ethindexer\<close>, a Go service that keeps the most recent blocks of the
  Ethereum main network in PostgreSQL and answers HTTP queries about blocks, transactions and event logs.
  File names below are relative to \<open>src/\<close>.

  \<^bold>\<open>The program and how its parts interact.\<close> \<open>cmd/indexer/main.go\<close> loads a configuration
  (\<open>internal/config\<close>), opens a PostgreSQL pool and an Ethereum RPC client (\<open>internal/ethereum\<close>), and starts
  three goroutines (\<open>cmd/indexer/runtime.go\<close>): the indexer, the HTTP server and the server's shutdown. The indexer
  (\<open>internal/indexer\<close>) polls: one cycle (\<open>syncer.go\<close>) reads the selected head, compares it with the
  stored tip, walks back to a common ancestor on a reorganization, fetches the missing range with a worker pool
  (\<open>ranger.go\<close>, \<open>fetcher.go\<close>), and hands the store one atomic update; \<open>runner.go\<close> retries and repeats.
  Stores (\<open>internal/store\<close>) implement two interfaces: \<open>IndexStore\<close> for the indexer and
  \<open>QueryStore\<close> for the API. There are two, PostgreSQL and one in memory. The HTTP layer
  (\<open>internal/server\<close>) parses requests and calls the services (\<open>internal/service\<close>), which call a store.

  \<^bold>\<open>Conventions.\<close> A struct is a record whose fields carry a short prefix, an interface is a record of its
  methods. \<open>uint64\<close>, \<open>uint32\<close> and \<open>uint8\<close> are words and wrap; a hash is a 256-bit and an address a
  160-bit word; \<open>int\<close>, \<open>big.Int\<close> and durations are integers. A pointer that may be \<open>nil\<close> is an option. A
  result with an error is a sum whose left side is the error; errors keep what they wrap, so
  \<open>errors.Is\<close> is a function (\<open>Prelude\<close>). Everything outside the repository is a parameter: the node, the
  clock, contexts and schedulers are functions on a world of arbitrary type that is threaded through the calls, so
  they may answer differently each time. What a theorem needs of them is a named hypothesis,
  with an example that satisfies it.

  \<^bold>\<open>The theories.\<close>

  \<^item> \<open>Prelude\<close>: machine types, errors and contexts, instants, \<open>sort.Slice\<close>, the lemma collections.
  \<^item> \<open>Domain\<close>: the records of \<open>internal/domain\<close> and well-formed bundles.
  \<^item> \<open>Index_Store\<close>: the interface \<open>IndexStore\<close> and its contract, the locale \<open>index_store\<close>: the stored blocks are a
    linked chain; the tip is its highest block; an update that succeeds replaces exactly what it names; one that fails
    changes nothing or everything. \<open>Paging\<close>: the contract of event pages, the locale \<open>event_pager\<close>, and
    that following its cursors reads every event once. Both stores are interpretations of both locales.
  \<^item> \<open>Memory_Store\<close> models \<open>store/memory.go\<close>; a Go map is an association list whose order is the order of
    iteration. \<open>Memory_Props\<close> and \<open>Memory_Queries\<close> hold the lemmas, \<open>Memory_Theorems\<close> the
    properties: validation accepts exactly the canonical chains, updates are atomic, reads return what was written,
    pagination is complete, stale cursors are reported, and no result depends on map iteration order.
  \<^item> \<open>Fetcher\<close> and \<open>Fetcher_Props\<close> model \<open>indexer/fetcher.go\<close>: a block is accepted exactly when the node's answers
    are consistent, and the bundle is, field by field, what the node sent. \<open>Ranger\<close> and \<open>Ranger_Props\<close> model
    \<open>indexer/ranger.go\<close>: the producer, the workers and their channels are a state with events chosen by a
    scheduler. Under every schedule the pool ends without deadlock, and a returned range is consecutive and linked.
  \<^item> \<open>Syncer\<close>, \<open>Syncer_Props\<close>, \<open>Syncer_Theorems\<close> and \<open>Syncer_Live\<close> model \<open>indexer/syncer.go\<close>: after a
    cycle that succeeds the store is one chain inside the window that ends at the head the node reported for the
    configured mode (latest, safe or finalized); a failed cycle changes nothing; the walk back finds the nearest common ancestor; and against a steady node a cycle
    always succeeds.
  \<^item> \<open>Runner\<close>, \<open>Runner_Props\<close> and \<open>Runner_Theorems\<close> model \<open>indexer/runner.go\<close>: retries and backoff are bounded,
    \<open>Run\<close> returns only for its context, its configuration or a failed first cycle, and otherwise goes on for ever.
  \<^item> \<open>Encoding\<close>, \<open>Service\<close>, \<open>Server\<close>, \<open>Server_Props\<close> and \<open>Server_Theorems\<close> model the standard library's text and byte
    encodings, \<open>internal/service\<close> and \<open>internal/server\<close>: a client that follows \<open>next_cursor\<close>
    reads all events of an address; cursor texts are canonical; the JSON of blocks, transactions and events has every field
    of the stored value; every handler writes one response with the right status, and an internal error is logged
    while the body is a constant. The bodies are written down a second time in \<open>Server_Props\<close>, from the domain values. \<open>Routing\<close> models \<open>NewServer\<close> of \<open>server/router.go\<close>: every
    path of the API reaches its handler.
  \<^item> \<open>Postgres_Rows\<close> and \<open>Postgres\<close> model \<open>migrations/000001_initial.up.sql\<close> and
    \<open>store/postgres_*.go\<close>. Tables are lists of rows with the schema's keys, references, cascades and checks; a
    query is a function on them; every statement may fail. \<open>Postgres_Props\<close> shows that rows decode to what they were
    made of and that batching changes nothing, \<open>Postgres_Chain\<close> the contract of \<open>IndexStore\<close>. \<open>Postgres_Refines\<close>,
    \<open>Postgres_Answers\<close> and \<open>Postgres_Accepts\<close> relate tables to an in-memory store by the relation \<open>agrees\<close>: commits
    are updates of that store, which of its updates are committed, queries answer alike. PostgreSQL asks for more than the
    in-memory store: values within the widths of its columns, no \<open>nil\<close> payload, a stored block below a range that starts inside
    the window, and distinct block hashes. \<open>Postgres_Theorems\<close> has the properties.
  \<^item> \<open>Client\<close> models \<open>internal/ethereum\<close>, \<open>App_Config\<close> models \<open>internal/config\<close>: the chain ID is compared
    exactly, a loaded configuration is valid and carries the environment's overrides.
  \<^item> \<open>Runtime\<close> models \<open>cmd/indexer/runtime.go\<close>: the three goroutines as stages and events. They end
    together, cannot wait for each other for ever, and the result is \<open>nil\<close> exactly for a requested stop.
  \<^item> \<open>Command\<close> models \<open>cmd/indexer/main.go\<close> and \<open>store/postgres.go\<close>: a program that starts is valid
    and wired to the parts above with every setting the configured one, \<open>run\<close> closes what it opened, and the HTTP API
    over PostgreSQL answers, while no statement fails, as it does over the in-memory store with times to the microsecond, so what is proved of the API there holds of the running program.

  \<^bold>\<open>Loops and bounds.\<close> Loops over data are structural recursion. The retries, the walk back, the worker pool and the
  flag parser are total functions with a measure. The polling loop may run for ever: it is a partial function into
  option, \<^const>\<open>None\<close> being a run that does not return, and it is proved which runs return. Fuel occurs
  only in the clients that follow cursors; one more than the number of events is proved to be enough. A schedule of the services has
  at most ten events besides signals. Nothing else is bounded: block numbers, windows, page sizes
  and worker counts are arbitrary within the types and the checks of the code.

  \<^bold>\<open>Not modelled.\<close>

  \<^item> \<open>go-ethereum\<close>, \<open>pgx\<close>, \<open>zerolog\<close>, the YAML decoder and the errgroup are parameters. So are \<open>url.ParseRequestURI\<close>,
    \<open>time.ParseDuration\<close> and the Unicode tables behind \<open>strings.ToLower\<close>, whose results the code only passes on or compares.
  \<^item> \<open>chi\<close>: how it matches a path is a parameter of \<open>NewServer\<close>. Request IDs and the request timeout of its
    middleware are part of what a handler is given. Panic recovery is not modelled: the checked integer conversions of the
    PostgreSQL store are the only code that panics on purpose, and their panics are error values here.
  \<^item> The range of \<open>timestamptz\<close>: a column keeps microseconds of any instant; the clock is taken to be before the year 294247.
  \<^item> How long a wait takes: \<open>waitFor\<close> starts a timer of its duration in the world and returns when the environment says so.
  \<^item> The bytes of a JSON body: a body is the JSON value the struct tags describe.
  \<^item> Concurrent transactions in the database: the program has one writer, and the reads of one query see one snapshot,
    as its repeatable-read transactions ask for. Indexes do not change results.
  \<^item> \<open>main\<close> itself, which installs the signal handler and logs the error, the migrations' way down, and the container and
    build files.
\<close>

end
